(* ===== verification/Leactor_Prelude.thy ===== *)
theory Leactor_Prelude
  imports Main "HOL-Library.Word" "HOL-Library.Multiset" "HOL-Library.Monad_Syntax"
begin

text \<open>
  What the component theories share: C integers at their width, undefined behaviour as a value,
  and array cells.

  \<^item> A signed C integer (\<open>int\<close>, \<open>long\<close>, \<open>time_t\<close>) is an \<^typ>\<open>int\<close> kept in range by
    \<open>i32\<close> or \<open>i64\<close>, which write the two's complement wrap-around of the compiled code out. Where
    the C standard leaves the overflow undefined, the bounds under which nothing wraps are
    hypotheses of the theorems.
  \<^item> An unsigned C integer is a word (\<^typ>\<open>32 word\<close>, \<^typ>\<open>64 word\<close>), or a \<^typ>\<open>nat\<close> with the
    \<open>mod\<close> written out.
  \<^item> A step that the C standard leaves undefined (a null or dangling dereference, an access outside
    an array, a read of a freed block) is \<^const>\<open>None\<close>; a defined step is \<^const>\<open>Some\<close> of its result.
\<close>

section \<open>Collections of facts\<close>

named_theorems c_int \<open>two's complement wrap-around of C integers\<close>

named_theorems c_cell \<open>array cells: defined loads and stores\<close>

section \<open>Signed integers\<close>

definition i32 :: "int \<Rightarrow> int" where
  "i32 x = (x + 2147483648) mod 4294967296 - 2147483648"

definition i64 :: "int \<Rightarrow> int" where
  "i64 x = (x + 9223372036854775808) mod 18446744073709551616 - 9223372036854775808"

lemma i32_id [c_int]: "- 2147483648 \<le> x \<Longrightarrow> x < 2147483648 \<Longrightarrow> i32 x = x"
  by (simp add: i32_def)

lemma i64_id [c_int]:
  "- 9223372036854775808 \<le> x \<Longrightarrow> x < 9223372036854775808 \<Longrightarrow> i64 x = x"
  by (simp add: i64_def)

lemma i32_range: "- 2147483648 \<le> i32 x \<and> i32 x < 2147483648"
proof -
  have "0 \<le> (x + 2147483648) mod 4294967296 \<and> (x + 2147483648) mod 4294967296 < 4294967296"
    by (intro conjI pos_mod_sign pos_mod_bound) simp_all
  then show ?thesis by (simp add: i32_def)
qed

lemma i64_range: "- 9223372036854775808 \<le> i64 x \<and> i64 x < 9223372036854775808"
proof -
  have "0 \<le> (x + 9223372036854775808) mod 18446744073709551616 \<and>
    (x + 9223372036854775808) mod 18446744073709551616 < 18446744073709551616"
    by (intro conjI pos_mod_sign pos_mod_bound) simp_all
  then show ?thesis by (simp add: i64_def)
qed

lemma i32_idem [simp]: "i32 (i32 x) = i32 x"
  using i32_range [of x] by (intro i32_id) auto

lemma i64_idem [simp]: "i64 (i64 x) = i64 x"
  using i64_range [of x] by (intro i64_id) auto

lemma i64_le: "- 9223372036854775808 \<le> x \<Longrightarrow> i64 x \<le> x"
  using zmod_le_nonneg_dividend [of "x + 9223372036854775808" 18446744073709551616]
  by (simp add: i64_def)

lemma i32_cong: "i32 x = i32 y \<longleftrightarrow> x mod 4294967296 = y mod 4294967296"
proof -
  have "i32 x = i32 y \<longleftrightarrow> (x + 2147483648) mod 4294967296 = (y + 2147483648) mod 4294967296"
    by (simp add: i32_def)
  also have "\<dots> \<longleftrightarrow> x mod 4294967296 = y mod 4294967296"
    by (simp add: mod_eq_dvd_iff)
  finally show ?thesis .
qed

section \<open>Unsigned integers\<close>

lemma unat_of_nat64 [c_int]: "n < 2 ^ 64 \<Longrightarrow> unat (word_of_nat n :: 64 word) = n"
  by (simp add: unat_of_nat)

section \<open>Undefined behaviour and array cells\<close>

definition ld :: "'a list \<Rightarrow> nat \<Rightarrow> 'a option" where
  "ld xs i = (if i < length xs then Some (xs ! i) else None)"

definition st :: "'a list \<Rightarrow> nat \<Rightarrow> 'a \<Rightarrow> 'a list option" where
  "st xs i v = (if i < length xs then Some (xs[i := v]) else None)"

lemma ld_in [c_cell]: "i < length xs \<Longrightarrow> ld xs i = Some (xs ! i)"
  by (simp add: ld_def)

lemma st_in [c_cell]: "i < length xs \<Longrightarrow> st xs i v = Some (xs[i := v])"
  by (simp add: st_def)

lemma ld_SomeD: "ld xs i = Some v \<Longrightarrow> i < length xs \<and> v = xs ! i"
  by (auto simp: ld_def split: if_splits)

lemma st_SomeD: "st xs i v = Some ys \<Longrightarrow> i < length xs \<and> ys = xs[i := v]"
  by (auto simp: st_def split: if_splits)

end
