(* ===== verification/Lt_Time.thy ===== *)
theory Lt_Time
  imports Leactor_Prelude
begin

text \<open>
  The clock arithmetic of event_lea.c: \<open>lt_time_t\<close> (a \<open>struct timespec\<close> of two \<open>long\<close>s), the
  addition of a timeout, the difference of two times, the test of one event's deadline, and the
  test that ends \<open>lt_base_loop\<close>. All of it is 64-bit signed arithmetic, wrap-around included.
\<close>

section \<open>Data\<close>

record lt_time =
  tv_sec :: int
  tv_nsec :: int

text \<open>\<open>#define NO_TIMEOUT (-1L)\<close>.\<close>

definition NO_TIMEOUT :: int where
  "NO_TIMEOUT = - 1"

text \<open>
  The abstract reading of a time: its nanoseconds since the clock's origin. A time is normalised
  when its nanosecond field is below one second, as the clock delivers it.
\<close>

definition time_ns :: "lt_time \<Rightarrow> int" where
  "time_ns t = tv_sec t * 1000000000 + tv_nsec t"

definition normalised :: "lt_time \<Rightarrow> bool" where
  "normalised t \<longleftrightarrow> 0 \<le> tv_nsec t \<and> tv_nsec t < 1000000000"

text \<open>A time far enough from the ends of the 64-bit range (292 years) for its arithmetic to be exact.\<close>

definition near :: "lt_time \<Rightarrow> bool" where
  "near t \<longleftrightarrow> 0 \<le> tv_sec t \<and> tv_sec t < 4611686018 \<and> 0 \<le> tv_nsec t \<and> tv_nsec t \<le> 1000000000"

section \<open>Operations\<close>

text \<open>The carry loop of \<open>lt_time_addition\<close>.\<close>

function carry_loop :: "int \<Rightarrow> int \<Rightarrow> int \<times> int" where
  "carry_loop nsec sec =
     (if nsec > 1000000000 then carry_loop (i64 (nsec - 1000000000)) (i64 (sec + 1))
      else (nsec, sec))"
  by pat_completeness auto
termination
proof (relation "measure (\<lambda>(nsec, sec). nat nsec)", simp)
  fix nsec sec :: int
  assume "1000000000 < nsec"
  moreover from this have "i64 (nsec - 1000000000) \<le> nsec - 1000000000"
    by (intro i64_le) simp
  ultimately show "((i64 (nsec - 1000000000), i64 (sec + 1)), (nsec, sec))
      \<in> measure (\<lambda>(nsec, sec). nat nsec)"
    by simp
qed

declare carry_loop.simps [simp del]

definition lt_time_addition :: "lt_time \<Rightarrow> int \<Rightarrow> lt_time" where
  "lt_time_addition time to =
     (let nsec = i64 (to + tv_nsec time); sec = tv_sec time;
          (nsec', sec') = carry_loop nsec sec
      in \<lparr>tv_sec = sec', tv_nsec = nsec'\<rparr>)"

definition lt_time_a_sub_b :: "lt_time \<Rightarrow> lt_time \<Rightarrow> int" where
  "lt_time_a_sub_b a b =
     i64 (i64 (i64 (i64 (tv_sec a * 1000000000) + tv_nsec a) - i64 (tv_sec b * 1000000000))
          - tv_nsec b)"

definition lt_ev_check_timeout :: "lt_time \<Rightarrow> lt_time \<Rightarrow> int" where
  "lt_ev_check_timeout endtime nowtime =
     (let sec_diff = i64 (tv_sec endtime - tv_sec nowtime);
          nsec_diff = i64 (tv_nsec endtime - tv_nsec nowtime)
      in if sec_diff > 0 then 1
         else if sec_diff = 0 then (if nsec_diff \<ge> 0 then 1 else 0)
         else 0)"

text \<open>
  \<open>time_a_gt_b(X,>,Z)\<close> compares \<open>(long long)X\<close> with \<open>(unsigned long long)Z\<close>: the usual arithmetic
  conversions turn both into 64-bit unsigned values.
\<close>

definition time_a_gt_b :: "int \<Rightarrow> int \<Rightarrow> bool" where
  "time_a_gt_b x z \<longleftrightarrow> x mod 18446744073709551616 > z mod 18446744073709551616"

section \<open>Lemmas\<close>

lemma carry_loop_done: "nsec \<le> 1000000000 \<Longrightarrow> carry_loop nsec sec = (nsec, sec)"
  by (simp add: carry_loop.simps [of nsec])

lemma carry_loop_step:
  assumes "1000000000 < nsec" and "nsec < 9223372036854775808"
    and "0 \<le> sec" and "sec < 9223372036854775807"
  shows "carry_loop nsec sec = carry_loop (nsec - 1000000000) (sec + 1)"
  using assms by (subst carry_loop.simps) (simp add: i64_id)

lemma carry_loop_exact:
  assumes "carry_loop nsec sec = (n, s)"
    and "0 \<le> nsec" "nsec < 9223372036854775808" "0 \<le> sec"
    and "sec + nsec div 1000000000 < 9223372036854775807"
  shows "s * 1000000000 + n = sec * 1000000000 + nsec \<and> n \<le> 1000000000 \<and>
    (0 < n \<or> nsec = 0 \<and> n = 0)"
  using assms
proof (induction nsec sec rule: carry_loop.induct)
  case (1 nsec sec)
  show ?case
  proof (cases "nsec > 1000000000")
    case False
    with "1.prems" show ?thesis by (auto simp: carry_loop_done)
  next
    case True
    have d: "(nsec - 1000000000) div 1000000000 = nsec div 1000000000 - 1"
      using div_add_self2 [of 1000000000 "nsec - 1000000000"] by simp
    have q: "1 \<le> nsec div 1000000000"
      using True zdiv_mono1 [of 1000000000 nsec 1000000000] by simp
    have e: "i64 (nsec - 1000000000) = nsec - 1000000000" "i64 (sec + 1) = sec + 1"
      using "1.prems" True q by (auto intro!: i64_id)
    have "carry_loop (nsec - 1000000000) (sec + 1) = (n, s)"
      using "1.prems"(1) True e by (subst (asm) carry_loop.simps) simp
    with "1.IH" [OF True] "1.prems" True d q e show ?thesis by (auto simp: algebra_simps)
  qed
qed

lemma lt_time_a_sub_b_exact:
  "near a \<Longrightarrow> near b \<Longrightarrow> lt_time_a_sub_b a b = time_ns a - time_ns b"
  unfolding near_def lt_time_a_sub_b_def time_ns_def by (simp add: i64_id)

lemma lt_ev_check_timeout_near:
  "near e \<Longrightarrow> near n \<Longrightarrow> lt_ev_check_timeout e n =
     (if tv_sec n < tv_sec e \<or> tv_sec n = tv_sec e \<and> tv_nsec n \<le> tv_nsec e then 1 else 0)"
  unfolding near_def lt_ev_check_timeout_def Let_def by (auto simp: i64_id)

lemma normalised_less_sec:
  assumes "normalised a" "normalised b" "tv_sec a < tv_sec b"
  shows "time_ns a < time_ns b"
proof -
  have "(tv_sec a + 1) * 1000000000 \<le> tv_sec b * 1000000000"
    using assms(3) by simp
  with assms show ?thesis by (simp add: normalised_def time_ns_def)
qed

section \<open>Properties\<close>

text \<open>
  Claim C30: \<open>lt_time_addition\<close> adds a timeout exactly. For a clock reading and a
  non-negative timeout whose sum stays in the range of \<open>long\<close>, the carry loop ends, the result
  denotes the clock's nanoseconds plus the timeout, and its nanosecond field lies in
  \<open>0..10^9\<close>, both ends included (the guard is \<open>>\<close>, so a full second is not carried).
\<close>

theorem lt_time_addition_exact:
  assumes "near t" "0 \<le> to" "to < 4611686018427387904"
  shows "time_ns (lt_time_addition t to) = time_ns t + to \<and>
    0 \<le> tv_nsec (lt_time_addition t to) \<and> tv_nsec (lt_time_addition t to) \<le> 1000000000"
proof -
  have r: "0 \<le> to + tv_nsec t" "to + tv_nsec t < 9223372036854775808"
    using assms by (auto simp: near_def)
  have "(to + tv_nsec t) div 1000000000 \<le> 4611686019427387904 div 1000000000"
    using assms by (intro zdiv_mono1) (auto simp: near_def)
  then have "tv_sec t + (to + tv_nsec t) div 1000000000 < 9223372036854775807"
    using assms(1) by (simp add: near_def)
  moreover obtain n s where c: "carry_loop (to + tv_nsec t) (tv_sec t) = (n, s)"
    by fastforce
  moreover have "lt_time_addition t to = \<lparr>tv_sec = s, tv_nsec = n\<rparr>"
    using c r by (simp add: lt_time_addition_def i64_id)
  ultimately show ?thesis
    using carry_loop_exact [OF c] r assms(1) by (auto simp: time_ns_def near_def)
qed

theorem lt_time_addition_exact_witness:
  "time_ns (lt_time_addition \<lparr>tv_sec = 5, tv_nsec = 999999999\<rparr> 2000000001) = 8000000000"
  using lt_time_addition_exact [of "\<lparr>tv_sec = 5, tv_nsec = 999999999\<rparr>" 2000000001]
  by (simp add: near_def time_ns_def)

text \<open>
  \<open>lt_ev_check_timeout\<close> answers 1 exactly when the deadline
  has not passed yet. The event loop takes that answer for "timed out" and marks the event deleted,
  so an event with a deadline in the future is the one that is dropped.
\<close>

theorem deadline_test_reports_pending:
  assumes "near e" "normalised e" "near n" "normalised n"
  shows "lt_ev_check_timeout e n = 1 \<longleftrightarrow> time_ns n \<le> time_ns e"
proof (cases "tv_sec n = tv_sec e")
  case True
  then show ?thesis using assms by (simp add: lt_ev_check_timeout_near time_ns_def)
next
  case False
  then consider "tv_sec n < tv_sec e" | "tv_sec e < tv_sec n" by linarith
  then show ?thesis
  proof cases
    case 1
    with assms normalised_less_sec [of n e] show ?thesis by (simp add: lt_ev_check_timeout_near)
  next
    case 2
    with assms normalised_less_sec [of e n] show ?thesis by (simp add: lt_ev_check_timeout_near)
  qed
qed

theorem deadline_test_reports_pending_witness:
  "lt_ev_check_timeout \<lparr>tv_sec = 9, tv_nsec = 5\<rparr> \<lparr>tv_sec = 9, tv_nsec = 6\<rparr> \<noteq> 1"
  using deadline_test_reports_pending
    [of "\<lparr>tv_sec = 9, tv_nsec = 5\<rparr>" "\<lparr>tv_sec = 9, tv_nsec = 6\<rparr>"]
  by (simp add: near_def normalised_def time_ns_def)

lemma no_timeout_no_expiry: "\<not> time_a_gt_b diff NO_TIMEOUT"
proof -
  have "diff mod 18446744073709551616 < 18446744073709551616" by (rule pos_mod_bound) simp
  then show ?thesis by (simp add: time_a_gt_b_def NO_TIMEOUT_def)
qed

text \<open>
  with \<open>NO_TIMEOUT\<close> the test that ends \<open>lt_base_loop\<close> is never
  true, whatever time has passed; with a timeout that is not negative it compares the elapsed
  nanoseconds with that number (which \<open>epoll_wait\<close> is given as milliseconds).
\<close>

theorem no_timeout_never_expires:
  "\<not> time_a_gt_b diff NO_TIMEOUT \<and>
   (\<forall>d \<in> {0..<9223372036854775808}. \<forall>to \<in> {0..<2147483648}. time_a_gt_b d to = (d > to))"
  using no_timeout_no_expiry by (simp add: time_a_gt_b_def)

theorem no_timeout_never_expires_witness:
  "time_a_gt_b 1500 1000 \<and> \<not> time_a_gt_b 999 1000"
  using no_timeout_never_expires by simp

end
