(* ===== verification/Lt_Pool.thy ===== *)
theory Lt_Pool
  imports Leactor_Prelude
begin

text \<open>
  The memory pools of lt_pool.c: a manager hands out elements of one size from a chain of blocks,
  each block a header (\<open>lt_memory_pool_t\<close>) followed by the elements, and a bump pointer. The
  sizes are those of the LP64 data model: \<open>sizeof(lt_memory_pool_manager_t)\<close> is 48 and
  \<open>sizeof(lt_memory_pool_t)\<close> is 40.

  The live blocks are a partial map from addresses to headers, so that reading the header of a
  freed block is \<^const>\<open>None\<close>. \<open>aligned_alloc\<close> is an argument: a function of the live blocks and
  the size, returning 0 when it fails. What it promises is the predicate \<open>fresh_block\<close>.
\<close>

unbundle bit_operations_syntax

section \<open>Data\<close>

type_synonym u64 = "64 word"

record lt_memory_pool =
  mp_start :: u64
  mp_end :: u64
  mp_pos :: u64
  mp_next :: u64
  mp_manager :: u64

record lt_memory_pool_manager =
  pm_cur :: u64
  pm_one_element_size :: u64
  pm_element_count :: u64
  pm_head :: u64
  pm_tail :: u64
  pm_heterogeneous_next :: u64

type_synonym pool_mem = "u64 \<rightharpoonup> lt_memory_pool"

type_synonym aligned_alloc = "pool_mem \<Rightarrow> u64 \<Rightarrow> u64"

definition sizeof_pool_manager :: u64 where
  "sizeof_pool_manager = 48"

definition sizeof_pool :: u64 where
  "sizeof_pool = 40"

text \<open>A dereference of a pool pointer: the null pointer and freed blocks are undefined.\<close>

definition pool_at :: "pool_mem \<Rightarrow> u64 \<Rightarrow> lt_memory_pool option" where
  "pool_at m a = (if a = 0 then None else m a)"

section \<open>Operations\<close>

definition alignment_ptr :: "u64 \<Rightarrow> u64 \<Rightarrow> u64" where
  "alignment_ptr p a = (p + (a - 1)) AND NOT (a - 1)"

definition pool_block_size :: "lt_memory_pool_manager \<Rightarrow> u64" where
  "pool_block_size mg = sizeof_pool_manager + pm_element_count mg * pm_one_element_size mg"

text \<open>
  \<open>lt_new_memory_pool\<close>: \<open>ma\<close> is the manager's own address, stored in the block's header. The result
  is the new block's address (0 when \<open>aligned_alloc\<close> fails), the manager and the live blocks.
\<close>

definition lt_new_memory_pool ::
  "aligned_alloc \<Rightarrow> u64 \<Rightarrow> lt_memory_pool_manager \<Rightarrow> pool_mem \<Rightarrow>
   (u64 \<times> lt_memory_pool_manager \<times> pool_mem) option" where
  "lt_new_memory_pool aa ma mg m =
     (let size = pool_block_size mg; pool = aa m size in
      if pool = 0 then Some (0, mg, m)
      else
        let hdr = \<lparr>mp_start = pool, mp_end = pool + size,
                  mp_pos = alignment_ptr (pool + sizeof_pool) 8, mp_next = 0, mp_manager = ma\<rparr>;
            m1 = m(pool \<mapsto> hdr)
        in do {
          m2 \<leftarrow> (if pm_cur mg \<noteq> 0
                then do { t \<leftarrow> pool_at m1 (pm_tail mg);
                          Some (m1(pm_tail mg \<mapsto> t\<lparr>mp_next := pool\<rparr>)) }
                else Some m1);
          Some (pool, mg\<lparr>pm_cur := pool, pm_tail := pool\<rparr>, m2)
        })"

text \<open>
  \<open>lt_new_memory_pool_manager\<close>: \<open>ma\<close> is the \<open>manager\<close> argument; when it is null the manager is a
  zeroed record at the address \<open>calloc\<close> returns, which the code does not check.
\<close>

definition zero_manager :: lt_memory_pool_manager where
  "zero_manager = \<lparr>pm_cur = 0, pm_one_element_size = 0, pm_element_count = 0, pm_head = 0,
                   pm_tail = 0, pm_heterogeneous_next = 0\<rparr>"

definition lt_new_memory_pool_manager ::
  "aligned_alloc \<Rightarrow> u64 \<Rightarrow> u64 \<Rightarrow> lt_memory_pool_manager \<Rightarrow> u64 \<Rightarrow> u64 \<Rightarrow> pool_mem \<Rightarrow>
   (u64 \<times> lt_memory_pool_manager \<times> pool_mem) option" where
  "lt_new_memory_pool_manager aa calloc ma mg esize ecount m =
     (let ma' = (if ma = 0 then calloc else ma);
          mg' = (if ma = 0 then zero_manager else mg) in
      if ma' = 0 then None
      else do {
        (pool, mg1, m1) \<leftarrow> lt_new_memory_pool aa ma'
           (mg'\<lparr>pm_one_element_size := esize, pm_element_count := ecount, pm_cur := 0\<rparr>) m;
        Some (ma', mg1\<lparr>pm_cur := pool, pm_tail := pool, pm_head := pool\<rparr>, m1)
      })"

definition lt_alloc ::
  "aligned_alloc \<Rightarrow> u64 \<Rightarrow> lt_memory_pool_manager \<Rightarrow> pool_mem \<Rightarrow>
   (u64 \<times> lt_memory_pool_manager \<times> pool_mem) option" where
  "lt_alloc aa ma mg m = do {
     cur \<leftarrow> pool_at m (pm_tail mg);
     let new_space = mp_pos cur;
     let cur' = cur\<lparr>mp_pos := alignment_ptr (mp_pos cur + pm_one_element_size mg) 8\<rparr>;
     let m1 = m(pm_tail mg \<mapsto> cur');
     if mp_pos cur' > mp_end cur' then do {
       (_, mg2, m2) \<leftarrow> lt_new_memory_pool aa ma mg m1;
       Some (new_space, mg2, m2)
     } else Some (new_space, mg, m1)
   }"

text \<open>
  The loop of \<open>lt_destroy_memory_pool\<close>: \<open>pool\<close> is not advanced to \<open>next\<close>, so a second round reads
  the header of the block it has just freed.
\<close>

function destroy_loop :: "pool_mem \<Rightarrow> u64 \<Rightarrow> pool_mem option" where
  "destroy_loop m pool =
     (case pool_at m pool of
        None \<Rightarrow> None
      | Some hdr \<Rightarrow>
          let m' = m(pool := None) in
          if mp_next hdr = 0 then Some m' else destroy_loop m' pool)"
  by pat_completeness auto
termination
  by (relation "measure (\<lambda>(m, pool). if m pool = None then 0 else 1)")
    (auto simp: pool_at_def split: if_splits)

declare destroy_loop.simps [simp del]

definition lt_destroy_memory_pool :: "lt_memory_pool_manager \<Rightarrow> pool_mem \<Rightarrow> pool_mem option" where
  "lt_destroy_memory_pool mg m = destroy_loop m (pm_head mg)"

section \<open>Alignment\<close>

lemma alignment_ptr_8: "alignment_ptr x 8 = push_bit 3 (drop_bit 3 (x + 7))"
proof -
  have "(7 :: u64) = mask 3" by (simp add: mask_eq_exp_minus_1)
  then have "y AND NOT 7 = push_bit 3 (drop_bit 3 y)" for y :: u64
    by (simp only: bit_eq_iff) (auto simp: bit_simps)
  from this [of "x + 7"] show ?thesis by (simp add: alignment_ptr_def)
qed

lemma unat_alignment_ptr:
  assumes "unat x + 7 < 2 ^ 64"
  shows "unat (alignment_ptr x 8) = (unat x + 7) div 8 * 8"
proof -
  have s: "unat (x + 7) = unat x + 7"
    using assms by (simp add: unat_word_ariths)
  have "unat (push_bit 3 (drop_bit 3 (x + 7))) =
      take_bit 64 (push_bit 3 (drop_bit 3 (take_bit 64 (unat x + 7))))"
    by (simp only: unsigned_push_bit_eq unsigned_drop_bit_eq s) simp
  also have "take_bit 64 (unat x + 7) = unat x + 7"
    using assms by (rule take_bit_nat_eq_self)
  also have "push_bit 3 (drop_bit 3 (unat x + 7)) = (unat x + 7) div 8 * 8"
    by (simp add: drop_bit_eq_div push_bit_eq_mult)
  also have "take_bit 64 ((unat x + 7) div 8 * 8) = (unat x + 7) div 8 * 8"
    using assms by (intro take_bit_nat_eq_self) simp
  finally show ?thesis by (simp add: alignment_ptr_8)
qed

lemma alignment_ptr_aligned:
  "8 dvd unat x \<Longrightarrow> unat x + 7 < 2 ^ 64 \<Longrightarrow> alignment_ptr x 8 = x"
  by (rule word_unat_eq_iff [THEN iffD2]) (auto simp: unat_alignment_ptr elim!: dvdE)

section \<open>The tail block\<close>

text \<open>
  What the code relies on from \<open>aligned_alloc\<close>: a block that is not null is aligned, lies in the
  user half of the address space and overlaps no live block.
\<close>

definition fresh_block :: "aligned_alloc \<Rightarrow> pool_mem \<Rightarrow> u64 \<Rightarrow> bool" where
  "fresh_block aa m sz \<longleftrightarrow>
     (aa m sz \<noteq> 0 \<longrightarrow> 16 dvd unat (aa m sz) \<and> unat (aa m sz) + unat sz \<le> 2 ^ 63 \<and>
        m (aa m sz) = None \<and>
        (\<forall>a hdr. m a = Some hdr \<longrightarrow> unat (mp_end hdr) \<le> unat (aa m sz) \<or>
           unat (aa m sz) + unat sz \<le> unat (mp_start hdr)))"

text \<open>
  The element sizes of the program are multiples of 8 above 8, and the block size does not wrap.
\<close>

definition well_sized :: "lt_memory_pool_manager \<Rightarrow> bool" where
  "well_sized mg \<longleftrightarrow> 8 dvd unat (pm_one_element_size mg) \<and> 8 < unat (pm_one_element_size mg) \<and>
     unat (pm_one_element_size mg) < 2 ^ 62 \<and>
     48 + unat (pm_element_count mg) * unat (pm_one_element_size mg) < 2 ^ 62"

text \<open>\<open>tail_used mg m k\<close>: the tail block is live and \<open>k\<close> elements of it are handed out.\<close>

definition tail_used :: "lt_memory_pool_manager \<Rightarrow> pool_mem \<Rightarrow> nat \<Rightarrow> bool" where
  "tail_used mg m k \<longleftrightarrow> (\<exists>c. pool_at m (pm_tail mg) = Some c \<and> 8 dvd unat (mp_start c) \<and>
     unat (mp_end c) = unat (mp_start c) + 48
       + unat (pm_element_count mg) * unat (pm_one_element_size mg) \<and>
     unat (mp_end c) \<le> 2 ^ 63 \<and>
     unat (mp_pos c) = unat (mp_start c) + 40 + k * unat (pm_one_element_size mg))"

text \<open>Where the tail block's next element starts, and where the block ends.\<close>

definition tail_next :: "lt_memory_pool_manager \<Rightarrow> pool_mem \<Rightarrow> nat" where
  "tail_next mg m = (case pool_at m (pm_tail mg) of None \<Rightarrow> 0 | Some c \<Rightarrow> unat (mp_pos c))"

definition tail_limit :: "lt_memory_pool_manager \<Rightarrow> pool_mem \<Rightarrow> nat" where
  "tail_limit mg m = (case pool_at m (pm_tail mg) of None \<Rightarrow> 0 | Some c \<Rightarrow> unat (mp_end c))"

lemma unat_pool_block_size:
  assumes "well_sized mg"
  shows "unat (pool_block_size mg) =
    48 + unat (pm_element_count mg) * unat (pm_one_element_size mg)"
proof -
  have "unat (pm_element_count mg) * unat (pm_one_element_size mg) < 2 ^ 64"
    using assms by (simp add: well_sized_def)
  then have "unat (pm_element_count mg * pm_one_element_size mg) =
      unat (pm_element_count mg) * unat (pm_one_element_size mg)"
    by (simp add: unat_word_ariths)
  then show ?thesis
    using assms by (simp add: pool_block_size_def sizeof_pool_manager_def unat_word_ariths
        well_sized_def)
qed

lemma new_block_used:
  assumes "well_sized mg" "fresh_block aa m (pool_block_size mg)"
    and "aa m (pool_block_size mg) \<noteq> 0"
    and "lt_new_memory_pool aa ma mg m = Some (p, mg', m')"
  shows "tail_used mg' m' 0 \<and> pm_one_element_size mg' = pm_one_element_size mg \<and>
    pm_element_count mg' = pm_element_count mg \<and> pm_tail mg' = p \<and> p = aa m (pool_block_size mg)"
proof -
  define b where "b = aa m (pool_block_size mg)"
  have b: "16 dvd unat b" "unat b + unat (pool_block_size mg) \<le> 2 ^ 63" "b \<noteq> 0" "m b = None"
    using assms(2,3) by (auto simp: fresh_block_def b_def)
  have sz: "48 \<le> unat (pool_block_size mg)"
    using unat_pool_block_size [OF assms(1)] by simp
  have d8: "8 dvd unat b" using b(1) by (rule dvd_trans [rotated]) simp
  have e: "unat (b + pool_block_size mg) = unat b + unat (pool_block_size mg)"
    using b(2) by (simp add: unat_word_ariths)
  have q: "unat (b + sizeof_pool) = unat b + 40"
    using b(2) sz by (simp add: sizeof_pool_def unat_word_ariths)
  have a: "alignment_ptr (b + sizeof_pool) 8 = b + sizeof_pool"
    using b(2) sz d8 q by (intro alignment_ptr_aligned) (auto simp: dvd_add)
  show ?thesis
    using assms(4) b(3,4) d8 e q a b(2) unat_pool_block_size [OF assms(1)]
    by (auto simp: lt_new_memory_pool_def b_def [symmetric] Let_def tail_used_def pool_at_def
        split: if_splits Option.bind_splits)
qed

lemma alloc_pos:
  assumes "well_sized mg" "pool_at m (pm_tail mg) = Some c" "8 dvd unat (mp_start c)"
    and "unat (mp_pos c) = unat (mp_start c) + 40 + k * unat (pm_one_element_size mg)"
    and "unat (mp_pos c) \<le> 2 ^ 63"
  shows "unat (alignment_ptr (mp_pos c + pm_one_element_size mg) 8) =
    unat (mp_start c) + 40 + Suc k * unat (pm_one_element_size mg)"
proof -
  have s: "unat (mp_pos c + pm_one_element_size mg) =
      unat (mp_start c) + 40 + Suc k * unat (pm_one_element_size mg)"
    using assms by (simp add: unat_word_ariths well_sized_def)
  have "8 dvd unat (mp_start c) + 40 + Suc k * unat (pm_one_element_size mg)"
    using assms by (intro dvd_add dvd_mult) (auto simp: well_sized_def)
  moreover have "unat (mp_pos c + pm_one_element_size mg) + 7 < 2 ^ 64"
    using assms s by (simp add: well_sized_def)
  ultimately show ?thesis
    using s alignment_ptr_aligned [of "mp_pos c + pm_one_element_size mg"] by simp
qed

lemma alloc_fits:
  assumes "well_sized mg" "tail_used mg m k" "k < unat (pm_element_count mg)"
  shows "\<exists>m'. lt_alloc aa ma mg m = Some (word_of_nat (tail_next mg m), mg, m') \<and>
    tail_used mg m' (Suc k) \<and>
    tail_next mg m' = tail_next mg m + unat (pm_one_element_size mg) \<and>
    tail_limit mg m' = tail_limit mg m"
proof -
  obtain c where c: "pool_at m (pm_tail mg) = Some c" "8 dvd unat (mp_start c)"
    "unat (mp_end c) = unat (mp_start c) + 48
       + unat (pm_element_count mg) * unat (pm_one_element_size mg)"
    "unat (mp_end c) \<le> 2 ^ 63"
    "unat (mp_pos c) = unat (mp_start c) + 40 + k * unat (pm_one_element_size mg)"
    using assms(2) by (auto simp: tail_used_def)
  have k: "Suc k * unat (pm_one_element_size mg)
      \<le> unat (pm_element_count mg) * unat (pm_one_element_size mg)"
    using assms(3) by (intro mult_le_mono1) simp
  have p: "unat (alignment_ptr (mp_pos c + pm_one_element_size mg) 8) =
      unat (mp_start c) + 40 + Suc k * unat (pm_one_element_size mg)"
    using assms(1) c k by (intro alloc_pos) auto
  define m' where "m' =
    m(pm_tail mg \<mapsto> c\<lparr>mp_pos := alignment_ptr (mp_pos c + pm_one_element_size mg) 8\<rparr>)"
  have "\<not> alignment_ptr (mp_pos c + pm_one_element_size mg) 8 > mp_end c"
    using c k p by (simp add: word_less_nat_alt)
  then have "lt_alloc aa ma mg m = Some (mp_pos c, mg, m')"
    using c(1) by (simp add: lt_alloc_def m'_def Let_def)
  moreover have t: "pool_at m' (pm_tail mg) =
      Some (c\<lparr>mp_pos := alignment_ptr (mp_pos c + pm_one_element_size mg) 8\<rparr>)"
    using c(1) by (simp add: pool_at_def m'_def split: if_splits)
  moreover have "tail_used mg m' (Suc k)"
    using c(2-4) p t by (simp add: tail_used_def)
  moreover have n: "tail_next mg m = unat (mp_pos c)" "tail_limit mg m = unat (mp_end c)"
    using c(1) by (simp_all add: tail_next_def tail_limit_def)
  moreover have "word_of_nat (tail_next mg m) = mp_pos c"
    by (simp add: n(1))
  moreover have "tail_next mg m' = tail_next mg m + unat (pm_one_element_size mg)"
    using c(5) p n(1) t by (simp add: tail_next_def)
  moreover have "tail_limit mg m' = tail_limit mg m"
    using n(2) t by (simp add: tail_limit_def)
  ultimately show ?thesis
    by metis
qed

text \<open>The memory of the pools but for the position in the block at \<open>tb\<close>.\<close>

definition pool_kept :: "u64 \<Rightarrow> pool_mem \<Rightarrow> pool_mem \<Rightarrow> bool" where
  "pool_kept tb m m' \<longleftrightarrow> (\<forall>t. t \<noteq> tb \<longrightarrow> m' t = m t) \<and>
     map_option (mp_pos_update (\<lambda>_. 0)) (m' tb) = map_option (mp_pos_update (\<lambda>_. 0)) (m tb)"

lemma pool_kept_refl [simp]: "pool_kept tb m m"
  by (simp add: pool_kept_def)

lemma pool_kept_trans: "pool_kept tb m m' \<Longrightarrow> pool_kept tb m' m'' \<Longrightarrow> pool_kept tb m m''"
  by (simp add: pool_kept_def)

lemma pool_kept_header:
  assumes "pool_kept tb m m'" "m tb = Some h"
  shows "\<exists>h'. m' tb = Some h' \<and> mp_start h' = mp_start h \<and> mp_end h' = mp_end h \<and> mp_next h' = mp_next h"
proof -
  obtain h' where h': "m' tb = Some h'" "h'\<lparr>mp_pos := 0\<rparr> = h\<lparr>mp_pos := 0\<rparr>"
    using assms by (auto simp: pool_kept_def)
  then show ?thesis by (cases h'; cases h) simp
qed

lemma alloc_kept:
  assumes "well_sized mg" "tail_used mg m k" "k < unat (pm_element_count mg)"
    and al: "lt_alloc aa ma mg m = Some (a, mg', m')"
  shows "pool_kept (pm_tail mg) m m'"
proof -
  obtain c where c: "pool_at m (pm_tail mg) = Some c" "8 dvd unat (mp_start c)"
    "unat (mp_end c) = unat (mp_start c) + 48
       + unat (pm_element_count mg) * unat (pm_one_element_size mg)"
    "unat (mp_end c) \<le> 2 ^ 63"
    "unat (mp_pos c) = unat (mp_start c) + 40 + k * unat (pm_one_element_size mg)"
    using assms(2) by (auto simp: tail_used_def)
  have k: "Suc k * unat (pm_one_element_size mg)
      \<le> unat (pm_element_count mg) * unat (pm_one_element_size mg)"
    using assms(3) by (intro mult_le_mono1) simp
  have "unat (alignment_ptr (mp_pos c + pm_one_element_size mg) 8) =
      unat (mp_start c) + 40 + Suc k * unat (pm_one_element_size mg)"
    using assms(1) c k by (intro alloc_pos) auto
  then have "\<not> alignment_ptr (mp_pos c + pm_one_element_size mg) 8 > mp_end c"
    using c k by (simp add: word_less_nat_alt)
  with al c(1) show ?thesis by (auto simp: lt_alloc_def Let_def pool_kept_def pool_at_def split: if_splits)
qed

lemma alloc_full:
  assumes "well_sized mg" "tail_used mg m (unat (pm_element_count mg))"
    and "lt_alloc aa ma mg m = Some (p, mg', m')"
  shows "unat p = tail_next mg m \<and>
    unat p + unat (pm_one_element_size mg) = tail_limit mg m + (unat (pm_one_element_size mg) - 8)"
proof -
  obtain c where c: "pool_at m (pm_tail mg) = Some c"
    "unat (mp_end c) = unat (mp_start c) + 48
       + unat (pm_element_count mg) * unat (pm_one_element_size mg)"
    "unat (mp_pos c) = unat (mp_start c) + 40
       + unat (pm_element_count mg) * unat (pm_one_element_size mg)"
    using assms(2) by (auto simp: tail_used_def)
  have "p = mp_pos c"
    using assms(3) c(1) by (auto simp: lt_alloc_def Let_def split: if_splits Option.bind_splits)
  with assms(1) c show ?thesis by (simp add: tail_next_def tail_limit_def well_sized_def)
qed

section \<open>The interface: a pool of elements\<close>

text \<open>Asking for \<open>j\<close> elements, one after the other.\<close>

fun allocs :: "('m \<Rightarrow> ('a \<times> 'm) option) \<Rightarrow> nat \<Rightarrow> 'm \<Rightarrow> ('a list \<times> 'm) option" where
  "allocs f 0 m = Some ([], m)"
| "allocs f (Suc j) m =
     (case f m of None \<Rightarrow> None
      | Some (a, m') \<Rightarrow> map_option (\<lambda>(as, m''). (a # as, m'')) (allocs f j m'))"

text \<open>
  What the clients of \<open>lt_alloc\<close> rely on: as long as there is room for another element, the call
  returns the next slot, below the limit, and changes nothing but the room.
\<close>

locale element_pool =
  fixes alloc :: "'m \<Rightarrow> (u64 \<times> 'm) option"
    and room :: "'m \<Rightarrow> nat \<Rightarrow> bool"
    and slot :: "'m \<Rightarrow> nat"
    and limit :: "'m \<Rightarrow> nat"
    and esize :: nat
  assumes alloc_room: "room m (Suc j) \<Longrightarrow>
      \<exists>m'. alloc m = Some (word_of_nat (slot m), m') \<and> room m' j \<and>
        slot m' = slot m + esize \<and> limit m' = limit m"
    and room_limit: "room m j \<Longrightarrow> slot m + j * esize \<le> limit m"
    and limit_word: "room m j \<Longrightarrow> limit m < 2 ^ 64"
begin

lemma allocs_room:
  "room m j \<Longrightarrow>
    \<exists>m'. allocs alloc j m = Some (map (\<lambda>i. word_of_nat (slot m + i * esize)) [0..<j], m') \<and>
      room m' 0 \<and> limit m' = limit m"
proof (induction j arbitrary: m)
  case 0
  then show ?case by auto
next
  case (Suc j)
  obtain m1 where m1: "alloc m = Some (word_of_nat (slot m), m1)" "room m1 j"
    "slot m1 = slot m + esize" "limit m1 = limit m"
    using alloc_room [OF Suc.prems] by blast
  obtain m2 where m2: "room m2 0" "limit m2 = limit m1"
    "allocs alloc j m1 = Some (map (\<lambda>i. word_of_nat (slot m1 + i * esize)) [0..<j], m2)"
    using Suc.IH [OF m1(2)] by blast
  have "map (\<lambda>i. word_of_nat (slot m + i * esize) :: u64) [0..<Suc j] =
      word_of_nat (slot m) # map (\<lambda>i. word_of_nat (slot m1 + i * esize)) [0..<j]"
    using m1(3) by (simp add: upt_conv_Cons map_Suc_upt [symmetric] del: upt_Suc)
      (simp add: algebra_simps)
  with m1(1,4) m2 show ?case by auto
qed

lemma slot_unat:
  assumes "room m j" "i < j"
  shows "unat (word_of_nat (slot m + i * esize) :: u64) = slot m + i * esize"
    and "slot m + i * esize + esize \<le> limit m"
proof -
  have "Suc i * esize \<le> j * esize" using assms(2) by (intro mult_le_mono1) simp
  with room_limit [OF assms(1)] show le: "slot m + i * esize + esize \<le> limit m" by simp
  with limit_word [OF assms(1)]
  show "unat (word_of_nat (slot m + i * esize) :: u64) = slot m + i * esize"
    by (intro unat_of_nat64) simp
qed

text \<open>The elements lie below the limit and no two of them overlap.\<close>

lemma allocs_disjoint:
  assumes "room m j"
  shows "\<exists>as m'. allocs alloc j m = Some (as, m') \<and> length as = j \<and>
    (\<forall>i < j. slot m \<le> unat (as ! i) \<and> unat (as ! i) + esize \<le> limit m \<and>
       (\<forall>i' < i. unat (as ! i') + esize \<le> unat (as ! i)))"
proof -
  obtain m' where "allocs alloc j m =
      Some (map (\<lambda>i. word_of_nat (slot m + i * esize)) [0..<j], m')"
    using allocs_room [OF assms] by blast
  moreover have "slot m + i' * esize + esize \<le> slot m + i * esize" if "i' < i" for i i' :: nat
    using mult_le_mono1 [of "Suc i'" i esize] that by simp
  ultimately show ?thesis
    using slot_unat [OF assms]
    by (intro exI [of _ "map (\<lambda>i. word_of_nat (slot m + i * esize)) [0..<j]"] exI [of _ m'])
      auto
qed

end

text \<open>The model's pool as one state, and the room in its tail block.\<close>

definition pool_alloc ::
  "aligned_alloc \<Rightarrow> u64 \<Rightarrow> lt_memory_pool_manager \<times> pool_mem \<Rightarrow>
   (u64 \<times> lt_memory_pool_manager \<times> pool_mem) option" where
  "pool_alloc aa ma s = lt_alloc aa ma (fst s) (snd s)"

definition pool_room ::
  "lt_memory_pool_manager \<Rightarrow> lt_memory_pool_manager \<times> pool_mem \<Rightarrow> nat \<Rightarrow> bool" where
  "pool_room mg s j \<longleftrightarrow> fst s = mg \<and> well_sized mg \<and> j \<le> unat (pm_element_count mg) \<and>
     tail_used mg (snd s) (unat (pm_element_count mg) - j)"

interpretation lp: element_pool "pool_alloc aa ma" "pool_room mg"
  "\<lambda>s. tail_next (fst s) (snd s)" "\<lambda>s. tail_limit (fst s) (snd s)"
  "unat (pm_one_element_size mg)" for aa ma mg
proof
  fix s j
  assume r: "pool_room mg s (Suc j)"
  then have k: "unat (pm_element_count mg) - Suc j < unat (pm_element_count mg)"
    "Suc (unat (pm_element_count mg) - Suc j) = unat (pm_element_count mg) - j"
    by (auto simp: pool_room_def)
  show "\<exists>s'. pool_alloc aa ma s = Some (word_of_nat (tail_next (fst s) (snd s)), s') \<and>
      pool_room mg s' j \<and>
      tail_next (fst s') (snd s') = tail_next (fst s) (snd s) + unat (pm_one_element_size mg) \<and>
      tail_limit (fst s') (snd s') = tail_limit (fst s) (snd s)"
    using alloc_fits [of mg "snd s" _ aa ma] r k
    by (fastforce simp: pool_room_def pool_alloc_def)
next
  fix s j
  assume r: "pool_room mg s j"
  then have "(unat (pm_element_count mg) - j) * unat (pm_one_element_size mg)
      + j * unat (pm_one_element_size mg) =
      unat (pm_element_count mg) * unat (pm_one_element_size mg)"
    by (simp add: pool_room_def add_mult_distrib [symmetric])
  with r show "tail_next (fst s) (snd s) + j * unat (pm_one_element_size mg)
      \<le> tail_limit (fst s) (snd s)"
    by (auto simp: pool_room_def tail_used_def tail_next_def tail_limit_def)
next
  fix s j
  assume "pool_room mg s j"
  then show "tail_limit (fst s) (snd s) < 2 ^ 64"
    by (auto simp: pool_room_def tail_used_def tail_limit_def)
qed

section \<open>Managers\<close>

text \<open>
  The hypotheses of the properties: the arguments of \<open>lt_new_memory_pool_manager\<close> are those of a
  pool of \<open>n\<close> elements of \<open>e\<close> bytes, and \<open>aligned_alloc\<close> succeeds on the first block.
\<close>

definition pool_args :: "aligned_alloc \<Rightarrow> u64 \<Rightarrow> u64 \<Rightarrow> u64 \<Rightarrow> pool_mem \<Rightarrow> bool" where
  "pool_args aa ma e n m \<longleftrightarrow> ma \<noteq> 0 \<and> 8 dvd unat e \<and> 8 < unat e \<and> unat e < 2 ^ 62 \<and>
     48 + unat n * unat e < 2 ^ 62 \<and>
     fresh_block aa m (sizeof_pool_manager + n * e) \<and> aa m (sizeof_pool_manager + n * e) \<noteq> 0"

lemma new_manager_used:
  assumes "pool_args aa ma e n m"
  shows "\<exists>mg1 m1. lt_new_memory_pool_manager aa calloc ma mg e n m = Some (ma, mg1, m1) \<and>
    well_sized mg1 \<and> tail_used mg1 m1 0 \<and> pm_one_element_size mg1 = e \<and>
    pm_element_count mg1 = n \<and> pm_head mg1 = pm_tail mg1 \<and> pm_cur mg1 = pm_tail mg1 \<and>
    pm_tail mg1 = aa m (sizeof_pool_manager + n * e) \<and>
    tail_next mg1 m1 = unat (pm_tail mg1) + 40 \<and>
    tail_limit mg1 m1 = unat (pm_tail mg1) + 48 + unat n * unat e \<and>
    (\<forall>t. t \<noteq> pm_tail mg1 \<longrightarrow> m1 t = m t) \<and>
    (\<exists>h. m1 (pm_tail mg1) = Some h \<and> mp_next h = 0 \<and> mp_start h = pm_tail mg1 \<and>
       mp_end h = pm_tail mg1 + (sizeof_pool_manager + n * e))"
proof -
  define g where "g = mg\<lparr>pm_one_element_size := e, pm_element_count := n, pm_cur := 0\<rparr>"
  have w: "well_sized g" using assms by (simp add: g_def well_sized_def pool_args_def)
  have bs: "pool_block_size g = sizeof_pool_manager + n * e"
    by (simp add: pool_block_size_def g_def)
  define b where "b = aa m (pool_block_size g)"
  have b: "fresh_block aa m (pool_block_size g)" "aa m (pool_block_size g) \<noteq> 0" "b \<noteq> 0"
    using assms by (simp_all add: b_def bs pool_args_def)
  have cur: "pm_cur g = 0" by (simp add: g_def)
  obtain g' m' where r: "lt_new_memory_pool aa ma g m = Some (b, g', m')"
    and c: "pool_at m' b = Some \<lparr>mp_start = b, mp_end = b + pool_block_size g,
       mp_pos = alignment_ptr (b + sizeof_pool) 8, mp_next = 0, mp_manager = ma\<rparr>"
    and fr: "\<forall>t. t \<noteq> b \<longrightarrow> m' t = m t"
    using b(3) cur by (simp add: lt_new_memory_pool_def b_def [symmetric] Let_def pool_at_def)
  have u: "tail_used g' m' 0 \<and> pm_one_element_size g' = e \<and> pm_element_count g' = n \<and>
      pm_tail g' = b"
    using new_block_used [OF w b(1,2) r] by (simp add: g_def)
  define mg1 where "mg1 = g'\<lparr>pm_cur := b, pm_tail := b, pm_head := b\<rparr>"
  have "lt_new_memory_pool_manager aa calloc ma mg e n m = Some (ma, mg1, m')"
    using r assms by (simp add: lt_new_memory_pool_manager_def g_def mg1_def pool_args_def)
  moreover have "tail_used mg1 m' 0"
    using u by (auto simp: tail_used_def mg1_def)
  moreover have "tail_next mg1 m' = unat b + 40" "tail_limit mg1 m' = unat b + 48 + unat n * unat e"
    using u c by (auto simp: tail_used_def tail_next_def tail_limit_def mg1_def)
  moreover have "m' b = Some \<lparr>mp_start = b, mp_end = b + (sizeof_pool_manager + n * e),
      mp_pos = alignment_ptr (b + sizeof_pool) 8, mp_next = 0, mp_manager = ma\<rparr>" "pm_tail mg1 = b"
    using c b(3) by (simp_all add: pool_at_def bs mg1_def)
  ultimately show ?thesis
    using u w bs fr by (intro exI [of _ mg1] exI [of _ m'])
      (simp add: mg1_def well_sized_def b_def g_def)
qed

lemma new_manager_room:
  assumes "pool_args aa ma e n m"
  shows "\<exists>mg1 m1. lt_new_memory_pool_manager aa calloc ma mg e n m = Some (ma, mg1, m1) \<and>
    pool_room mg1 (mg1, m1) (unat n) \<and> pm_head mg1 = pm_tail mg1 \<and>
    pm_cur mg1 = pm_tail mg1 \<and> pm_element_count mg1 = n \<and> pm_one_element_size mg1 = e \<and>
    pm_tail mg1 = aa m (sizeof_pool_manager + n * e) \<and>
    tail_next mg1 m1 = unat (aa m (sizeof_pool_manager + n * e)) + 40 \<and>
    tail_limit mg1 m1 = unat (aa m (sizeof_pool_manager + n * e)) + 48 + unat n * unat e \<and>
    (\<forall>t. t \<noteq> pm_tail mg1 \<longrightarrow> m1 t = m t) \<and>
    (\<exists>h. m1 (pm_tail mg1) = Some h \<and> mp_next h = 0 \<and> mp_start h = pm_tail mg1 \<and>
       mp_end h = pm_tail mg1 + (sizeof_pool_manager + n * e))"
  using new_manager_used [OF assms, of calloc mg] by (auto simp: pool_room_def)

lemma new_pool_defined:
  "pool_at m (pm_tail mg) \<noteq> None \<Longrightarrow>
    \<exists>p mg' m'. lt_new_memory_pool aa ma mg m = Some (p, mg', m') \<and>
      p = aa m (pool_block_size mg) \<and> pm_head mg' = pm_head mg \<and>
      pm_tail mg' = (if p = 0 then pm_tail mg else p) \<and>
      (p \<noteq> 0 \<longrightarrow> pm_cur mg \<noteq> 0 \<longrightarrow> pm_tail mg \<noteq> p \<longrightarrow>
        (\<exists>t. pool_at m' (pm_tail mg) = Some t \<and> mp_next t = p))"
  by (auto simp: lt_new_memory_pool_def Let_def pool_at_def split: if_splits)

lemma lt_alloc_defined:
  assumes "pool_at m (pm_tail mg) \<noteq> None"
  shows "\<exists>p mg' m'. lt_alloc aa ma mg m = Some (p, mg', m')"
proof -
  obtain c where c: "pool_at m (pm_tail mg) = Some c" using assms by blast
  define m1 where "m1 = m(pm_tail mg \<mapsto>
    c\<lparr>mp_pos := alignment_ptr (mp_pos c + pm_one_element_size mg) 8\<rparr>)"
  have "pool_at m1 (pm_tail mg) \<noteq> None"
    using c by (simp add: pool_at_def m1_def split: if_splits)
  then obtain q mg' m' where "lt_new_memory_pool aa ma mg m1 = Some (q, mg', m')"
    using new_pool_defined [of m1 mg aa ma] by blast
  with c show ?thesis by (simp add: lt_alloc_def m1_def Let_def)
qed

lemma lt_alloc_grown:
  assumes "lt_alloc aa ma mg m = Some (a, mg', m')" "pm_head mg = pm_tail mg"
    and "pm_cur mg = pm_tail mg" "pm_tail mg' \<noteq> pm_tail mg"
  shows "\<exists>hdr. pool_at m' (pm_head mg') = Some hdr \<and> mp_next hdr \<noteq> 0"
proof -
  obtain c where c: "pool_at m (pm_tail mg) = Some c"
    using assms(1) by (auto simp: lt_alloc_def split: Option.bind_splits)
  define m1 where "m1 = m(pm_tail mg \<mapsto>
    c\<lparr>mp_pos := alignment_ptr (mp_pos c + pm_one_element_size mg) 8\<rparr>)"
  have t: "pm_tail mg \<noteq> 0" "pool_at m1 (pm_tail mg) \<noteq> None"
    using c by (simp_all add: pool_at_def m1_def split: if_splits)
  obtain q where q: "lt_new_memory_pool aa ma mg m1 = Some (q, mg', m')"
    using assms(1,4) c
    by (auto simp: lt_alloc_def m1_def Let_def split: if_splits Option.bind_splits)
  with new_pool_defined [OF t(2), of aa ma] t(1) assms(2-4) show ?thesis by auto
qed

lemma destroy_loop_eq:
  "destroy_loop m p =
     (case pool_at m p of
        None \<Rightarrow> None
      | Some hdr \<Rightarrow> if mp_next hdr = 0 then Some (m(p := None)) else None)"
  by (auto simp: destroy_loop.simps pool_at_def Let_def split: option.splits)

lemma allocs_Suc_last:
  "allocs f j m = Some (as, m1) \<Longrightarrow> f m1 = Some (a, m2) \<Longrightarrow>
    allocs f (Suc j) m = Some (as @ [a], m2)"
proof (induction j arbitrary: m as)
  case 0
  then show ?case by simp
next
  case (Suc j)
  then obtain a0 m0 as0 where "f m = Some (a0, m0)" "allocs f j m0 = Some (as0, m1)"
    "as = a0 # as0"
    by (auto split: option.splits)
  with Suc.IH [of m0 as0] Suc.prems(2) show ?case
    by (subst allocs.simps(2)) (simp del: allocs.simps(2))
qed

lemma full_pool:
  assumes "pool_args aa ma e n m"
  shows "\<exists>mg1 m1 as m2. lt_new_memory_pool_manager aa calloc ma mg e n m = Some (ma, mg1, m1) \<and>
    pm_element_count mg1 = n \<and> pm_one_element_size mg1 = e \<and> well_sized mg1 \<and>
    pm_head mg1 = pm_tail mg1 \<and> pm_cur mg1 = pm_tail mg1 \<and>
    allocs (pool_alloc aa ma) (unat n) (mg1, m1) = Some (as, (mg1, m2)) \<and> length as = unat n \<and>
    tail_used mg1 m2 (unat n) \<and>
    tail_limit mg1 m2 = unat (aa m (sizeof_pool_manager + n * e)) + 48 + unat n * unat e"
proof -
  obtain mg1 m1 where g: "lt_new_memory_pool_manager aa calloc ma mg e n m = Some (ma, mg1, m1)"
    "pool_room mg1 (mg1, m1) (unat n)" "pm_head mg1 = pm_tail mg1" "pm_cur mg1 = pm_tail mg1"
    "pm_element_count mg1 = n" "pm_one_element_size mg1 = e"
    "tail_limit mg1 m1 = unat (aa m (sizeof_pool_manager + n * e)) + 48 + unat n * unat e"
    using new_manager_room [OF assms, of calloc mg] by blast
  obtain as s where "allocs (pool_alloc aa ma) (unat n) (mg1, m1) = Some (as, s)"
    "length as = unat n" "pool_room mg1 s 0" "tail_limit (fst s) (snd s) = tail_limit mg1 m1"
    using lp.allocs_room [OF g(2), of aa ma] by fastforce
  with g show ?thesis
    by (intro exI [of _ mg1] exI [of _ m1] exI [of _ as] exI [of _ "snd s"])
      (auto simp: pool_room_def prod_eq_iff)
qed

section \<open>Properties\<close>

text \<open>
  Claim C20: a pool of \<open>n\<close> elements of \<open>e\<close> bytes serves its first \<open>n\<close> requests
  from its first block: every element lies between the block's header and the block's end, and no
  two elements overlap.
\<close>

theorem pool_elements_fit:
  assumes "pool_args aa ma e n m"
  shows "\<exists>mg1 m1 as s. lt_new_memory_pool_manager aa calloc ma mg e n m = Some (ma, mg1, m1) \<and>
    allocs (pool_alloc aa ma) (unat n) (mg1, m1) = Some (as, s) \<and> length as = unat n \<and>
    (\<forall>i < unat n. unat (aa m (sizeof_pool_manager + n * e)) + 40 \<le> unat (as ! i) \<and>
       unat (as ! i) + unat e \<le> unat (aa m (sizeof_pool_manager + n * e)) + 48 + unat n * unat e \<and>
       (\<forall>i' < i. unat (as ! i') + unat e \<le> unat (as ! i)))"
proof -
  obtain mg1 m1 where "lt_new_memory_pool_manager aa calloc ma mg e n m = Some (ma, mg1, m1)"
    "pool_room mg1 (mg1, m1) (unat n)"
    "pm_one_element_size mg1 = e" "tail_next mg1 m1 = unat (aa m (sizeof_pool_manager + n * e)) + 40"
    "tail_limit mg1 m1 = unat (aa m (sizeof_pool_manager + n * e)) + 48 + unat n * unat e"
    using new_manager_room [OF assms] by blast
  with lp.allocs_disjoint [of mg1 "(mg1, m1)" "unat n" aa ma] show ?thesis
    by (intro exI [of _ mg1] exI [of _ m1]) simp
qed

definition demo_alloc :: aligned_alloc where
  "demo_alloc m sz = (if m 4096 = None then 4096 else if m 8192 = None then 8192 else 0)"

theorem pool_elements_fit_witness:
  "\<exists>mg1 m1 as s. lt_new_memory_pool_manager demo_alloc 0 512 zero_manager 24 3 Map.empty =
      Some (512, mg1, m1) \<and>
    allocs (pool_alloc demo_alloc 512) 3 (mg1, m1) = Some (as, s) \<and> length as = 3"
proof -
  have "pool_args demo_alloc 512 24 3 Map.empty"
    by (simp add: pool_args_def fresh_block_def demo_alloc_def sizeof_pool_manager_def)
  from pool_elements_fit [OF this, of 0 zero_manager] show ?thesis by auto
qed

text \<open>
  Claim C31: the request after the first \<open>n\<close> is served from the same
  block although the block is full: \<open>lt_alloc\<close> compares the bump pointer with the end after it has
  taken the element, starts a new block, and still returns the old address. The element reaches
  \<open>e - 8\<close> bytes past the end of the block.
\<close>

theorem pool_next_element_overruns:
  assumes "pool_args aa ma e n m"
  shows "\<exists>mg1 m1 as a s. lt_new_memory_pool_manager aa calloc ma mg e n m = Some (ma, mg1, m1) \<and>
    allocs (pool_alloc aa ma) (Suc (unat n)) (mg1, m1) = Some (as @ [a], s) \<and>
    length as = unat n \<and>
    unat a + unat e =
      unat (aa m (sizeof_pool_manager + n * e)) + 48 + unat n * unat e + (unat e - 8)"
proof -
  obtain mg1 m1 as m2 where r: "lt_new_memory_pool_manager aa calloc ma mg e n m = Some (ma, mg1, m1)"
    "pm_element_count mg1 = n" "pm_one_element_size mg1 = e" "well_sized mg1"
    "allocs (pool_alloc aa ma) (unat n) (mg1, m1) = Some (as, (mg1, m2))" "length as = unat n"
    "tail_used mg1 m2 (unat n)"
    "tail_limit mg1 m2 = unat (aa m (sizeof_pool_manager + n * e)) + 48 + unat n * unat e"
    using full_pool [OF assms, of calloc mg] by blast
  then have "pool_at m2 (pm_tail mg1) \<noteq> None" by (auto simp: tail_used_def)
  then obtain a mg' m' where a: "lt_alloc aa ma mg1 m2 = Some (a, mg', m')"
    using lt_alloc_defined by blast
  then have "allocs (pool_alloc aa ma) (Suc (unat n)) (mg1, m1) = Some (as @ [a], (mg', m'))"
    using r(5) by (intro allocs_Suc_last) (auto simp: pool_alloc_def)
  with r alloc_full [OF r(4) _ a] show ?thesis by fastforce
qed

theorem pool_next_element_overruns_witness:
  "\<exists>mg1 m1 as a s. lt_new_memory_pool_manager demo_alloc 0 512 zero_manager 24 3 Map.empty =
      Some (512, mg1, m1) \<and>
    allocs (pool_alloc demo_alloc 512) (Suc 3) (mg1, m1) = Some (as @ [a], s) \<and>
    unat a + 24 = 4096 + 120 + 16"
proof -
  have "pool_args demo_alloc 512 24 3 Map.empty"
    by (simp add: pool_args_def fresh_block_def demo_alloc_def sizeof_pool_manager_def)
  from pool_next_element_overruns [OF this, of 0 zero_manager] show ?thesis
    by (simp add: demo_alloc_def) blast
qed

text \<open>
  \<open>lt_destroy_memory_pool\<close> frees the head block when it is the
  only one; when there is a second block, the loop reads the header it has just freed, which is
  undefined.
\<close>

theorem pool_destroy_single_block:
  "lt_destroy_memory_pool mg m =
     (case pool_at m (pm_head mg) of
        None \<Rightarrow> None
      | Some hdr \<Rightarrow> if mp_next hdr = 0 then Some (m(pm_head mg := None)) else None)"
  by (simp add: lt_destroy_memory_pool_def destroy_loop_eq)

text \<open>
  Claim C32: once a pool has handed out more than \<open>n\<close> elements and has
  grown (its tail block is a new one), destroying it is undefined.
\<close>

theorem pool_grown_destroy_undefined:
  assumes "pool_args aa ma e n m"
    and "lt_new_memory_pool_manager aa calloc ma mg e n m = Some (ma, mg1, m1)"
    and "allocs (pool_alloc aa ma) (Suc (unat n)) (mg1, m1) = Some (as, (mg2, m2))"
    and "pm_tail mg2 \<noteq> pm_tail mg1"
  shows "lt_destroy_memory_pool mg2 m2 = None"
proof -
  obtain as0 m0 where r: "well_sized mg1" "pm_head mg1 = pm_tail mg1" "pm_cur mg1 = pm_tail mg1"
    "allocs (pool_alloc aa ma) (unat n) (mg1, m1) = Some (as0, (mg1, m0))"
    "tail_used mg1 m0 (unat n)"
    using full_pool [OF assms(1), of calloc mg] assms(2) by auto
  then have l: "pool_at m0 (pm_tail mg1) \<noteq> None" by (auto simp: tail_used_def)
  then obtain a mg' m' where a: "lt_alloc aa ma mg1 m0 = Some (a, mg', m')"
    using lt_alloc_defined by blast
  then have "allocs (pool_alloc aa ma) (Suc (unat n)) (mg1, m1) = Some (as0 @ [a], (mg', m'))"
    using r(4) by (intro allocs_Suc_last) (auto simp: pool_alloc_def)
  with assms(3) have s: "mg' = mg2" "m' = m2" by auto
  obtain hdr where "pool_at m2 (pm_head mg2) = Some hdr" "mp_next hdr \<noteq> 0"
    using lt_alloc_grown [OF a] l r(2,3) assms(4) s by auto
  then show ?thesis by (simp add: lt_destroy_memory_pool_def destroy_loop_eq)
qed

definition demo_manager :: "u64 \<Rightarrow> lt_memory_pool_manager" where
  "demo_manager t = \<lparr>pm_cur = t, pm_one_element_size = 24, pm_element_count = 1,
     pm_head = 4096, pm_tail = t, pm_heterogeneous_next = 0\<rparr>"

theorem pool_grown_destroy_undefined_witness:
  "\<exists>m1 as m2. lt_new_memory_pool_manager demo_alloc 0 512 zero_manager 24 1 Map.empty =
      Some (512, demo_manager 4096, m1) \<and>
    allocs (pool_alloc demo_alloc 512) (Suc (unat (1 :: u64))) (demo_manager 4096, m1) =
      Some (as, (demo_manager 8192, m2)) \<and>
    lt_destroy_memory_pool (demo_manager 8192) m2 = None"
proof -
  have args: "pool_args demo_alloc 512 24 1 Map.empty"
    by (simp add: pool_args_def fresh_block_def demo_alloc_def sizeof_pool_manager_def)
  obtain m1 where c:
    "lt_new_memory_pool_manager demo_alloc 0 512 zero_manager 24 1 Map.empty =
      Some (512, demo_manager 4096, m1)"
    "\<exists>as m2. allocs (pool_alloc demo_alloc 512) (Suc (Suc 0)) (demo_manager 4096, m1) =
      Some (as, (demo_manager 8192, m2))"
    by (simp add: lt_new_memory_pool_manager_def lt_new_memory_pool_def pool_block_size_def
        zero_manager_def demo_alloc_def sizeof_pool_manager_def sizeof_pool_def demo_manager_def
        pool_alloc_def lt_alloc_def alignment_ptr_def pool_at_def Let_def)
  then obtain as m2 where a: "allocs (pool_alloc demo_alloc 512) (Suc (unat (1 :: u64)))
      (demo_manager 4096, m1) = Some (as, (demo_manager 8192, m2))"
    by (auto simp only: unat_1 One_nat_def)
  from pool_grown_destroy_undefined [OF args c(1) a] c(1) a show ?thesis
    by (auto simp: demo_manager_def simp del: allocs.simps)
qed

text \<open>
  \<open>lt_new_memory_pool_manager\<close> does not report that
  \<open>aligned_alloc\<close> failed; the manager it returns has no block, and the first \<open>lt_alloc\<close> on it
  dereferences the null pointer.
\<close>

theorem pool_failed_create_undefined:
  assumes "ma \<noteq> 0" "aa m (sizeof_pool_manager + n * e) = 0"
  shows "\<exists>mg1. lt_new_memory_pool_manager aa calloc ma mg e n m = Some (ma, mg1, m) \<and>
    lt_alloc aa ma mg1 m = None"
  using assms
  by (simp add: lt_new_memory_pool_manager_def lt_new_memory_pool_def pool_block_size_def
      lt_alloc_def pool_at_def)

theorem pool_failed_create_undefined_witness:
  "\<exists>mg1. lt_new_memory_pool_manager (\<lambda>m sz. 0) 0 512 zero_manager 24 3 Map.empty =
     Some (512, mg1, Map.empty) \<and> lt_alloc (\<lambda>m sz. 0) 512 mg1 Map.empty = None"
  using pool_failed_create_undefined [of 512 "\<lambda>m sz. 0" Map.empty 3 24 0 zero_manager] by simp

end
