(* ===== verification/Lt_Event.thy ===== *)
theory Lt_Event
  imports Lt_Time Lt_Pool
begin

text \<open>
  The data of event_lea.h that the heap and the event loop share: \<open>event_t\<close> and the store that maps
  the addresses of live events to their contents. Addresses, code addresses and \<open>void *\<close> arguments
  are 64-bit words, 0 being the null pointer; \<open>flag_t\<close> is read bitwise and is a 32-bit word.
\<close>

section \<open>Data\<close>

definition LV_LAG :: "32 word" where "LV_LAG = 8"
definition LV_CONN :: "32 word" where "LV_CONN = 4"
definition LV_FDRD :: "32 word" where "LV_FDRD = 1"
definition LV_FDWR :: "32 word" where "LV_FDWR = 2"
definition LV_ONESHOT :: "32 word" where "LV_ONESHOT = 16"

lemmas LV_defs = LV_LAG_def LV_CONN_def LV_FDRD_def LV_FDWR_def LV_ONESHOT_def

record event =
  ev_callback :: u64
  ev_arg :: u64
  ev_flag :: "32 word"
  ev_fd :: int
  ev_min_heap_idx :: int
  ev_endtime :: lt_time
  ev_deleted :: int
  ev_pos_in_ready :: int
  ev_next_active_ev :: u64
  ev_next :: u64
  ev_prev :: u64
  ev_base :: u64

type_synonym ev_mem = "u64 \<rightharpoonup> event"

text \<open>A dereference of an event pointer, and an assignment through one.\<close>

definition ev_at :: "ev_mem \<Rightarrow> u64 \<Rightarrow> event option" where
  "ev_at m a = (if a = 0 then None else m a)"

definition ev_set :: "ev_mem \<Rightarrow> u64 \<Rightarrow> (event \<Rightarrow> event) \<Rightarrow> ev_mem option" where
  "ev_set m a f = map_option (\<lambda>ev. m(a \<mapsto> f ev)) (ev_at m a)"

lemma ev_at_SomeD: "ev_at m a = Some ev \<Longrightarrow> a \<noteq> 0 \<and> m a = Some ev"
  by (simp add: ev_at_def split: if_splits)

lemma ev_at_upd [simp]: "ev_at (m(a \<mapsto> ev)) b = (if b = a \<and> a \<noteq> 0 then Some ev else ev_at m b)"
  by (simp add: ev_at_def)

lemma ev_set_SomeD:
  "ev_set m a f = Some m' \<Longrightarrow> \<exists>ev. ev_at m a = Some ev \<and> m' = m(a \<mapsto> f ev)"
  by (auto simp: ev_set_def)

text \<open>\<open>lt_ev_init\<close> of event_lea.c; it leaves the heap index and the deadline as they were.\<close>

definition lt_ev_init ::
  "ev_mem \<Rightarrow> u64 \<Rightarrow> 32 word \<Rightarrow> int \<Rightarrow> u64 \<Rightarrow> u64 \<Rightarrow> int \<Rightarrow> ev_mem option" where
  "lt_ev_init m event flag_set fd callback arg deleted =
     ev_set m event (\<lambda>ev. ev\<lparr>ev_callback := callback, ev_arg := arg, ev_flag := flag_set,
       ev_fd := fd, ev_deleted := deleted, ev_next_active_ev := 0\<rparr>)"

text \<open>
  Two stores hold the same events when they agree on everything but the heap indices.
\<close>

definition same_events :: "ev_mem \<Rightarrow> ev_mem \<Rightarrow> bool" where
  "same_events m m' \<longleftrightarrow>
     (\<forall>a. map_option (ev_min_heap_idx_update (\<lambda>_. 0)) (m a) =
          map_option (ev_min_heap_idx_update (\<lambda>_. 0)) (m' a))"

lemma same_events_refl [simp]: "same_events m m"
  by (simp add: same_events_def)

lemma same_events_trans: "same_events m m' \<Longrightarrow> same_events m' m'' \<Longrightarrow> same_events m m''"
  by (simp add: same_events_def)

lemma same_events_idx:
  "m a = Some ev \<Longrightarrow> same_events m (m(a \<mapsto> ev\<lparr>ev_min_heap_idx := i\<rparr>))"
  by (simp add: same_events_def)

lemma same_events_endtime:
  assumes "same_events m m'" "m a = Some ev"
  shows "\<exists>ev'. m' a = Some ev' \<and> ev_endtime ev' = ev_endtime ev"
proof -
  have "map_option (ev_min_heap_idx_update (\<lambda>_. 0)) (m' a) =
      Some (ev\<lparr>ev_min_heap_idx := 0\<rparr>)"
    using assms unfolding same_events_def by (metis option.simps(9))
  then obtain ev' where e: "m' a = Some ev'" "ev'\<lparr>ev_min_heap_idx := 0\<rparr> = ev\<lparr>ev_min_heap_idx := 0\<rparr>"
    by auto
  have "ev_endtime (ev'\<lparr>ev_min_heap_idx := 0\<rparr>) = ev_endtime (ev\<lparr>ev_min_heap_idx := 0\<rparr>)"
    by (simp only: e(2))
  with e(1) show ?thesis by simp
qed

lemma same_events_sym: "same_events m m' \<Longrightarrow> same_events m' m"
  by (simp add: same_events_def)

end
