(* ===== verification/Lea_Heap.thy ===== *)
theory Lea_Heap
  imports Lt_Event
begin

text \<open>
  The timer heap of lea_heap.c: an array of event pointers in which every event stores its own
  position (\<open>min_heap_idx\<close>). The array is the list of its \<open>a\<close> cells; \<open>realloc\<close> is an argument
  that returns the enlarged array or \<^const>\<open>None\<close>. The index arithmetic of the sift loops is on
  \<^typ>\<open>nat\<close>: it is that of \<open>unsigned\<close> as long as the heap holds fewer than \<open>2^31\<close> events, which is
  also what an \<open>int\<close> position can hold, and the theorems carry that bound.
\<close>

section \<open>Data\<close>

record min_heap =
  hp_p :: "u64 list"
  hp_n :: nat
  hp_a :: nat

type_synonym realloc = "u64 list \<Rightarrow> nat \<Rightarrow> u64 list option"

section \<open>Operations\<close>

definition min_heap_constructor :: min_heap where
  "min_heap_constructor = \<lparr>hp_p = [], hp_n = 0, hp_a = 0\<rparr>"

definition min_heap_elem_init :: "ev_mem \<Rightarrow> u64 \<Rightarrow> ev_mem option" where
  "min_heap_elem_init m ev = ev_set m ev (ev_min_heap_idx_update (\<lambda>_. - 1))"

text \<open>The comparison macro: the difference of the two deadlines, used as a truth value.\<close>

definition min_heap_elem_greater :: "ev_mem \<Rightarrow> u64 \<Rightarrow> u64 \<Rightarrow> bool option" where
  "min_heap_elem_greater m a b = do {
     ea \<leftarrow> ev_at m a;
     eb \<leftarrow> ev_at m b;
     Some (lt_time_a_sub_b (ev_endtime ea) (ev_endtime eb) \<noteq> 0)
   }"

text \<open>\<open>(hole_index - 1) / 2\<close> on \<open>unsigned\<close>: at 0 it wraps to \<open>2^31 - 1\<close>.\<close>

definition parent :: "nat \<Rightarrow> nat" where
  "parent hole = ((hole + 4294967295) mod 4294967296) div 2"

text \<open>\<open>s->p[i] = x; s->p[i]->min_heap_idx = i;\<close>\<close>

definition put_elem :: "u64 list \<Rightarrow> ev_mem \<Rightarrow> nat \<Rightarrow> u64 \<Rightarrow> (u64 list \<times> ev_mem) option" where
  "put_elem p m i x = do {
     p' \<leftarrow> st p i x;
     m' \<leftarrow> ev_set m x (ev_min_heap_idx_update (\<lambda>_. i32 (int i)));
     Some (p', m')
   }"

text \<open>The loop test \<open>hole_index && min_heap_elem_greater(s->p[parent], e)\<close>.\<close>

definition up_test :: "u64 list \<Rightarrow> ev_mem \<Rightarrow> nat \<Rightarrow> u64 \<Rightarrow> bool option" where
  "up_test p m hole e =
     (if hole = 0 then Some False
      else do { x \<leftarrow> ld p (parent hole); min_heap_elem_greater m x e })"

lemma up_test_True: "up_test p m hole e = Some True \<Longrightarrow> hole \<noteq> 0"
  by (cases "hole = 0") (simp_all add: up_test_def)

lemma parent_Suc: "parent (Suc k) = k mod 4294967296 div 2"
  using mod_add_self2 [of k 4294967296] by (simp add: parent_def)

lemma parent_0: "parent 0 < 4294967296"
  by (simp add: parent_def)

lemma parent_less: "hole \<noteq> 0 \<Longrightarrow> parent hole < hole"
proof (cases hole)
  case (Suc k)
  have "k mod 4294967296 div 2 \<le> k"
    using div_le_dividend mod_less_eq_dividend by (rule le_trans)
  with Suc show ?thesis by (simp add: parent_Suc)
qed simp

function min_heap_shift_up ::
  "u64 list \<Rightarrow> ev_mem \<Rightarrow> nat \<Rightarrow> u64 \<Rightarrow> (u64 list \<times> ev_mem) option" where
  "min_heap_shift_up p m hole e =
     (case up_test p m hole e of
        None \<Rightarrow> None
      | Some False \<Rightarrow> put_elem p m hole e
      | Some True \<Rightarrow>
          (case (do { x \<leftarrow> ld p (parent hole); put_elem p m hole x }) of
             None \<Rightarrow> None
           | Some (p', m') \<Rightarrow> min_heap_shift_up p' m' (parent hole) e))"
  by pat_completeness auto
termination
  by (relation "measure (\<lambda>(p, m, hole, e). hole)") (auto dest!: up_test_True parent_less)

function min_heap_shift_up_unconditional ::
  "u64 list \<Rightarrow> ev_mem \<Rightarrow> nat \<Rightarrow> u64 \<Rightarrow> (u64 list \<times> ev_mem) option" where
  "min_heap_shift_up_unconditional p m hole e =
     (case (do { x \<leftarrow> ld p (parent hole); put_elem p m hole x }) of
        None \<Rightarrow> None
      | Some (p', m') \<Rightarrow>
          (case up_test p' m' (parent hole) e of
             None \<Rightarrow> None
           | Some True \<Rightarrow> min_heap_shift_up_unconditional p' m' (parent hole) e
           | Some False \<Rightarrow> put_elem p' m' (parent hole) e))"
  by pat_completeness auto
termination
  by (relation "measure (\<lambda>(p, m, hole, e). if hole = 0 then 4294967296 else hole)")
    (auto dest!: up_test_True intro: parent_less parent_0 intro!: gr0I)

text \<open>
  The child the loop of \<open>min_heap_shift_down\<close> compares with:
  \<open>min_child -= (min_child == s->n) || min_heap_elem_greater(p[min_child], p[min_child - 1])\<close>.
\<close>

definition down_child :: "u64 list \<Rightarrow> ev_mem \<Rightarrow> nat \<Rightarrow> nat \<Rightarrow> nat option" where
  "down_child p m n min_child =
     (if min_child = n then Some (min_child - 1)
      else do {
        x \<leftarrow> ld p min_child;
        y \<leftarrow> ld p (min_child - 1);
        g \<leftarrow> min_heap_elem_greater m x y;
        Some (if g then min_child - 1 else min_child)
      })"

function min_heap_shift_down ::
  "u64 list \<Rightarrow> ev_mem \<Rightarrow> nat \<Rightarrow> nat \<Rightarrow> u64 \<Rightarrow> (u64 list \<times> ev_mem) option" where
  "min_heap_shift_down p m n hole e =
     (if 2 * (hole + 1) \<le> n then
        (case down_child p m n (2 * (hole + 1)) of
           None \<Rightarrow> None
         | Some c \<Rightarrow>
             (case (do { x \<leftarrow> ld p c; min_heap_elem_greater m e x }) of
                None \<Rightarrow> None
              | Some False \<Rightarrow> put_elem p m hole e
              | Some True \<Rightarrow>
                  (case (do { x \<leftarrow> ld p c; put_elem p m hole x }) of
                     None \<Rightarrow> None
                   | Some (p', m') \<Rightarrow> min_heap_shift_down p' m' n c e)))
      else put_elem p m hole e)"
  by pat_completeness auto
termination
  by (relation "measure (\<lambda>(p, m, n, hole, e). n - hole)")
    (auto simp: down_child_def split: if_splits Option.bind_splits)

declare min_heap_shift_up.simps [simp del] min_heap_shift_up_unconditional.simps [simp del]
  min_heap_shift_down.simps [simp del]

definition min_heap_reserve :: "realloc \<Rightarrow> min_heap \<Rightarrow> nat \<Rightarrow> int \<times> min_heap" where
  "min_heap_reserve realloc s n =
     (if hp_a s < n then
        let a = (if hp_a s \<noteq> 0 then (hp_a s * 2) mod 4294967296 else 8);
            a' = (if a < n then n else a)
        in (case realloc (hp_p s) a' of
              None \<Rightarrow> (- 1, s)
            | Some p \<Rightarrow> (0, s\<lparr>hp_p := p, hp_a := a'\<rparr>))
      else (0, s))"

definition min_heap_push ::
  "realloc \<Rightarrow> min_heap \<Rightarrow> ev_mem \<Rightarrow> u64 \<Rightarrow> (int \<times> min_heap \<times> ev_mem) option" where
  "min_heap_push realloc s m e =
     (let (rc, s1) = min_heap_reserve realloc s ((hp_n s + 1) mod 4294967296) in
      if rc \<noteq> 0 then Some (- 1, s1, m)
      else do {
        (p, m') \<leftarrow> min_heap_shift_up (hp_p s1) m (hp_n s1) e;
        Some (0, s1\<lparr>hp_p := p, hp_n := (hp_n s1 + 1) mod 4294967296\<rparr>, m')
      })"

definition min_heap_pop :: "min_heap \<Rightarrow> ev_mem \<Rightarrow> (u64 \<times> min_heap \<times> ev_mem) option" where
  "min_heap_pop s m =
     (if hp_n s \<noteq> 0 then do {
        e \<leftarrow> ld (hp_p s) 0;
        let n = hp_n s - 1;
        l \<leftarrow> ld (hp_p s) n;
        (p, m1) \<leftarrow> min_heap_shift_down (hp_p s) m n 0 l;
        m2 \<leftarrow> ev_set m1 e (ev_min_heap_idx_update (\<lambda>_. - 1));
        Some (e, s\<lparr>hp_p := p, hp_n := n\<rparr>, m2)
      } else Some (0, s, m))"

text \<open>
  \<open>min_heap_erase\<close>: the index arithmetic \<open>(e->min_heap_idx - 1) / 2\<close> is on \<open>int\<close> (truncating
  division), then converted to \<open>unsigned\<close>; the index itself is converted to \<open>unsigned\<close> in the
  calls. On an empty heap \<open>--s->n\<close> wraps, and the access is outside the array.
\<close>

definition min_heap_erase :: "min_heap \<Rightarrow> ev_mem \<Rightarrow> u64 \<Rightarrow> (int \<times> min_heap \<times> ev_mem) option" where
  "min_heap_erase s m e = do {
     let n = (hp_n s + 4294967295) mod 4294967296;
     l \<leftarrow> ld (hp_p s) n;
     ev \<leftarrow> ev_at m e;
     let idx = ev_min_heap_idx ev;
     let par = nat (((if idx - 1 < 0 then - ((1 - idx) div 2) else (idx - 1) div 2)) mod 4294967296);
     up \<leftarrow> (if idx > 0 then do { x \<leftarrow> ld (hp_p s) par; min_heap_elem_greater m x l }
            else Some False);
     (p, m1) \<leftarrow> (if up then min_heap_shift_up_unconditional (hp_p s) m (nat (idx mod 4294967296)) l
                 else min_heap_shift_down (hp_p s) m n (nat (idx mod 4294967296)) l);
     m2 \<leftarrow> ev_set m1 e (ev_min_heap_idx_update (\<lambda>_. - 1));
     Some (0, s\<lparr>hp_p := p, hp_n := n\<rparr>, m2)
   }"

section \<open>The position links\<close>

text \<open>\<open>link m x i\<close>: \<open>x\<close> is a live event that records position \<open>i\<close>.\<close>

definition link :: "ev_mem \<Rightarrow> u64 \<Rightarrow> nat \<Rightarrow> bool" where
  "link m x i \<longleftrightarrow> (\<exists>ev. ev_at m x = Some ev \<and> ev_min_heap_idx ev = int i)"

text \<open>
  The heap invariant: the first \<open>n\<close> cells hold live events, each recording its own position, so
  no event occurs twice; the array has \<open>a\<close> cells; \<open>n\<close> is in the range of an \<open>int\<close> position.
\<close>

definition heap_inv :: "min_heap \<Rightarrow> ev_mem \<Rightarrow> bool" where
  "heap_inv s m \<longleftrightarrow> hp_n s \<le> hp_a s \<and> length (hp_p s) = hp_a s \<and> hp_n s < 2147483648 \<and>
     (\<forall>i < hp_n s. link m (hp_p s ! i) i)"

definition heap_elems :: "min_heap \<Rightarrow> u64 list" where
  "heap_elems s = take (hp_n s) (hp_p s)"

text \<open>
  During a sift, one cell is a hole into which \<open>e\<close> will go; all others are linked, and \<open>e\<close> is not
  among them.
\<close>

definition holed :: "u64 list \<Rightarrow> ev_mem \<Rightarrow> nat \<Rightarrow> nat \<Rightarrow> u64 \<Rightarrow> bool" where
  "holed p m n hole e \<longleftrightarrow> hole < n \<and> n \<le> length p \<and> n \<le> 2147483648 \<and> ev_at m e \<noteq> None \<and>
     (\<forall>j < n. j \<noteq> hole \<longrightarrow> link m (p ! j) j \<and> p ! j \<noteq> e)"

text \<open>The result of a sift: the hole is filled and nothing else is changed.\<close>

definition filled ::
  "u64 list \<Rightarrow> ev_mem \<Rightarrow> nat \<Rightarrow> nat \<Rightarrow> u64 \<Rightarrow> u64 list \<Rightarrow> ev_mem \<Rightarrow> bool" where
  "filled p m n hole e p' m' \<longleftrightarrow> length p' = length p \<and> (\<forall>j < n. link m' (p' ! j) j) \<and>
     mset (take n p') = mset (take n (p[hole := e])) \<and> same_events m m' \<and>
     (\<forall>x. x \<notin> set (take n (p[hole := e])) \<longrightarrow> m' x = m x)"

lemma link_fun: "link m x i \<Longrightarrow> link m x j \<Longrightarrow> i = j"
  by (auto simp: link_def)

lemma put_elem_eq:
  assumes "i < length p" "i < 2147483648" "ev_at m x = Some ev"
  shows "put_elem p m i x = Some (p[i := x], m(x \<mapsto> ev\<lparr>ev_min_heap_idx := int i\<rparr>))"
  using assms by (simp add: put_elem_def st_in ev_set_def i32_id)

lemma put_hole:
  assumes "holed p m n hole e"
  shows "\<exists>p' m'. put_elem p m hole e = Some (p', m') \<and> p' = p[hole := e] \<and>
    filled p m n hole e p' m'"
proof -
  obtain ev where ev: "ev_at m e = Some ev" using assms by (auto simp: holed_def)
  have l: "hole < length p" "hole < 2147483648" using assms by (auto simp: holed_def)
  define m' where "m' = m(e \<mapsto> ev\<lparr>ev_min_heap_idx := int hole\<rparr>)"
  have "put_elem p m hole e = Some (p[hole := e], m')"
    using put_elem_eq [OF l ev] by (simp add: m'_def)
  moreover have "link m' (p[hole := e] ! j) j" if "j < n" for j
    using assms that ev l
    by (cases "j = hole") (auto simp: holed_def link_def m'_def nth_list_update ev_at_def)
  moreover have "same_events m m'"
    using ev by (auto simp: m'_def dest: ev_at_SomeD intro: same_events_idx)
  moreover have "m' x = m x" if "x \<notin> set (take n (p[hole := e]))" for x
  proof -
    have "e \<in> set (take n (p[hole := e]))"
      using assms by (auto simp: holed_def in_set_conv_nth intro!: exI [of _ hole])
    with that show ?thesis by (auto simp: m'_def)
  qed
  ultimately show ?thesis by (auto simp: filled_def)
qed

text \<open>One round of any of the three sifts: the element at \<open>k\<close> moves into the hole.\<close>

lemma move_hole:
  assumes "holed p m n hole e" "k < n" "k \<noteq> hole"
  shows "\<exists>p' m'. (do { x \<leftarrow> ld p k; put_elem p m hole x }) = Some (p', m') \<and>
    p' = p[hole := p ! k] \<and> holed p' m' n k e \<and> same_events m m' \<and>
    (\<forall>q m''. filled p' m' n k e q m'' \<longrightarrow> filled p m n hole e q m'')"
proof -
  let ?x = "p ! k"
  obtain ev where ev: "ev_at m ?x = Some ev" "ev_min_heap_idx ev = int k"
    using assms by (auto simp: holed_def link_def)
  have l: "hole < length p" "hole < 2147483648" "k < length p"
    using assms by (auto simp: holed_def)
  define p' where "p' = p[hole := ?x]"
  define m' where "m' = m(?x \<mapsto> ev\<lparr>ev_min_heap_idx := int hole\<rparr>)"
  have put: "(do { x \<leftarrow> ld p k; put_elem p m hole x }) = Some (p', m')"
    using put_elem_eq [OF l(1,2) ev(1)] l(3) by (simp add: ld_in p'_def m'_def)
  have x: "?x \<noteq> 0" using ev(1) by (auto dest: ev_at_SomeD)
  have other: "p ! j \<noteq> ?x" if "j < n" "j \<noteq> hole" "j \<noteq> k" for j
    using assms that link_fun [of m ?x j k] by (auto simp: holed_def)
  have xe: "?x \<noteq> e" using assms by (auto simp: holed_def)
  have same: "same_events m m'"
    using ev(1) by (auto simp: m'_def dest: ev_at_SomeD intro: same_events_idx)
  have "link m' (p' ! j) j \<and> p' ! j \<noteq> e" if "j < n" "j \<noteq> k" for j
  proof (cases "j = hole")
    case True
    then show ?thesis using l x xe by (simp add: p'_def m'_def link_def)
  next
    case False
    with assms(1) that other [of j] show ?thesis
      by (auto simp: holed_def p'_def m'_def link_def ev_at_def)
  qed
  moreover have "ev_at m' e \<noteq> None" using assms(1) xe by (simp add: holed_def m'_def)
  ultimately have h: "holed p' m' n k e"
    using assms by (simp add: holed_def p'_def)
  have ms: "mset (take n (p'[k := e])) = mset (take n (p[hole := e]))"
  proof -
    let ?q = "take n (p[hole := e])"
    have "take n (p'[k := e]) = ?q[hole := ?q ! k, k := ?q ! hole]"
      using assms l by (simp add: p'_def take_update_swap holed_def)
    also have "mset \<dots> = mset ?q"
      using assms by (intro mset_swap) (auto simp: holed_def)
    finally show ?thesis .
  qed
  have xin: "?x \<in> set (take n (p'[k := e]))"
    using assms l by (auto simp: p'_def in_set_conv_nth holed_def intro!: exI [of _ hole])
  have "filled p m n hole e q m''" if f: "filled p' m' n k e q m''" for q m''
  proof -
    have s: "set (take n (p'[k := e])) = set (take n (p[hole := e]))"
      by (rule mset_eq_setD [OF ms])
    have "m'' y = m y" if "y \<notin> set (take n (p[hole := e]))" for y
    proof -
      have "m'' y = m' y" using f that s by (simp add: filled_def)
      moreover have "y \<noteq> ?x" using xin that s by auto
      ultimately show ?thesis by (simp add: m'_def)
    qed
    with f ms same show ?thesis
      by (auto simp: filled_def p'_def intro: same_events_trans)
  qed
  with put h same show ?thesis by (auto simp: p'_def)
qed

section \<open>The sift loops\<close>

lemma greater_defined:
  "ev_at m a \<noteq> None \<Longrightarrow> ev_at m b \<noteq> None \<Longrightarrow> min_heap_elem_greater m a b \<noteq> None"
  by (auto simp: min_heap_elem_greater_def)

lemma holed_at:
  "holed p m n hole e \<Longrightarrow> j < n \<Longrightarrow> j \<noteq> hole \<Longrightarrow> ev_at m (p ! j) \<noteq> None \<and> j < length p"
  by (auto simp: holed_def link_def)

lemma holed_e: "holed p m n hole e \<Longrightarrow> ev_at m e \<noteq> None \<and> hole < n"
  by (simp add: holed_def)

lemma up_test_defined:
  assumes "holed p m n hole e"
  shows "\<exists>b. up_test p m hole e = Some b"
proof (cases "hole = 0")
  case False
  from parent_less [OF this] holed_e [OF assms] have k: "parent hole < n" "parent hole \<noteq> hole"
    by auto
  with holed_at [OF assms k] holed_e [OF assms] False show ?thesis
    using greater_defined [of m "p ! parent hole" e] by (auto simp: up_test_def ld_in)
qed (auto simp: up_test_def intro: exI [of _ False])

lemma move_parent:
  assumes "holed p m n hole e" "hole \<noteq> 0"
  shows "\<exists>p' m'. (do { x \<leftarrow> ld p (parent hole); put_elem p m hole x }) = Some (p', m') \<and>
    p' = p[hole := p ! parent hole] \<and> holed p' m' n (parent hole) e \<and> same_events m m' \<and>
    (\<forall>q m''. filled p' m' n (parent hole) e q m'' \<longrightarrow> filled p m n hole e q m'')"
  using parent_less [OF assms(2)] holed_e [OF assms(1)] by (intro move_hole [OF assms(1)]) auto

lemma shift_up_filled:
  "holed p m n hole e \<Longrightarrow>
    \<exists>p' m'. min_heap_shift_up p m hole e = Some (p', m') \<and> filled p m n hole e p' m'"
proof (induction p m hole e rule: min_heap_shift_up.induct)
  case (1 p m hole e)
  obtain b where b: "up_test p m hole e = Some b" using up_test_defined [OF "1.prems"] by blast
  show ?case
  proof (cases b)
    case False
    with b put_hole [OF "1.prems"] show ?thesis by (subst min_heap_shift_up.simps) auto
  next
    case True
    with b have "hole \<noteq> 0" by (auto dest: up_test_True)
    from move_parent [OF "1.prems" this] obtain p1 m1
      where s: "(do { x \<leftarrow> ld p (parent hole); put_elem p m hole x }) = Some (p1, m1)"
        and h: "holed p1 m1 n (parent hole) e"
        and f: "\<And>q m''. filled p1 m1 n (parent hole) e q m'' \<Longrightarrow> filled p m n hole e q m''"
      by blast
    obtain p' m' where "min_heap_shift_up p1 m1 (parent hole) e = Some (p', m')"
      "filled p1 m1 n (parent hole) e p' m'"
      using "1.IH" [OF b _ s refl h] True by auto
    with b s f True show ?thesis by (subst min_heap_shift_up.simps) auto
  qed
qed

lemma shift_up_unconditional_eq:
  assumes "(do { x \<leftarrow> ld p (parent hole); put_elem p m hole x }) = Some (p1, m1)"
  shows "min_heap_shift_up_unconditional p m hole e = min_heap_shift_up p1 m1 (parent hole) e"
  using assms
proof (induction p m hole e arbitrary: p1 m1 rule: min_heap_shift_up_unconditional.induct)
  case (1 p m hole e)
  show ?case
  proof (cases "up_test p1 m1 (parent hole) e")
    case None
    with "1.prems" show ?thesis
      by (simp add: min_heap_shift_up.simps [of p1] min_heap_shift_up_unconditional.simps [of p])
  next
    case (Some b)
    show ?thesis
    proof (cases "b \<and> (do { x \<leftarrow> ld p1 (parent (parent hole)); put_elem p1 m1 (parent hole) x }) \<noteq> None")
      case True
      then obtain p2 m2 where
        s: "(do { x \<leftarrow> ld p1 (parent (parent hole)); put_elem p1 m1 (parent hole) x }) = Some (p2, m2)"
        by fastforce
      with True Some "1.IH" [OF "1.prems" refl Some _ s] "1.prems" show ?thesis
        by (simp add: min_heap_shift_up.simps [of p1] min_heap_shift_up_unconditional.simps [of p])
    next
      case False
      then have n: "b \<Longrightarrow>
          (do { x \<leftarrow> ld p1 (parent (parent hole)); put_elem p1 m1 (parent hole) x }) = None"
        by blast
      with Some "1.prems" show ?thesis
        by (cases b) (simp_all add: min_heap_shift_up.simps [of p1]
            min_heap_shift_up_unconditional.simps [of p]
            min_heap_shift_up_unconditional.simps [of p1])
    qed
  qed
qed

lemma shift_up_unconditional_filled:
  assumes "holed p m n hole e" "hole \<noteq> 0"
  shows "\<exists>p' m'. min_heap_shift_up_unconditional p m hole e = Some (p', m') \<and>
    filled p m n hole e p' m'"
proof -
  from move_parent [OF assms] obtain p1 m1
    where s: "(do { x \<leftarrow> ld p (parent hole); put_elem p m hole x }) = Some (p1, m1)"
      and h: "holed p1 m1 n (parent hole) e"
      and f: "\<And>q m''. filled p1 m1 n (parent hole) e q m'' \<Longrightarrow> filled p m n hole e q m''"
    by blast
  from shift_up_filled [OF h] f show ?thesis
    by (auto simp: shift_up_unconditional_eq [OF s])
qed

lemma down_child_defined:
  assumes "holed p m n hole e" "2 * (hole + 1) \<le> n"
  shows "\<exists>c. down_child p m n (2 * (hole + 1)) = Some c \<and> hole < c \<and> c < n"
proof (cases "2 * (hole + 1) = n")
  case True
  then show ?thesis by (auto simp: down_child_def)
next
  case False
  with assms holed_at [OF assms(1), of "2 * (hole + 1)"]
    holed_at [OF assms(1), of "2 * (hole + 1) - 1"]
    greater_defined [of m "p ! (2 * (hole + 1))" "p ! (2 * (hole + 1) - 1)"]
  show ?thesis by (auto simp: down_child_def ld_in)
qed

lemma shift_down_filled:
  "holed p m n hole e \<Longrightarrow>
    \<exists>p' m'. min_heap_shift_down p m n hole e = Some (p', m') \<and> filled p m n hole e p' m'"
proof (induction p m n hole e rule: min_heap_shift_down.induct)
  case (1 p m n hole e)
  show ?case
  proof (cases "2 * (hole + 1) \<le> n")
    case False
    with put_hole [OF "1.prems"] show ?thesis by (subst min_heap_shift_down.simps) auto
  next
    case le: True
    obtain c where c: "down_child p m n (2 * (hole + 1)) = Some c" "hole < c" "c < n"
      using down_child_defined [OF "1.prems" le] by blast
    obtain b where b: "(do { x \<leftarrow> ld p c; min_heap_elem_greater m e x }) = Some b"
      using holed_at [OF "1.prems", of c] holed_e [OF "1.prems"] c
        greater_defined [of m e "p ! c"] by (auto simp: ld_in)
    show ?thesis
    proof (cases b)
      case False
      with b c le put_hole [OF "1.prems"] show ?thesis
        by (subst min_heap_shift_down.simps) auto
    next
      case True
      have "c \<noteq> hole" using c(2) by simp
      from move_hole [OF "1.prems" c(3) this] obtain p1 m1
        where s: "(do { x \<leftarrow> ld p c; put_elem p m hole x }) = Some (p1, m1)"
          and h: "holed p1 m1 n c e"
          and f: "\<And>q m''. filled p1 m1 n c e q m'' \<Longrightarrow> filled p m n hole e q m''"
        by blast
      obtain p' m' where "min_heap_shift_down p1 m1 n c e = Some (p', m')"
        "filled p1 m1 n c e p' m'"
        using "1.IH" [OF le c(1) b _ s refl h] True by auto
      with b c s f le True show ?thesis by (subst min_heap_shift_down.simps) auto
    qed
  qed
qed

section \<open>The operations keep the invariant\<close>

text \<open>
  The documented behaviour of \<open>realloc\<close> the code relies on: the new array has the size asked for
  and starts with the old contents.
\<close>

definition realloc_ok :: "realloc \<Rightarrow> bool" where
  "realloc_ok r \<longleftrightarrow> (\<forall>p k q. r p k = Some q \<longrightarrow> length p \<le> k \<longrightarrow> length q = k \<and> take (length p) q = p)"

lemma reserve_ok:
  assumes "realloc_ok r" "hp_n s \<le> hp_a s" "length (hp_p s) = hp_a s" "hp_n s < 2147483648"
    and "min_heap_reserve r s (Suc (hp_n s)) = (rc, s1)"
  shows "rc = 0 \<and> hp_n s1 = hp_n s \<and> hp_n s < hp_a s1 \<and> length (hp_p s1) = hp_a s1 \<and>
      take (hp_n s) (hp_p s1) = take (hp_n s) (hp_p s) \<or> rc = - 1 \<and> s1 = s"
proof (cases "hp_a s < Suc (hp_n s)")
  case False
  with assms show ?thesis by (auto simp: min_heap_reserve_def)
next
  case True
  define a' where "a' = (let a = (if hp_a s \<noteq> 0 then (hp_a s * 2) mod 4294967296 else 8)
    in if a < Suc (hp_n s) then Suc (hp_n s) else a)"
  have a': "Suc (hp_n s) \<le> a'" by (simp add: a'_def Let_def)
  show ?thesis
  proof (cases "r (hp_p s) a'")
    case None
    with True assms(5) show ?thesis
      by (simp add: min_heap_reserve_def a'_def Let_def split: if_splits)
  next
    case (Some q)
    have "length (hp_p s) \<le> a'" using assms(3) True a' by simp
    with assms(1) Some have "length q = a' \<and> take (length (hp_p s)) q = hp_p s"
      unfolding realloc_ok_def by blast
    moreover have "hp_a s = hp_n s" using True assms(2) by simp
    ultimately show ?thesis
      using True Some assms a'
      by (auto simp: min_heap_reserve_def a'_def Let_def split: if_splits)
  qed
qed

lemma same_events_at: "same_events m m' \<Longrightarrow> ev_at m a \<noteq> None \<longleftrightarrow> ev_at m' a \<noteq> None"
proof -
  assume "same_events m m'"
  then have "map_option (ev_min_heap_idx_update (\<lambda>_. 0)) (m a) =
      map_option (ev_min_heap_idx_update (\<lambda>_. 0)) (m' a)"
    by (simp add: same_events_def)
  then have "m a = None \<longleftrightarrow> m' a = None"
    by (cases "m a"; cases "m' a") auto
  then show ?thesis by (cases "m a"; cases "m' a") (auto simp: ev_at_def)
qed

lemma push_ok:
  assumes "realloc_ok r" "heap_inv s m" "ev_at m e \<noteq> None" "e \<notin> set (heap_elems s)"
    and "Suc (hp_n s) < 2147483648"
  shows "\<exists>rc s' m'. min_heap_push r s m e = Some (rc, s', m') \<and>
    (rc = 0 \<and> heap_inv s' m' \<and> same_events m m' \<and> hp_n s' = Suc (hp_n s) \<and>
       mset (heap_elems s') = add_mset e (mset (heap_elems s)) \<and>
       (\<forall>x. x \<noteq> e \<and> x \<notin> set (heap_elems s) \<longrightarrow> m' x = m x)
     \<or> rc = - 1 \<and> s' = s \<and> m' = m)"
proof -
  obtain rc s1 where r: "min_heap_reserve r s (Suc (hp_n s)) = (rc, s1)" by fastforce
  have w: "(hp_n s + 1) mod 4294967296 = Suc (hp_n s)" using assms(5) by simp
  from reserve_ok [OF assms(1) _ _ _ r] assms(2) consider
    "rc = 0" "hp_n s1 = hp_n s" "hp_n s < hp_a s1" "length (hp_p s1) = hp_a s1"
      "take (hp_n s) (hp_p s1) = take (hp_n s) (hp_p s)"
    | "rc = - 1" "s1 = s"
    by (auto simp: heap_inv_def)
  then show ?thesis
  proof cases
    case 1
    let ?p = "hp_p s1" and ?n = "hp_n s"
    have pre: "?p ! j = hp_p s ! j" if "j < ?n" for j
      using 1(5) that by (metis nth_take)
    have "holed ?p m (Suc ?n) ?n e"
      using assms 1 pre by (auto simp: holed_def heap_inv_def heap_elems_def less_Suc_eq in_set_conv_nth)
    from shift_up_filled [OF this] obtain p' m'
      where f: "min_heap_shift_up ?p m ?n e = Some (p', m')" "filled ?p m (Suc ?n) ?n e p' m'"
      by blast
    have t: "take (Suc ?n) (?p[?n := e]) = heap_elems s @ [e]"
      using 1 by (simp add: take_Suc_conv_app_nth heap_elems_def)
    show ?thesis
      using 1 r w f assms(5) t
      by (auto simp: min_heap_push_def filled_def heap_inv_def heap_elems_def)
  next
    case 2
    with r w show ?thesis by (simp add: min_heap_push_def)
  qed
qed

text \<open>After a removal: the removed event's position is reset, the others keep their links.\<close>

lemma unlink_ok:
  assumes "\<forall>j < n. link m1 (p ! j) j" "e \<notin> set (take n p)" "n \<le> length p" "ev_at m1 e \<noteq> None"
  shows "\<exists>m2 ev. ev_set m1 e (ev_min_heap_idx_update (\<lambda>_. - 1)) = Some m2 \<and>
    (\<forall>j < n. link m2 (p ! j) j) \<and> same_events m1 m2 \<and>
    ev_at m2 e = Some ev \<and> ev_min_heap_idx ev = - 1"
proof -
  obtain ev where ev: "ev_at m1 e = Some ev" using assms(4) by blast
  have "p ! j \<noteq> e" if "j < n" for j
    using assms(2,3) that by (auto simp: in_set_conv_nth)
  with assms(1) ev show ?thesis
    by (auto simp: ev_set_def link_def intro!: same_events_idx dest: ev_at_SomeD)
qed

lemma heap_link: "heap_inv s m \<Longrightarrow> i < hp_n s \<Longrightarrow> link m (hp_p s ! i) i"
  by (simp add: heap_inv_def)

lemma link_live: "link m x i \<Longrightarrow> ev_at m x \<noteq> None"
  by (auto simp: link_def)

lemma heap_inv_distinct:
  assumes "heap_inv s m" "i < hp_n s" "j < hp_n s" "hp_p s ! i = hp_p s ! j"
  shows "i = j"
  using assms link_fun [of m "hp_p s ! j" i j] by (auto simp: heap_inv_def)

lemma mset_take_replace:
  assumes "i < n" "n < length p"
  shows "add_mset (p ! i) (mset (take n (p[i := p ! n]))) = mset (take (Suc n) p)"
proof -
  have "mset (take n (p[i := p ! n])) = add_mset (p ! n) (mset (take n p) - {#p ! i#})"
    using assms by (simp add: take_update_swap mset_update)
  moreover have "p ! i \<in># mset (take n p)"
    using assms by (auto simp: in_set_conv_nth)
  ultimately show ?thesis
    using assms by (simp add: take_Suc_conv_app_nth)
qed

lemma drop_last_holed:
  assumes "heap_inv s m" "i < hp_n s - 1"
  shows "holed (hp_p s) m (hp_n s - 1) i (hp_p s ! (hp_n s - 1)) \<and>
    hp_p s ! i \<notin> set (take (hp_n s - 1) ((hp_p s)[i := hp_p s ! (hp_n s - 1)]))"
proof -
  have d: "hp_p s ! j \<noteq> hp_p s ! k" if "j < hp_n s" "k < hp_n s" "j \<noteq> k" for j k
    using heap_inv_distinct [OF assms(1)] that by blast
  have i: "i < hp_n s" "hp_n s - 1 < hp_n s" "i \<noteq> hp_n s - 1" using assms(2) by auto
  have "hp_p s ! i \<noteq> (hp_p s)[i := hp_p s ! (hp_n s - 1)] ! j" if "j < hp_n s - 1" for j
    using assms that i d [of i j] d [OF i]
    by (cases "j = i") (auto simp: heap_inv_def)
  then have "hp_p s ! i \<notin> set (take (hp_n s - 1) ((hp_p s)[i := hp_p s ! (hp_n s - 1)]))"
    by (auto simp: in_set_conv_nth) metis
  moreover have "ev_at m (hp_p s ! (hp_n s - 1)) \<noteq> None"
    using assms(1) i(2) by (auto simp: heap_inv_def link_def)
  then have "holed (hp_p s) m (hp_n s - 1) i (hp_p s ! (hp_n s - 1))"
    using assms d [of _ "hp_n s - 1"]
    by (auto simp: holed_def heap_inv_def)
  ultimately show ?thesis by blast
qed

text \<open>
  The two removals share this step: the last element fills the hole that the element at \<open>i\<close>
  leaves, and the removed element's position is reset.
\<close>

lemma removed_ok:
  assumes inv: "heap_inv s m" and i: "i < hp_n s - 1"
    and f: "filled (hp_p s) m (hp_n s - 1) i (hp_p s ! (hp_n s - 1)) p m1"
  shows "\<exists>m2 ev. ev_set m1 (hp_p s ! i) (ev_min_heap_idx_update (\<lambda>_. - 1)) = Some m2 \<and>
    heap_inv (s\<lparr>hp_p := p, hp_n := hp_n s - 1\<rparr>) m2 \<and> same_events m m2 \<and>
    add_mset (hp_p s ! i) (mset (take (hp_n s - 1) p)) = mset (heap_elems s) \<and>
    ev_at m2 (hp_p s ! i) = Some ev \<and> ev_min_heap_idx ev = - 1"
proof -
  let ?n = "hp_n s - 1" and ?e = "hp_p s ! i"
  have n: "Suc ?n = hp_n s" "?n < length (hp_p s)" using i inv by (auto simp: heap_inv_def)
  have ms: "mset (take ?n p) = mset (take ?n ((hp_p s)[i := hp_p s ! ?n]))"
    and l: "\<forall>j < ?n. link m1 (p ! j) j" "length p = length (hp_p s)" and se: "same_events m m1"
    using f by (auto simp: filled_def)
  have e: "?e \<notin> set (take ?n p)"
    using drop_last_holed [OF inv i] mset_eq_setD [OF ms] by simp
  have "ev_at m ?e \<noteq> None" using heap_link [OF inv] i by (intro link_live [of _ _ i]) simp
  then have "ev_at m1 ?e \<noteq> None" using same_events_at [OF se] by blast
  then obtain m2 ev where "ev_set m1 ?e (ev_min_heap_idx_update (\<lambda>_. - 1)) = Some m2"
    "\<forall>j < ?n. link m2 (p ! j) j" "same_events m1 m2" "ev_at m2 ?e = Some ev"
    "ev_min_heap_idx ev = - 1"
    using unlink_ok [OF l(1) e] l(2) n(2) by fastforce
  moreover have "add_mset ?e (mset (take ?n p)) = mset (heap_elems s)"
    using mset_take_replace [OF i n(2)] ms n(1) by (simp add: heap_elems_def)
  ultimately show ?thesis
    using inv l(2) se by (auto simp: heap_inv_def intro: same_events_trans)
qed

text \<open>Removing the last cell needs no sift that matters: the element is put back into its own cell.\<close>

lemma removed_last:
  assumes inv: "heap_inv s m" and n: "hp_n s \<noteq> 0"
  shows "\<exists>m1 m2 ev. put_elem (hp_p s) m (hp_n s - 1) (hp_p s ! (hp_n s - 1)) = Some (hp_p s, m1) \<and>
    ev_set m1 (hp_p s ! (hp_n s - 1)) (ev_min_heap_idx_update (\<lambda>_. - 1)) = Some m2 \<and>
    heap_inv (s\<lparr>hp_n := hp_n s - 1\<rparr>) m2 \<and> same_events m m2 \<and>
    add_mset (hp_p s ! (hp_n s - 1)) (mset (take (hp_n s - 1) (hp_p s))) = mset (heap_elems s) \<and>
    ev_at m2 (hp_p s ! (hp_n s - 1)) = Some ev \<and> ev_min_heap_idx ev = - 1"
proof -
  let ?n = "hp_n s - 1" and ?e = "hp_p s ! (hp_n s - 1)"
  have l: "?n < length (hp_p s)" "?n < 2147483648" "Suc ?n = hp_n s"
    using inv n by (auto simp: heap_inv_def)
  have link: "\<forall>j < hp_n s. link m (hp_p s ! j) j" using inv by (simp add: heap_inv_def)
  obtain ev where ev: "ev_at m ?e = Some ev" "ev_min_heap_idx ev = int ?n"
    using heap_link [OF inv, of ?n] n by (auto simp: link_def)
  define m1 where "m1 = m(?e \<mapsto> ev\<lparr>ev_min_heap_idx := int ?n\<rparr>)"
  have "ev\<lparr>ev_min_heap_idx := int ?n\<rparr> = ev" using ev(2) by (cases ev) simp
  with ev(1) have m1: "m1 = m" by (auto simp: m1_def fun_upd_idem dest: ev_at_SomeD)
  have put: "put_elem (hp_p s) m ?n ?e = Some (hp_p s, m1)"
    using put_elem_eq [OF l(1,2) ev(1)] by (simp add: m1_def)
  have "hp_p s ! j \<noteq> ?e" if "j < ?n" for j
  proof
    assume "hp_p s ! j = ?e"
    then have "j = ?n" using that n by (intro heap_inv_distinct [OF inv]) auto
    with that show False by simp
  qed
  then have e: "?e \<notin> set (take ?n (hp_p s))" by (auto simp: in_set_conv_nth)
  have "\<forall>j < ?n. link m (hp_p s ! j) j" using link by auto
  from unlink_ok [OF this e] l(1) ev(1) obtain m2 ev2 where
    "ev_set m ?e (ev_min_heap_idx_update (\<lambda>_. - 1)) = Some m2" "\<forall>j < ?n. link m2 (hp_p s ! j) j"
    "same_events m m2" "ev_at m2 ?e = Some ev2" "ev_min_heap_idx ev2 = - 1"
    by fastforce
  moreover have "add_mset ?e (mset (take ?n (hp_p s))) = mset (heap_elems s)"
    using take_Suc_conv_app_nth [OF l(1)] by (simp add: heap_elems_def l(3) del: One_nat_def)
  ultimately show ?thesis
    using put m1 inv by (auto simp: heap_inv_def)
qed

lemma pop_ok:
  assumes "heap_inv s m" "hp_n s \<noteq> 0"
  shows "\<exists>s' m' ev. min_heap_pop s m = Some (heap_elems s ! 0, s', m') \<and> heap_inv s' m' \<and>
    same_events m m' \<and> add_mset (heap_elems s ! 0) (mset (heap_elems s')) = mset (heap_elems s) \<and>
    ev_at m' (heap_elems s ! 0) = Some ev \<and> ev_min_heap_idx ev = - 1"
proof -
  let ?n = "hp_n s - 1"
  have ld: "ld (hp_p s) 0 = Some (hp_p s ! 0)" "ld (hp_p s) ?n = Some (hp_p s ! ?n)"
    using assms by (auto simp: heap_inv_def intro!: ld_in)
  have h0: "heap_elems s ! 0 = hp_p s ! 0" using assms(2) by (simp add: heap_elems_def)
  show ?thesis
  proof (cases "?n = 0")
    case True
    then have "min_heap_shift_down (hp_p s) m 0 0 (hp_p s ! 0) = put_elem (hp_p s) m 0 (hp_p s ! 0)"
      by (subst min_heap_shift_down.simps) simp
    with removed_last [OF assms] assms(2) ld h0 True show ?thesis
      by (auto simp: min_heap_pop_def heap_elems_def Let_def)
  next
    case False
    then have i: "0 < ?n" by simp
    from shift_down_filled [OF drop_last_holed [OF assms(1) i, THEN conjunct1]] obtain p m1 where
      d: "min_heap_shift_down (hp_p s) m ?n 0 (hp_p s ! ?n) = Some (p, m1)"
      and f: "filled (hp_p s) m ?n 0 (hp_p s ! ?n) p m1" by blast
    from removed_ok [OF assms(1) i f] d ld h0 assms(2) show ?thesis
      by (auto simp: min_heap_pop_def heap_elems_def Let_def)
  qed
qed

lemma erase_index:
  assumes "i < 2147483648"
  shows "nat (int i mod 4294967296) = i" and
    "0 < i \<Longrightarrow> nat ((if int i - 1 < 0 then - ((1 - int i) div 2) else (int i - 1) div 2)
       mod 4294967296) = parent i"
proof -
  show "nat (int i mod 4294967296) = i" using assms by simp
  assume "0 < i"
  then obtain k where k: "i = Suc k" using gr0_conv_Suc by blast
  have d: "int k div 2 = int (k div 2)" by (simp add: zdiv_int)
  have "int (k div 2) mod 4294967296 = int (k div 2)"
    using assms k by (intro mod_pos_pos_trivial) auto
  then show "nat ((if int i - 1 < 0 then - ((1 - int i) div 2) else (int i - 1) div 2)
      mod 4294967296) = parent i"
    using k d assms by (simp add: parent_Suc)
qed

text \<open>What \<open>min_heap_erase\<close> does on an element of the heap, with its index arithmetic evaluated.\<close>

lemma erase_eq:
  assumes "heap_inv s m" "i < hp_n s"
  shows "min_heap_erase s m (hp_p s ! i) = do {
     up \<leftarrow> up_test (hp_p s) m i (hp_p s ! (hp_n s - 1));
     (p, m1) \<leftarrow>
       (if up then min_heap_shift_up_unconditional (hp_p s) m i (hp_p s ! (hp_n s - 1))
        else min_heap_shift_down (hp_p s) m (hp_n s - 1) i (hp_p s ! (hp_n s - 1)));
     m2 \<leftarrow> ev_set m1 (hp_p s ! i) (ev_min_heap_idx_update (\<lambda>_. - 1));
     Some (0, s\<lparr>hp_p := p, hp_n := hp_n s - 1\<rparr>, m2)
   }"
proof -
  obtain ev where ev: "ev_at m (hp_p s ! i) = Some ev" "ev_min_heap_idx ev = int i"
    using heap_link [OF assms] by (auto simp: link_def)
  have n: "(hp_n s + 4294967295) mod 4294967296 = hp_n s - 1"
  proof -
    have "hp_n s + 4294967295 = (hp_n s - 1) + 4294967296" using assms(2) by simp
    also have "\<dots> mod 4294967296 = hp_n s - 1"
      using assms by (simp only: mod_add_self2 heap_inv_def) (intro mod_less, linarith)
    finally show ?thesis .
  qed
  have l: "ld (hp_p s) (hp_n s - 1) = Some (hp_p s ! (hp_n s - 1))" "i < 2147483648"
    using assms by (auto simp: heap_inv_def intro!: ld_in)
  show ?thesis
  proof (cases "i = 0")
    case True
    with ev show ?thesis
      by (simp add: min_heap_erase_def n l(1) up_test_def Let_def del: One_nat_def
          cong del: if_weak_cong)
  next
    case False
    with ev erase_index [OF l(2)] show ?thesis
      by (simp add: min_heap_erase_def n l(1) up_test_def Let_def del: One_nat_def
          cong del: if_weak_cong)
  qed
qed

lemma erase_ok:
  assumes inv: "heap_inv s m" and i: "i < hp_n s"
    and c: "i < hp_n s - 1 \<or> up_test (hp_p s) m i (hp_p s ! i) = Some False"
  shows "\<exists>s' m' ev. min_heap_erase s m (hp_p s ! i) = Some (0, s', m') \<and> heap_inv s' m' \<and>
    same_events m m' \<and> add_mset (hp_p s ! i) (mset (heap_elems s')) = mset (heap_elems s) \<and>
    ev_at m' (hp_p s ! i) = Some ev \<and> ev_min_heap_idx ev = - 1"
proof (cases "i < hp_n s - 1")
  case True
  note h = drop_last_holed [OF inv True, THEN conjunct1]
  obtain up where up: "up_test (hp_p s) m i (hp_p s ! (hp_n s - 1)) = Some up"
    using up_test_defined [OF h] by blast
  obtain p m1 where f: "filled (hp_p s) m (hp_n s - 1) i (hp_p s ! (hp_n s - 1)) p m1"
    "(if up then min_heap_shift_up_unconditional (hp_p s) m i (hp_p s ! (hp_n s - 1))
      else min_heap_shift_down (hp_p s) m (hp_n s - 1) i (hp_p s ! (hp_n s - 1))) = Some (p, m1)"
  proof (cases up)
    case True
    with up have "i \<noteq> 0" by (auto dest: up_test_True)
    with True shift_up_unconditional_filled [OF h] that show ?thesis by auto
  qed (use shift_down_filled [OF h] that in auto)
  from removed_ok [OF inv True f(1)] show ?thesis
    by (auto simp: erase_eq [OF inv i] up f(2) heap_elems_def simp del: One_nat_def)
next
  case False
  with i have e: "i = hp_n s - 1" "hp_n s \<noteq> 0" by auto
  with c have t: "up_test (hp_p s) m i (hp_p s ! (hp_n s - 1)) = Some False" by simp
  have "\<not> 2 * (i + 1) \<le> hp_n s - 1" using e by simp
  then have "min_heap_shift_down (hp_p s) m (hp_n s - 1) i (hp_p s ! (hp_n s - 1)) =
      put_elem (hp_p s) m i (hp_p s ! (hp_n s - 1))"
    by (subst min_heap_shift_down.simps) (simp only: if_False)
  then have "min_heap_erase s m (hp_p s ! i) = do {
      (p, m1) \<leftarrow> put_elem (hp_p s) m i (hp_p s ! (hp_n s - 1));
      m2 \<leftarrow> ev_set m1 (hp_p s ! i) (ev_min_heap_idx_update (\<lambda>_. - 1));
      Some (0, s\<lparr>hp_p := p, hp_n := hp_n s - 1\<rparr>, m2) }"
    by (simp add: erase_eq [OF inv i] t del: One_nat_def)
  with removed_last [OF inv e(2)] show ?thesis
    unfolding e(1) by (auto simp: heap_elems_def simp del: One_nat_def)
qed

section \<open>What the comparison does to the order\<close>

lemma greater_same:
  assumes "same_events m m'" "min_heap_elem_greater m a b = Some g"
  shows "min_heap_elem_greater m' a b = Some g"
proof -
  obtain ea eb where e: "ev_at m a = Some ea" "ev_at m b = Some eb"
    "g = (lt_time_a_sub_b (ev_endtime ea) (ev_endtime eb) \<noteq> 0)"
    using assms(2) by (auto simp: min_heap_elem_greater_def split: Option.bind_splits)
  moreover obtain ea' eb' where "ev_at m' a = Some ea'" "ev_endtime ea' = ev_endtime ea"
    "ev_at m' b = Some eb'" "ev_endtime eb' = ev_endtime eb"
    using e(1,2) same_events_endtime [OF assms(1)] unfolding ev_at_def
    by (metis option.distinct(1))
  ultimately show ?thesis by (simp add: min_heap_elem_greater_def)
qed

text \<open>
  Every ancestor with another deadline gives way, earlier or later, so a sift up among elements
  with other deadlines ends at the root.
\<close>

lemma shift_up_root:
  "holed p m n hole e \<Longrightarrow>
    (\<forall>j < n. j \<noteq> hole \<longrightarrow> min_heap_elem_greater m (p ! j) e = Some True) \<Longrightarrow>
    min_heap_shift_up p m hole e = Some (p', m') \<Longrightarrow> p' ! 0 = e"
proof (induction p m hole e rule: min_heap_shift_up.induct)
  case (1 p m hole e)
  show ?case
  proof (cases "hole = 0")
    case True
    with "1.prems"(3) have "put_elem p m 0 e = Some (p', m')"
      by (subst (asm) min_heap_shift_up.simps) (simp add: up_test_def)
    moreover have "0 < length p" using "1.prems"(1) by (auto simp: holed_def)
    ultimately show ?thesis using put_hole [OF "1.prems"(1)] True by auto
  next
    case False
    have k: "parent hole < hole" "hole < n" "hole < length p"
      using parent_less [OF False] "1.prems"(1) by (auto simp: holed_def)
    have b: "up_test p m hole e = Some True"
      using False k "1.prems"(2) by (simp add: up_test_def ld_in)
    from move_parent [OF "1.prems"(1) False] obtain p1 m1
      where s: "(do { x \<leftarrow> ld p (parent hole); put_elem p m hole x }) = Some (p1, m1)"
        and p1: "p1 = p[hole := p ! parent hole]" and h: "holed p1 m1 n (parent hole) e"
        and se: "same_events m m1" by blast
    have "min_heap_elem_greater m1 (p1 ! j) e = Some True" if "j < n" "j \<noteq> parent hole" for j
      using greater_same [OF se] "1.prems"(2) that k p1
      by (cases "j = hole") auto
    moreover have "min_heap_shift_up p1 m1 (parent hole) e = Some (p', m')"
      using "1.prems"(3) b s by (subst (asm) min_heap_shift_up.simps) auto
    ultimately show ?thesis using "1.IH" [OF b _ s refl h] by blast
  qed
qed

text \<open>A sift up leaves the cells beyond the hole alone.\<close>

lemma shift_up_above:
  "holed p m n hole e \<Longrightarrow> min_heap_shift_up p m hole e = Some (p', m') \<Longrightarrow> hole < j \<Longrightarrow>
    p' ! j = p ! j"
proof (induction p m hole e rule: min_heap_shift_up.induct)
  case (1 p m hole e)
  obtain b where b: "up_test p m hole e = Some b" using up_test_defined [OF "1.prems"(1)] by blast
  show ?case
  proof (cases b)
    case False
    with "1.prems"(2) b have "put_elem p m hole e = Some (p', m')"
      by (subst (asm) min_heap_shift_up.simps) auto
    with put_hole [OF "1.prems"(1)] "1.prems"(3) show ?thesis by auto
  next
    case True
    with b have h0: "hole \<noteq> 0" by (auto dest: up_test_True)
    from move_parent [OF "1.prems"(1) this] obtain p1 m1
      where s: "(do { x \<leftarrow> ld p (parent hole); put_elem p m hole x }) = Some (p1, m1)"
        and p1: "p1 = p[hole := p ! parent hole]" and h: "holed p1 m1 n (parent hole) e" by blast
    have "min_heap_shift_up p1 m1 (parent hole) e = Some (p', m')"
      using "1.prems"(2) b s True by (subst (asm) min_heap_shift_up.simps) auto
    moreover have "parent hole < j" using parent_less [OF h0] "1.prems"(3) by simp
    ultimately have "p' ! j = p1 ! j" using "1.IH" [OF b _ s refl h] True by blast
    with p1 "1.prems"(3) show ?thesis by simp
  qed
qed

lemma erase_last_swaps:
  assumes inv: "heap_inv s m" and n: "1 < hp_n s"
    and g: "min_heap_elem_greater m (hp_p s ! parent (hp_n s - 1)) (hp_p s ! (hp_n s - 1)) = Some True"
  shows "\<exists>s' m'. min_heap_erase s m (hp_p s ! (hp_n s - 1)) = Some (0, s', m') \<and>
    add_mset (hp_p s ! parent (hp_n s - 1)) (mset (heap_elems s')) = mset (heap_elems s) \<and>
    hp_p s ! (hp_n s - 1) \<in> set (heap_elems s') \<and>
    (\<exists>ev. ev_at m' (hp_p s ! (hp_n s - 1)) = Some ev \<and> ev_min_heap_idx ev = - 1)"
proof -
  let ?i = "hp_n s - 1" and ?k = "parent (hp_n s - 1)" and ?n = "hp_n s"
  let ?e = "hp_p s ! ?i" and ?x = "hp_p s ! ?k"
  have i: "?i < ?n" "?i \<noteq> 0" "Suc ?i = ?n" "?n \<le> length (hp_p s)" "?n < 2147483648"
    using n inv by (auto simp: heap_inv_def)
  have k: "?k < ?i" by (rule parent_less [OF i(2)])
  have up: "up_test (hp_p s) m ?i ?e = Some True"
    using i k g by (simp add: up_test_def ld_in del: One_nat_def)
  have "hp_p s ! j \<noteq> ?e" if "j < ?n" "j \<noteq> ?i" for j
    using heap_inv_distinct [OF inv that(1) i(1)] that(2) by blast
  then have h: "holed (hp_p s) m ?n ?i ?e"
    using i heap_link [OF inv] link_live [OF heap_link [OF inv i(1)]] by (simp add: holed_def)
  from move_parent [OF h i(2)] obtain p1 m1
    where st: "(do { x \<leftarrow> ld (hp_p s) ?k; put_elem (hp_p s) m ?i x }) = Some (p1, m1)"
      and p1: "p1 = (hp_p s)[?i := ?x]" and h1: "holed p1 m1 ?n ?k ?e"
      and f1: "\<And>q m''. filled p1 m1 ?n ?k ?e q m'' \<Longrightarrow> filled (hp_p s) m ?n ?i ?e q m''"
    by blast
  from shift_up_filled [OF h1] obtain p' m' where
    u: "min_heap_shift_up p1 m1 ?k ?e = Some (p', m')" and f: "filled p1 m1 ?n ?k ?e p' m'" by blast
  from f1 [OF f] have ms: "mset (take ?n p') = mset (take ?n (hp_p s))" and l: "length p' = length (hp_p s)"
    and se: "same_events m m'"
    by (auto simp: filled_def)
  have "p' ! ?i = ?x"
    using shift_up_above [OF h1 u k] p1 i by (simp del: One_nat_def)
  moreover have "take ?n p' = take ?i p' @ [p' ! ?i]"
    using take_Suc_conv_app_nth [of ?i p'] i l by (simp only: i(3))
  ultimately have split: "add_mset ?x (mset (take ?i p')) = mset (take ?n (hp_p s))"
    using ms by simp
  have "?x \<noteq> ?e"
  proof
    assume "?x = ?e"
    then have "?k = ?i" by (rule heap_inv_distinct [OF inv less_trans [OF k i(1)] i(1)])
    with k show False by simp
  qed
  moreover have "?e \<in># mset (take ?n (hp_p s))"
    using i by (auto simp: in_set_conv_nth intro!: exI [of _ ?i])
  ultimately have e: "?e \<in> set (take ?i p')"
    unfolding split [symmetric] by simp
  have "ev_at m' ?e \<noteq> None" using same_events_at [OF se] holed_e [OF h] by blast
  then obtain ev where ev: "ev_at m' ?e = Some ev" by blast
  have "min_heap_erase s m ?e =
      Some (0, s\<lparr>hp_p := p', hp_n := ?i\<rparr>, m'(?e \<mapsto> ev\<lparr>ev_min_heap_idx := - 1\<rparr>))"
    by (simp add: erase_eq [OF inv i(1)] up shift_up_unconditional_eq [OF st] u ev_set_def ev
        del: One_nat_def)
  with split e ev_at_SomeD [OF ev] show ?thesis by (auto simp: heap_elems_def)
qed

section \<open>The interface: a queue of events\<close>

text \<open>
  What a client of the heap relies on, with no order: an insertion either adds the event or reports
  \<open>-1\<close> and changes nothing, and a removal takes out one event that was there.
\<close>

fun push_all ::
  "('q \<Rightarrow> ev_mem \<Rightarrow> u64 \<Rightarrow> (int \<times> 'q \<times> ev_mem) option) \<Rightarrow> u64 list \<Rightarrow> 'q \<Rightarrow> ev_mem \<Rightarrow>
   (u64 list \<times> 'q \<times> ev_mem) option" where
  "push_all push [] q m = Some ([], q, m)"
| "push_all push (e # es) q m =
     (case push q m e of None \<Rightarrow> None
      | Some (rc, q', m') \<Rightarrow>
          map_option (\<lambda>(as, r). (if rc = 0 then e # as else as, r)) (push_all push es q' m'))"

fun drain ::
  "('q \<Rightarrow> ev_mem \<Rightarrow> (u64 \<times> 'q \<times> ev_mem) option) \<Rightarrow> nat \<Rightarrow> 'q \<Rightarrow> ev_mem \<Rightarrow>
   (u64 list \<times> 'q \<times> ev_mem) option" where
  "drain pop 0 q m = Some ([], q, m)"
| "drain pop (Suc k) q m =
     (case pop q m of None \<Rightarrow> None
      | Some (e, q', m') \<Rightarrow> map_option (\<lambda>(es, r). (e # es, r)) (drain pop k q' m'))"

locale event_queue =
  fixes push :: "'q \<Rightarrow> ev_mem \<Rightarrow> u64 \<Rightarrow> (int \<times> 'q \<times> ev_mem) option"
    and pop :: "'q \<Rightarrow> ev_mem \<Rightarrow> (u64 \<times> 'q \<times> ev_mem) option"
    and elems :: "'q \<Rightarrow> u64 list"
    and inv :: "'q \<Rightarrow> ev_mem \<Rightarrow> bool"
    and cap :: nat
  assumes push_law: "inv q m \<Longrightarrow> ev_at m e \<noteq> None \<Longrightarrow> e \<notin> set (elems q) \<Longrightarrow>
      Suc (length (elems q)) < cap \<Longrightarrow>
      \<exists>rc q' m'. push q m e = Some (rc, q', m') \<and> inv q' m' \<and> same_events m m' \<and>
        (rc = 0 \<and> mset (elems q') = add_mset e (mset (elems q)) \<or>
         rc = - 1 \<and> mset (elems q') = mset (elems q))"
    and pop_law: "inv q m \<Longrightarrow> elems q \<noteq> [] \<Longrightarrow>
      \<exists>e q' m'. pop q m = Some (e, q', m') \<and> inv q' m' \<and> same_events m m' \<and>
        add_mset e (mset (elems q')) = mset (elems q)"
begin

lemma push_all_ok:
  "inv q m \<Longrightarrow> distinct es \<Longrightarrow> set es \<inter> set (elems q) = {} \<Longrightarrow>
    (\<forall>e \<in> set es. ev_at m e \<noteq> None) \<Longrightarrow> length (elems q) + length es < cap \<Longrightarrow>
    \<exists>as q' m'. push_all push es q m = Some (as, q', m') \<and> inv q' m' \<and> same_events m m' \<and>
      mset (elems q') = mset as + mset (elems q) \<and> set as \<subseteq> set es"
proof (induction es arbitrary: q m)
  case Nil
  then show ?case by auto
next
  case (Cons e es)
  from Cons.prems obtain rc q1 m1 where s: "push q m e = Some (rc, q1, m1)" "inv q1 m1"
    "same_events m m1" and ms: "rc = 0 \<and> mset (elems q1) = add_mset e (mset (elems q)) \<or>
         rc = - 1 \<and> mset (elems q1) = mset (elems q)"
    using push_law [of q m e] by fastforce
  have len: "length (elems q1) \<le> Suc (length (elems q))"
    using ms by (metis le_Suc_eq mset_eq_length order_refl size_add_mset size_mset)
  have st: "set (elems q1) \<subseteq> insert e (set (elems q))"
    using ms by (metis mset_eq_setD set_eq_subset set_mset_add_mset_insert set_mset_mset subset_insertI)
  have live: "\<forall>x \<in> set es. ev_at m1 x \<noteq> None"
    using Cons.prems(4) same_events_at [OF s(3)] by auto
  have "set es \<inter> set (elems q1) = {}"
    using Cons.prems(2,3) st by auto
  with Cons.IH [OF s(2) _ _ live] Cons.prems(2,5) len obtain as q' m' where
    "push_all push es q1 m1 = Some (as, q', m')" "inv q' m'" "same_events m1 m'"
    "mset (elems q') = mset as + mset (elems q1)" "set as \<subseteq> set es"
    by fastforce
  with s ms show ?case by (auto intro: same_events_trans)
qed

lemma drain_ok:
  "inv q m \<Longrightarrow> length (elems q) = k \<Longrightarrow>
    \<exists>es q' m'. drain pop k q m = Some (es, q', m') \<and> inv q' m' \<and> elems q' = [] \<and>
      mset es = mset (elems q) \<and> same_events m m'"
proof (induction k arbitrary: q m)
  case 0
  then show ?case by auto
next
  case (Suc k)
  then obtain e q1 m1 where s: "pop q m = Some (e, q1, m1)" "inv q1 m1" "same_events m m1"
    "add_mset e (mset (elems q1)) = mset (elems q)"
    using pop_law [of q m] by fastforce
  then have "length (elems q1) = k"
    using Suc.prems(2) by (metis nat.inject size_add_mset size_mset)
  from Suc.IH [OF s(2) this] s show ?case by (auto intro: same_events_trans)
qed

end

lemma length_heap_elems: "heap_inv s m \<Longrightarrow> length (heap_elems s) = hp_n s"
  by (simp add: heap_elems_def heap_inv_def)

interpretation hq: event_queue "min_heap_push r" min_heap_pop heap_elems
  "\<lambda>s m. realloc_ok r \<and> heap_inv s m" 2147483648 for r
proof
  fix s m e
  assume "realloc_ok r \<and> heap_inv s m" "ev_at m e \<noteq> None" "e \<notin> set (heap_elems s)"
    "Suc (length (heap_elems s)) < 2147483648"
  with push_ok [of r s m e] length_heap_elems [of s m]
  show "\<exists>rc q' m'. min_heap_push r s m e = Some (rc, q', m') \<and> (realloc_ok r \<and> heap_inv q' m') \<and>
      same_events m m' \<and> (rc = 0 \<and> mset (heap_elems q') = add_mset e (mset (heap_elems s)) \<or>
        rc = - 1 \<and> mset (heap_elems q') = mset (heap_elems s))"
    by fastforce
next
  fix s m
  assume a: "realloc_ok r \<and> heap_inv s m" "heap_elems s \<noteq> []"
  then have "hp_n s \<noteq> 0" by (auto simp: heap_elems_def)
  with pop_ok [of s m] a show "\<exists>e q' m'. min_heap_pop s m = Some (e, q', m') \<and>
      (realloc_ok r \<and> heap_inv q' m') \<and> same_events m m' \<and>
      add_mset e (mset (heap_elems q')) = mset (heap_elems s)"
    by blast
qed

section \<open>Properties\<close>


definition demo_event :: "int \<Rightarrow> int \<Rightarrow> event" where
  "demo_event sec idx = \<lparr>ev_callback = 0, ev_arg = 0, ev_flag = 0, ev_fd = 3,
     ev_min_heap_idx = idx, ev_endtime = \<lparr>tv_sec = sec, tv_nsec = 0\<rparr>, ev_deleted = 0,
     ev_pos_in_ready = 0, ev_next_active_ev = 0, ev_next = 0, ev_prev = 0, ev_base = 0\<rparr>"

definition demo_realloc :: realloc where
  "demo_realloc p k = Some (p @ replicate (k - length p) 0)"

definition demo_heap :: min_heap where
  "demo_heap = \<lparr>hp_p = [8, 16, 0], hp_n = 2, hp_a = 3\<rparr>"

definition demo_events :: ev_mem where
  "demo_events = [8 \<mapsto> demo_event 1 0, 16 \<mapsto> demo_event 2 1, 24 \<mapsto> demo_event 3 (- 1)]"

lemma demo_realloc_ok: "realloc_ok demo_realloc"
  by (simp add: realloc_ok_def demo_realloc_def)

lemma demo_heap_inv: "heap_inv demo_heap demo_events"
  by (auto simp: heap_inv_def demo_heap_def demo_events_def demo_event_def link_def ev_at_def
      less_2_cases_iff)

lemma demo_elems: "heap_elems demo_heap = [8, 16]"
  by (simp add: heap_elems_def demo_heap_def)

lemma demo_n: "hp_n demo_heap = 2"
  by (simp add: demo_heap_def)


text \<open>
  Claim C18: popping a heap that is not empty returns the element at the root,
  removes exactly it, resets its position to \<open>-1\<close> and keeps every position link.
\<close>

theorem heap_pop_takes_root:
  assumes "heap_inv s m" "hp_n s \<noteq> 0"
  shows "\<exists>s' m' ev. min_heap_pop s m = Some (heap_elems s ! 0, s', m') \<and> heap_inv s' m' \<and>
    same_events m m' \<and> add_mset (heap_elems s ! 0) (mset (heap_elems s')) = mset (heap_elems s) \<and>
    ev_at m' (heap_elems s ! 0) = Some ev \<and> ev_min_heap_idx ev = - 1"
  using assms by (rule pop_ok)

theorem heap_pop_takes_root_witness:
  "\<exists>s' m'. min_heap_pop demo_heap demo_events = Some (8, s', m') \<and> mset (heap_elems s') = {#16#}"
  using heap_pop_takes_root [OF demo_heap_inv] by (fastforce simp: demo_elems demo_n)

text \<open>
  Claim C19: erasing an element that is not in the last cell (or that is there and
  has the deadline of its parent, or is alone) removes exactly it, resets its position and keeps
  every position link.
\<close>

theorem heap_erase_removes:
  assumes "heap_inv s m" "i < hp_n s"
    and "i < hp_n s - 1 \<or> up_test (hp_p s) m i (hp_p s ! i) = Some False"
  shows "\<exists>s' m' ev. min_heap_erase s m (hp_p s ! i) = Some (0, s', m') \<and> heap_inv s' m' \<and>
    same_events m m' \<and> add_mset (hp_p s ! i) (mset (heap_elems s')) = mset (heap_elems s) \<and>
    ev_at m' (hp_p s ! i) = Some ev \<and> ev_min_heap_idx ev = - 1"
  using assms by (rule erase_ok)

theorem heap_erase_removes_witness:
  "\<exists>s' m'. min_heap_erase demo_heap demo_events 8 = Some (0, s', m') \<and>
    mset (heap_elems s') = {#16#}"
proof -
  have i: "(0::nat) < hp_n demo_heap" "0 < hp_n demo_heap - 1" "hp_p demo_heap ! 0 = 8"
    by (simp_all add: demo_heap_def)
  from heap_erase_removes [OF demo_heap_inv i(1)] i(2,3) show ?thesis
    by (auto simp: demo_elems)
qed

text \<open>
  Claim C34: erasing the element in the last cell when its parent has
  another deadline removes the parent instead: the erased event stays in the heap, with position
  \<open>-1\<close>, and its parent is lost. (With an order as comparison this branch would need a parent that
  is greater than its child.)
\<close>

theorem heap_erase_last_keeps_it:
  assumes "heap_inv s m" "1 < hp_n s"
    and "min_heap_elem_greater m (hp_p s ! parent (hp_n s - 1)) (hp_p s ! (hp_n s - 1)) = Some True"
  shows "\<exists>s' m'. min_heap_erase s m (hp_p s ! (hp_n s - 1)) = Some (0, s', m') \<and>
    add_mset (hp_p s ! parent (hp_n s - 1)) (mset (heap_elems s')) = mset (heap_elems s) \<and>
    hp_p s ! (hp_n s - 1) \<in> set (heap_elems s') \<and>
    (\<exists>ev. ev_at m' (hp_p s ! (hp_n s - 1)) = Some ev \<and> ev_min_heap_idx ev = - 1)"
  using assms by (rule erase_last_swaps)

theorem heap_erase_last_keeps_it_witness:
  "\<exists>s' m'. min_heap_erase demo_heap demo_events 16 = Some (0, s', m') \<and> heap_elems s' = [16]"
proof -
  have i: "1 < hp_n demo_heap" "hp_p demo_heap ! (hp_n demo_heap - 1) = 16"
    "hp_p demo_heap ! parent (hp_n demo_heap - 1) = 8"
    by (simp_all add: demo_heap_def parent_def)
  have "min_heap_elem_greater demo_events 8 16 = Some True"
    by (simp add: min_heap_elem_greater_def demo_events_def demo_event_def lt_time_a_sub_b_def
        i64_def)
  with heap_erase_last_keeps_it [OF demo_heap_inv i(1)] i(2,3)
  obtain s' m' where "min_heap_erase demo_heap demo_events 16 = Some (0, s', m')"
    "add_mset 8 (mset (heap_elems s')) = mset [8, 16]" by (auto simp: demo_elems)
  then show ?thesis by (auto simp: mset_single_iff)
qed

text \<open>
  Claim C33: the heap does not order its elements. The comparison is true for
  any two different deadlines, so an event pushed among events with other deadlines becomes the
  root, and the next pop returns it, whether its deadline is the earliest or the latest.
\<close>

theorem heap_push_goes_to_root:
  assumes "realloc_ok r" "heap_inv s m" "ev_at m e \<noteq> None" "e \<notin> set (heap_elems s)"
    and "Suc (hp_n s) < 2147483648"
    and "\<forall>x \<in> set (heap_elems s). min_heap_elem_greater m x e = Some True"
    and "min_heap_push r s m e = Some (0, s', m')"
  shows "\<exists>s'' m''. min_heap_pop s' m' = Some (e, s'', m'')"
proof -
  obtain rc s1 where r: "min_heap_reserve r s (Suc (hp_n s)) = (rc, s1)" by fastforce
  have w: "(hp_n s + 1) mod 4294967296 = Suc (hp_n s)" using assms(5) by simp
  have rc: "rc = 0" using assms(7) r w by (auto simp: min_heap_push_def split: if_splits)
  with reserve_ok [OF assms(1) _ _ _ r] assms(2) have c: "hp_n s1 = hp_n s" "hp_n s < hp_a s1"
    "length (hp_p s1) = hp_a s1" "take (hp_n s) (hp_p s1) = take (hp_n s) (hp_p s)"
    by (auto simp: heap_inv_def)
  have pre: "hp_p s1 ! j = heap_elems s ! j" if "j < hp_n s" for j
    using c(4) that unfolding heap_elems_def by (metis nth_take)
  have len: "length (heap_elems s) = hp_n s" by (rule length_heap_elems [OF assms(2)])
  obtain p where p: "min_heap_shift_up (hp_p s1) m (hp_n s) e = Some (p, m')" "hp_p s' = p"
    "hp_n s' = Suc (hp_n s)"
    using assms(7) r w rc c(1) by (auto simp: min_heap_push_def split: Option.bind_splits)
  have mem: "heap_elems s ! j \<in> set (heap_elems s)" if "j < hp_n s" for j using that len by simp
  have lk: "link m (hp_p s1 ! j) j" if "j < hp_n s" for j
    using heap_link [OF assms(2) that] pre [OF that] that by (simp add: heap_elems_def)
  have h: "holed (hp_p s1) m (Suc (hp_n s)) (hp_n s) e"
    using c assms(3-5) lk pre mem by (auto simp: holed_def less_Suc_eq)
  have "\<forall>j < Suc (hp_n s). j \<noteq> hp_n s \<longrightarrow> min_heap_elem_greater m (hp_p s1 ! j) e = Some True"
    using assms(6) pre mem by (auto simp: less_Suc_eq)
  from shift_up_root [OF h this p(1)] p have root: "heap_elems s' ! 0 = e"
    by (simp add: heap_elems_def)
  have "heap_inv s' m'"
    using push_ok [OF assms(1-5)] assms(7) by auto
  from pop_ok [OF this] p(3) root show ?thesis by auto
qed

theorem heap_push_goes_to_root_witness:
  "min_heap_pop \<lparr>hp_p = [24, 16, 8], hp_n = 3, hp_a = 3\<rparr>
      (demo_events(8 \<mapsto> demo_event 1 2, 24 \<mapsto> demo_event 3 0)) \<noteq> None \<and>
   (\<exists>s'' m''. min_heap_pop \<lparr>hp_p = [24, 16, 8], hp_n = 3, hp_a = 3\<rparr>
      (demo_events(8 \<mapsto> demo_event 1 2, 24 \<mapsto> demo_event 3 0)) = Some (24, s'', m''))"
proof -
  have g: "\<forall>x \<in> set (heap_elems demo_heap). min_heap_elem_greater demo_events x 24 = Some True"
    by (simp add: demo_elems min_heap_elem_greater_def demo_events_def demo_event_def
        lt_time_a_sub_b_def i64_def)
  have p: "min_heap_push demo_realloc demo_heap demo_events 24 =
      Some (0, \<lparr>hp_p = [24, 16, 8], hp_n = 3, hp_a = 3\<rparr>,
            demo_events(8 \<mapsto> demo_event 1 2, 24 \<mapsto> demo_event 3 0))"
  proof -
    let ?m = "demo_events(8 \<mapsto> demo_event 1 2)"
    have par: "parent 2 = 0" by (simp add: parent_def)
    have "up_test [8, 16, 0] demo_events 2 24 = Some True"
      using g by (simp add: up_test_def par ld_def demo_elems)
    moreover have "(do { x \<leftarrow> ld [8, 16, 0] (parent 2); put_elem [8, 16, 0] demo_events 2 x }) =
        Some ([8, 16, 8], ?m)"
      by (simp add: par ld_def put_elem_def st_def ev_set_def ev_at_def demo_events_def
          demo_event_def i32_def)
    moreover have "put_elem [8, 16, 8] ?m 0 24 = Some ([24, 16, 8], ?m(24 \<mapsto> demo_event 3 0))"
      by (simp add: put_elem_def st_def ev_set_def ev_at_def demo_events_def demo_event_def i32_def)
    moreover have "min_heap_shift_up [8, 16, 8] ?m 0 24 = put_elem [8, 16, 8] ?m 0 24"
      by (subst min_heap_shift_up.simps) (simp add: up_test_def)
    ultimately have "min_heap_shift_up [8, 16, 0] demo_events 2 24 =
        Some ([24, 16, 8], ?m(24 \<mapsto> demo_event 3 0))"
      by (subst min_heap_shift_up.simps) (simp add: par)
    then show ?thesis by (simp add: min_heap_push_def min_heap_reserve_def demo_heap_def)
  qed
  have "ev_at demo_events 24 \<noteq> None" "24 \<notin> set (heap_elems demo_heap)"
    "Suc (hp_n demo_heap) < 2147483648"
    by (simp_all add: demo_events_def demo_elems) (simp add: demo_heap_def)
  from heap_push_goes_to_root [OF demo_realloc_ok demo_heap_inv this g p] show ?thesis by auto
qed



end
