(* ===== verification/Event_Loop.thy ===== *)
theory Event_Loop
  imports Lea_Heap
begin

text \<open>
  The event loop of event_lea.c: the free list of events, registration with epoll, timeouts, and the
  dispatch of ready events. The state is \<open>base_t\<close> together with the memory it works on: the live
  events, the pool blocks, and the calls of \<open>epoll_ctl\<close> made so far. What lies outside is an
  argument: the allocators, the clock, the results of \<open>epoll_ctl\<close> and \<open>epoll_wait\<close>, and the
  callbacks, which are functions on the state.
\<close>

section \<open>Data\<close>

datatype ep_op = EPOLL_CTL_ADD | EPOLL_CTL_DEL | EPOLL_CTL_MOD

record ep_call =
  ec_epfd :: int
  ec_op :: ep_op
  ec_fd :: int
  ec_events :: "32 word"
  ec_ptr :: u64

record base =
  bs_active_head :: u64
  bs_active_tail :: u64
  bs_event_pool_manager :: lt_memory_pool_manager
  bs_free_ev_head :: u64
  bs_epfd :: int
  bs_timeheap :: min_heap

text \<open>\<open>w_self\<close> is the address of the \<open>base_t\<close>.\<close>

record lea = base +
  w_self :: u64
  w_ev :: ev_mem
  w_pool :: pool_mem
  w_calls :: "ep_call list"

text \<open>
  The outside. \<open>os_junk\<close> is what memory fresh from the allocator happens to hold.
\<close>

record os =
  os_aligned_alloc :: aligned_alloc
  os_realloc :: realloc
  os_epoll_ctl :: "ep_call list \<Rightarrow> ep_call \<Rightarrow> int"
  os_junk :: event

type_synonym 'a callbacks = "u64 \<Rightarrow> u64 \<Rightarrow> u64 \<Rightarrow> 'a lea_scheme \<Rightarrow> 'a lea_scheme option"

text \<open>Constants of the Linux epoll interface and \<open>sizeof(event_t)\<close> on LP64.\<close>

definition EPOLLIN :: "32 word" where "EPOLLIN = 0x001"
definition EPOLLOUT :: "32 word" where "EPOLLOUT = 0x004"
definition EPOLLRDHUP :: "32 word" where "EPOLLRDHUP = 0x2000"
definition EPOLLET :: "32 word" where "EPOLLET = 0x80000000"

lemmas epoll_defs = EPOLLIN_def EPOLLOUT_def EPOLLRDHUP_def EPOLLET_def

definition sizeof_event :: u64 where "sizeof_event = 88"

definition EVENT_POOL_LENGTH :: u64 where "EVENT_POOL_LENGTH = 64"

text \<open>The address of \<open>base->event_pool_manager\<close>, behind the active list.\<close>

definition event_pool_addr :: "'a lea_scheme \<Rightarrow> u64" where
  "event_pool_addr w = w_self w + 24"

section \<open>The free list\<close>

text \<open>
  An element of the pool is a live event if it lies inside its block; one that reaches past the
  block's end is not, so that writing to it is undefined.
\<close>

definition new_event_at :: "os \<Rightarrow> 'a lea_scheme \<Rightarrow> u64 \<Rightarrow> ev_mem" where
  "new_event_at os w a =
     (case pool_at (w_pool w) (pm_tail (bs_event_pool_manager w)) of
        None \<Rightarrow> w_ev w
      | Some blk \<Rightarrow>
          if unat a + unat sizeof_event \<le> unat (mp_end blk) then (w_ev w)(a \<mapsto> os_junk os) else w_ev w)"

definition lt_new_event :: "os \<Rightarrow> 'a lea_scheme \<Rightarrow> (u64 \<times> 'a lea_scheme) option" where
  "lt_new_event os w = do {
     head \<leftarrow> ev_at (w_ev w) (bs_free_ev_head w);
     let free_ev = ev_next head;
     if free_ev \<noteq> 0 then do {
       f \<leftarrow> ev_at (w_ev w) free_ev;
       m1 \<leftarrow> ev_set (w_ev w) (ev_prev f) (ev_next_update (\<lambda>_. ev_next f));
       f1 \<leftarrow> ev_at m1 free_ev;
       m2 \<leftarrow> ev_set m1 (ev_next f1) (ev_prev_update (\<lambda>_. ev_prev f1));
       Some (free_ev, w\<lparr>w_ev := m2\<rparr>)
     } else do {
       (ev, mg, pm) \<leftarrow> lt_alloc (os_aligned_alloc os) (event_pool_addr w)
                         (bs_event_pool_manager w) (w_pool w);
       Some (ev, w\<lparr>bs_event_pool_manager := mg, w_pool := pm, w_ev := new_event_at os w ev\<rparr>)
     }
   }"

definition lt_del_event :: "'a lea_scheme \<Rightarrow> u64 \<Rightarrow> 'a lea_scheme option" where
  "lt_del_event w event = do {
     head \<leftarrow> ev_at (w_ev w) (bs_free_ev_head w);
     let free_ev = ev_next head;
     if free_ev \<noteq> 0 then do {
       f \<leftarrow> ev_at (w_ev w) free_ev;
       m1 \<leftarrow> ev_set (w_ev w) event (ev_prev_update (\<lambda>_. ev_prev f));
       m2 \<leftarrow> ev_set m1 event (ev_next_update (\<lambda>_. free_ev));
       m3 \<leftarrow> ev_set m2 free_ev (ev_prev_update (\<lambda>_. event));
       f3 \<leftarrow> ev_at m3 free_ev;
       m4 \<leftarrow> ev_set m3 (ev_prev f3) (ev_next_update (\<lambda>_. event));
       Some (w\<lparr>w_ev := m4\<rparr>)
     } else do {
       m1 \<leftarrow> ev_set (w_ev w) (bs_free_ev_head w) (ev_next_update (\<lambda>_. event));
       m2 \<leftarrow> ev_set m1 event (ev_prev_update (\<lambda>_. bs_free_ev_head w));
       Some (w\<lparr>w_ev := m2\<rparr>)
     }
   }"

definition lt_new_post_callback :: "os \<Rightarrow> 'a lea_scheme \<Rightarrow> u64 \<Rightarrow> int \<Rightarrow> u64 \<Rightarrow> (int \<times> 'a lea_scheme) option" where
  "lt_new_post_callback os w callback fd arg = do {
     (event, w1) \<leftarrow> lt_new_event os w;
     m \<leftarrow> lt_ev_init (w_ev w1) event LV_ONESHOT fd callback arg 0;
     Some (0, w1\<lparr>w_ev := m\<rparr>)
   }"

text \<open>
  \<open>lt_base_init\<close>: the results of the two \<open>malloc\<close> calls and of \<open>epoll_create1\<close> are arguments, and
  so is what the first block happened to hold. Only the first \<open>malloc\<close> and epoll are checked.
\<close>

definition lt_base_init :: "os \<Rightarrow> u64 \<Rightarrow> int \<Rightarrow> u64 \<Rightarrow> 'a lea_scheme \<Rightarrow> (u64 \<times> 'a lea_scheme) option" where
  "lt_base_init os malloc_base epfd malloc_head w =
     (if malloc_base = 0 then Some (0, w)
      else if epfd = - 1 then Some (0, w)
      else
        let w1 = w\<lparr>w_self := malloc_base, bs_epfd := epfd, bs_free_ev_head := malloc_head,
                   w_ev := (if malloc_head = 0 then w_ev w else (w_ev w)(malloc_head \<mapsto> os_junk os))\<rparr>
        in do {
          m \<leftarrow> ev_set (w_ev w1) malloc_head (ev_next_update (\<lambda>_. 0));
          let w2 = w1\<lparr>w_ev := m, bs_active_head := 0\<rparr>;
          (_, mg, pm) \<leftarrow> lt_new_memory_pool_manager (os_aligned_alloc os) 0 (event_pool_addr w2)
                           (bs_event_pool_manager w2) sizeof_event EVENT_POOL_LENGTH (w_pool w2);
          Some (malloc_base, w2\<lparr>bs_event_pool_manager := mg, w_pool := pm,
                                bs_timeheap := min_heap_constructor\<rparr>)
        })"

section \<open>Registration\<close>

definition ep_mask :: "32 word \<Rightarrow> 32 word" where
  "ep_mask flag =
     (let e0 = EPOLLRDHUP;
          e1 = (if flag AND LV_FDRD \<noteq> 0 then e0 OR EPOLLIN else e0);
          e2 = (if flag AND LV_FDWR \<noteq> 0 then e1 OR EPOLLOUT else e1)
      in (if flag AND LV_CONN \<noteq> 0 then e2 OR EPOLLET else e2))"

definition lt_epoll_ctl :: "os \<Rightarrow> 'a lea_scheme \<Rightarrow> ep_call \<Rightarrow> int \<times> 'a lea_scheme" where
  "lt_epoll_ctl os w c = (os_epoll_ctl os (w_calls w) c, w\<lparr>w_calls := w_calls w @ [c]\<rparr>)"

definition lt_add_to_epfd :: "os \<Rightarrow> 'a lea_scheme \<Rightarrow> u64 \<Rightarrow> int \<Rightarrow> 32 word \<Rightarrow> int \<times> 'a lea_scheme" where
  "lt_add_to_epfd os w event mon_fd flag =
     lt_epoll_ctl os w \<lparr>ec_epfd = bs_epfd w, ec_op = EPOLL_CTL_ADD, ec_fd = mon_fd,
       ec_events = ep_mask flag, ec_ptr = event\<rparr>"

definition lt_mod_to_epfd :: "os \<Rightarrow> 'a lea_scheme \<Rightarrow> u64 \<Rightarrow> int \<Rightarrow> 32 word \<Rightarrow> int \<times> 'a lea_scheme" where
  "lt_mod_to_epfd os w event mon_fd flag =
     lt_epoll_ctl os w \<lparr>ec_epfd = bs_epfd w, ec_op = EPOLL_CTL_MOD, ec_fd = mon_fd,
       ec_events = ep_mask flag, ec_ptr = event\<rparr>"

definition lt_remove_from_epfd :: "os \<Rightarrow> 'a lea_scheme \<Rightarrow> int \<Rightarrow> int \<times> 'a lea_scheme" where
  "lt_remove_from_epfd os w mon_fd =
     lt_epoll_ctl os w \<lparr>ec_epfd = bs_epfd w, ec_op = EPOLL_CTL_DEL, ec_fd = mon_fd,
       ec_events = 0, ec_ptr = 0\<rparr>"

text \<open>\<open>now\<close> is what \<open>lt_gettime\<close> returns in the call.\<close>

definition lt_timeout_add :: "os \<Rightarrow> lt_time \<Rightarrow> 'a lea_scheme \<Rightarrow> u64 \<Rightarrow> int \<Rightarrow> (lt_time \<times> 'a lea_scheme) option" where
  "lt_timeout_add os now w ev to = do {
     let endtime = lt_time_addition now to;
     m1 \<leftarrow> min_heap_elem_init (w_ev w) ev;
     (_, h, m2) \<leftarrow> min_heap_push (os_realloc os) (bs_timeheap w) m1 ev;
     Some (endtime, w\<lparr>w_ev := m2, bs_timeheap := h\<rparr>)
   }"

text \<open>The part that \<open>lt_io_add\<close> and \<open>lt_io_mod\<close> share: a timeout, or no place in the heap.\<close>

definition set_timeout :: "os \<Rightarrow> lt_time \<Rightarrow> 'a lea_scheme \<Rightarrow> u64 \<Rightarrow> int \<Rightarrow> 'a lea_scheme option" where
  "set_timeout os now w ev timeout =
     (if timeout \<ge> 0 then do {
        (endtime, w1) \<leftarrow> lt_timeout_add os now w ev timeout;
        m \<leftarrow> ev_set (w_ev w1) ev (ev_endtime_update (\<lambda>_. endtime));
        Some (w1\<lparr>w_ev := m\<rparr>)
      } else do {
        m \<leftarrow> ev_set (w_ev w) ev (ev_min_heap_idx_update (\<lambda>_. - 1));
        Some (w\<lparr>w_ev := m\<rparr>)
      })"

definition lt_io_add ::
  "os \<Rightarrow> lt_time \<Rightarrow> 'a lea_scheme \<Rightarrow> int \<Rightarrow> 32 word \<Rightarrow> u64 \<Rightarrow> u64 \<Rightarrow> int \<Rightarrow> (u64 \<times> 'a lea_scheme) option" where
  "lt_io_add os now w fd flag_set callback arg timeout = do {
     (event, w1) \<leftarrow> lt_new_event os w;
     m \<leftarrow> lt_ev_init (w_ev w1) event flag_set fd callback arg 0;
     w2 \<leftarrow> set_timeout os now (w1\<lparr>w_ev := m\<rparr>) event timeout;
     let (_, w3) = lt_add_to_epfd os w2 event fd flag_set;
     m' \<leftarrow> ev_set (w_ev w3) event (ev_base_update (\<lambda>_. w_self w));
     Some (event, w3\<lparr>w_ev := m'\<rparr>)
   }"

definition lt_io_mod ::
  "os \<Rightarrow> lt_time \<Rightarrow> 'a lea_scheme \<Rightarrow> u64 \<Rightarrow> 32 word \<Rightarrow> u64 \<Rightarrow> u64 \<Rightarrow> int \<Rightarrow> (u64 \<times> 'a lea_scheme) option" where
  "lt_io_mod os now w ev new_flag_set callback arg timeout =
     (if ev \<noteq> 0 then do {
        w1 \<leftarrow> set_timeout os now w ev timeout;
        m \<leftarrow> ev_set (w_ev w1) ev
               (\<lambda>e. e\<lparr>ev_flag := new_flag_set, ev_callback := callback, ev_arg := arg\<rparr>);
        e \<leftarrow> ev_at m ev;
        let (_, w2) = lt_mod_to_epfd os (w1\<lparr>w_ev := m\<rparr>) ev (ev_fd e) new_flag_set;
        Some (ev, w2)
      } else Some (ev, w))"

definition lt_io_remove :: "os \<Rightarrow> 'a lea_scheme \<Rightarrow> u64 \<Rightarrow> 'a lea_scheme option" where
  "lt_io_remove os w ev = do {
     e \<leftarrow> ev_at (w_ev w) ev;
     w1 \<leftarrow> (if ev_min_heap_idx e \<noteq> - 1 then do {
              (_, h, m) \<leftarrow> min_heap_erase (bs_timeheap w) (w_ev w) ev;
              Some (w\<lparr>bs_timeheap := h, w_ev := m\<rparr>)
            } else Some w);
     e1 \<leftarrow> ev_at (w_ev w1) ev;
     let (_, w2) = lt_remove_from_epfd os w1 (ev_fd e1);
     m' \<leftarrow> ev_set (w_ev w2) ev (ev_deleted_update (\<lambda>_. 1));
     Some (w2\<lparr>w_ev := m'\<rparr>)
   }"

section \<open>Dispatch\<close>

text \<open>An entry of \<open>epevents\<close>: the event pointer and the bits that are ready.\<close>

type_synonym ready = "u64 \<times> 32 word"

definition is_ready :: "32 word \<Rightarrow> bool" where
  "is_ready events \<longleftrightarrow> events AND (EPOLLIN OR EPOLLOUT) \<noteq> 0"

text \<open>
  The first loop of \<open>lt_loop_init_actlist\<close>, up to the first lagging event; the result is the state and
  the entries behind the one it stopped at.
\<close>

fun actlist_first :: "'a callbacks \<Rightarrow> ready list \<Rightarrow> 'a lea_scheme \<Rightarrow> ('a lea_scheme \<times> ready list) option" where
  "actlist_first call [] w = Some (w, [])"
| "actlist_first call ((ptr, events) # rs) w =
     (if is_ready events then do {
        ev \<leftarrow> ev_at (w_ev w) ptr;
        if ev_flag ev AND LV_LAG \<noteq> 0
        then Some (w\<lparr>bs_active_head := ptr, bs_active_tail := ptr\<rparr>, rs)
        else do {
          w' \<leftarrow> call (ev_callback ev) ptr (ev_arg ev) w;
          actlist_first call rs w'
        }
      } else actlist_first call rs w)"

text \<open>The second loop: lagging events are linked behind \<open>ev_prev\<close>, the others are called.\<close>

fun actlist_rest :: "'a callbacks \<Rightarrow> ready list \<Rightarrow> u64 \<Rightarrow> 'a lea_scheme \<Rightarrow> ('a lea_scheme \<times> u64) option" where
  "actlist_rest call [] prev w = Some (w, prev)"
| "actlist_rest call ((ptr, events) # rs) prev w = do {
     ev \<leftarrow> ev_at (w_ev w) ptr;
     if ev_flag ev AND LV_LAG \<noteq> 0 \<and> is_ready events then do {
       m \<leftarrow> ev_set (w_ev w) prev (ev_next_active_ev_update (\<lambda>_. ptr));
       actlist_rest call rs ptr (w\<lparr>w_ev := m\<rparr>)
     } else do {
       w' \<leftarrow> call (ev_callback ev) ptr (ev_arg ev) w;
       actlist_rest call rs prev w'
     }
   }"

definition lt_loop_init_actlist :: "'a callbacks \<Rightarrow> ready list \<Rightarrow> 'a lea_scheme \<Rightarrow> 'a lea_scheme option" where
  "lt_loop_init_actlist call evs w = do {
     (w1, rs) \<leftarrow> actlist_first call evs w;
     (w2, prev) \<leftarrow> actlist_rest call rs (bs_active_head w1) w1;
     Some (w2\<lparr>bs_active_tail := prev\<rparr>)
   }"

text \<open>One round of the loop in \<open>lt_ev_process_and_moveout\<close>.\<close>

definition process_event :: "'a callbacks \<Rightarrow> lt_time \<Rightarrow> u64 \<Rightarrow> 'a lea_scheme \<Rightarrow> 'a lea_scheme option" where
  "process_event call nowtime event w = do {
     e \<leftarrow> ev_at (w_ev w) event;
     if lt_ev_check_timeout (ev_endtime e) nowtime \<noteq> 0 then do {
       m \<leftarrow> ev_set (w_ev w) event (ev_deleted_update (\<lambda>_. 1));
       Some (w\<lparr>w_ev := m\<rparr>)
     } else if ev_deleted e \<noteq> 0 then Some w
     else do {
       w1 \<leftarrow> call (ev_callback e) event (ev_arg e) w;
       e1 \<leftarrow> ev_at (w_ev w1) event;
       m \<leftarrow> ev_set (w_ev w1) event (ev_deleted_update (\<lambda>_. sint (ev_flag e1 AND LV_ONESHOT)));
       Some (w1\<lparr>w_ev := m\<rparr>)
     }
   }"

text \<open>
  The loop follows \<open>next_active_ev\<close> and need not end: \<^const>\<open>None\<close> is a loop that does not return,
  \<open>Some None\<close> undefined behaviour.
\<close>

partial_function (option) process_loop :: "'a callbacks \<Rightarrow> lt_time \<Rightarrow> u64 \<Rightarrow> 'a lea_scheme \<Rightarrow> 'a lea_scheme option option" where
  "process_loop call nowtime event w =
     (if event = 0 then Some (Some w)
      else
        case process_event call nowtime event w of
          None \<Rightarrow> Some None
        | Some w' \<Rightarrow>
            (case ev_at (w_ev w') event of
               None \<Rightarrow> Some None
             | Some e \<Rightarrow> process_loop call nowtime (ev_next_active_ev e) w'))"

definition lt_ev_process_and_moveout :: "'a callbacks \<Rightarrow> lt_time \<Rightarrow> 'a lea_scheme \<Rightarrow> 'a lea_scheme option option" where
  "lt_ev_process_and_moveout call nowtime w =
     map_option (map_option (\<lambda>w'. w'\<lparr>bs_active_head := 0, bs_active_tail := 0\<rparr>))
       (process_loop call nowtime (bs_active_head w) w)"

text \<open>
  What one \<open>epoll_wait\<close> and the clock read behind it return: the count, whether an error was \<open>EINTR\<close>,
  the entries, and the time.
\<close>

record round =
  rd_ready :: int
  rd_eintr :: bool
  rd_events :: "ready list"
  rd_after :: lt_time

text \<open>How far the loop has come on a given sequence of rounds: returned, waiting for another, or hung.\<close>

datatype 'w loop_end = Returned int 'w | Waiting 'w | Hung

fun base_rounds :: "'a callbacks \<Rightarrow> int \<Rightarrow> lt_time \<Rightarrow> round list \<Rightarrow> 'a lea_scheme \<Rightarrow> 'a lea_scheme loop_end option" where
  "base_rounds call timeout start [] w = Some (Waiting w)"
| "base_rounds call timeout start (r # rs) w =
     (if rd_ready r = - 1 \<and> \<not> rd_eintr r then Some (Returned (- 1) w)
      else if time_a_gt_b (lt_time_a_sub_b (rd_after r) start) timeout then Some (Returned 0 w)
      else do {
        w1 \<leftarrow> lt_loop_init_actlist call (take (nat (rd_ready r)) (rd_events r)) w;
        case lt_ev_process_and_moveout call (rd_after r) w1 of
          None \<Rightarrow> Some Hung
        | Some None \<Rightarrow> None
        | Some (Some w2) \<Rightarrow> base_rounds call timeout start rs w2
      })"

definition lt_base_loop :: "'a callbacks \<Rightarrow> int \<Rightarrow> lt_time \<Rightarrow> round list \<Rightarrow> 'a lea_scheme \<Rightarrow> 'a lea_scheme loop_end option" where
  "lt_base_loop call timeout start rounds w = base_rounds call timeout start rounds w"

section \<open>Registration\<close>

text \<open>
  Room for \<open>j\<close> more events: the free list is empty, the pool's tail block has room for them, and no
  live event lies in that room.
\<close>

definition slot_of :: "'a lea_scheme \<Rightarrow> nat \<Rightarrow> u64" where
  "slot_of w i = word_of_nat (tail_next (bs_event_pool_manager w) (w_pool w) + i * 88)"

definition ev_room :: "'a lea_scheme \<Rightarrow> nat \<Rightarrow> bool" where
  "ev_room w j \<longleftrightarrow>
     pool_room (bs_event_pool_manager w) (bs_event_pool_manager w, w_pool w) j \<and>
     pm_one_element_size (bs_event_pool_manager w) = sizeof_event \<and>
     (\<exists>h. ev_at (w_ev w) (bs_free_ev_head w) = Some h \<and> ev_next h = 0) \<and>
     (\<forall>i < j. w_ev w (slot_of w i) = None)"

lemma slot_of_unat:
  assumes "ev_room w j" "i < j"
  shows "unat (slot_of w i) = tail_next (bs_event_pool_manager w) (w_pool w) + i * 88"
    "unat (slot_of w i) + 88 \<le> tail_limit (bs_event_pool_manager w) (w_pool w)"
  using assms lp.slot_unat [of "bs_event_pool_manager w" "(bs_event_pool_manager w, w_pool w)" j i]
  by (simp_all add: ev_room_def slot_of_def sizeof_event_def)

lemma room_block:
  assumes "ev_room w j"
  shows "\<exists>blk. pool_at (w_pool w) (pm_tail (bs_event_pool_manager w)) = Some blk \<and>
    tail_limit (bs_event_pool_manager w) (w_pool w) = unat (mp_end blk) \<and>
    40 \<le> tail_next (bs_event_pool_manager w) (w_pool w)"
  using assms by (auto simp: ev_room_def pool_room_def tail_used_def tail_limit_def tail_next_def)

lemma new_event_ok:
  assumes room: "ev_room w (Suc j)"
  shows "\<exists>pm. lt_new_event os w =
      Some (slot_of w 0, w\<lparr>w_pool := pm, w_ev := (w_ev w)(slot_of w 0 \<mapsto> os_junk os)\<rparr>) \<and>
    w_ev w (slot_of w 0) = None \<and> slot_of w 0 \<noteq> 0 \<and>
    ev_room (w\<lparr>w_pool := pm, w_ev := (w_ev w)(slot_of w 0 \<mapsto> os_junk os)\<rparr>) j \<and>
    pool_kept (pm_tail (bs_event_pool_manager w)) (w_pool w) pm"
proof -
  let ?mg = "bs_event_pool_manager w" and ?a = "slot_of w 0"
  have pr: "pool_room ?mg (?mg, w_pool w) (Suc j)" "pm_one_element_size ?mg = sizeof_event"
    using room by (simp_all add: ev_room_def)
  obtain h where h: "ev_at (w_ev w) (bs_free_ev_head w) = Some h" "ev_next h = 0"
    using room by (auto simp: ev_room_def)
  from lp.alloc_room [OF pr(1), of "os_aligned_alloc os" "event_pool_addr w"] obtain mg' pm where
    al: "lt_alloc (os_aligned_alloc os) (event_pool_addr w) ?mg (w_pool w) = Some (?a, mg', pm)"
      "pool_room ?mg (mg', pm) j" "tail_next mg' pm = tail_next ?mg (w_pool w) + 88"
    by (auto simp: pool_alloc_def slot_of_def pr(2) sizeof_event_def)
  then have mg': "mg' = ?mg" by (simp add: pool_room_def)
  obtain blk where blk: "pool_at (w_pool w) (pm_tail ?mg) = Some blk"
      "tail_limit ?mg (w_pool w) = unat (mp_end blk)" "40 \<le> tail_next ?mg (w_pool w)"
    using room_block [OF room] by blast
  have a: "unat ?a = tail_next ?mg (w_pool w)" "unat ?a + 88 \<le> unat (mp_end blk)"
    using slot_of_unat [OF room, of 0] blk(2) by simp_all
  have free: "w_ev w (slot_of w i) = None" if "i < Suc j" for i
    using room that by (simp add: ev_room_def)
  have a0: "?a \<noteq> 0" using a(1) blk(3) by (metis not_numeral_le_zero unat_0)
  let ?w = "w\<lparr>w_pool := pm, w_ev := (w_ev w)(?a \<mapsto> os_junk os)\<rparr>"
  have slots: "slot_of ?w i = slot_of w (Suc i)" for i
    using al(3) mg' by (simp add: slot_of_def algebra_simps)
  have ne: "slot_of w (Suc i) \<noteq> ?a" if "i < j" for i
    using slot_of_unat(1) [OF room, of "Suc i"] a(1) that by (metis add_cancel_right_right mult_eq_0_iff
        nat.distinct(1) not_less_eq numeral_eq_iff zero_neq_numeral)
  have "bs_free_ev_head w \<noteq> ?a" using h(1) free [of 0] by (auto dest: ev_at_SomeD)
  then have "ev_room ?w j"
    using al(2) mg' pr(2) h free ne by (auto simp: ev_room_def slots)
  moreover have "lt_new_event os w = Some (?a, ?w)"
    using h al(1) mg' blk(1) a(2) by (simp add: lt_new_event_def new_event_at_def sizeof_event_def)
  moreover have "pool_kept (pm_tail ?mg) (w_pool w) pm"
    using alloc_kept [OF _ _ _ al(1), of "unat (pm_element_count ?mg) - Suc j"] pr(1) by (auto simp: pool_room_def)
  ultimately show ?thesis using free [of 0] a0 by blast
qed

lemma ev_room_idx:
  assumes "ev_room w j" "\<And>a. map_option ev_next (w_ev w' a) = map_option ev_next (w_ev w a)"
    and "bs_event_pool_manager w' = bs_event_pool_manager w" "w_pool w' = w_pool w"
      "bs_free_ev_head w' = bs_free_ev_head w"
  shows "ev_room w' j"
proof -
  have none: "w_ev w' a = None \<longleftrightarrow> w_ev w a = None" for a
    using assms(2) [of a] by (metis option.map_disc_iff)
  obtain h where "ev_at (w_ev w) (bs_free_ev_head w) = Some h" "ev_next h = 0"
    using assms(1) by (auto simp: ev_room_def)
  then have "\<exists>h'. ev_at (w_ev w') (bs_free_ev_head w') = Some h' \<and> ev_next h' = 0"
    using assms(2) [of "bs_free_ev_head w"] assms(5) by (auto simp: ev_at_def split: if_splits)
  with assms none show ?thesis by (simp add: ev_room_def slot_of_def)
qed

section \<open>Examples\<close>

text \<open>A base with an empty pool of 64 events and the head of the free list, for closed examples.\<close>

definition demo_lea :: lea where
  "demo_lea = \<lparr>bs_active_head = 0, bs_active_tail = 0,
     bs_event_pool_manager = \<lparr>pm_cur = 4096, pm_one_element_size = 88, pm_element_count = 64, pm_head = 4096,
       pm_tail = 4096, pm_heterogeneous_next = 0\<rparr>,
     bs_free_ev_head = 512, bs_epfd = 5, bs_timeheap = min_heap_constructor, w_self = 256,
     w_ev = [512 \<mapsto> demo_event 0 0],
     w_pool = [4096 \<mapsto> \<lparr>mp_start = 4096, mp_end = 9776, mp_pos = 4136, mp_next = 0, mp_manager = 280\<rparr>],
     w_calls = []\<rparr>"

definition demo_os :: os where
  "demo_os = \<lparr>os_aligned_alloc = \<lambda>_ _. 4096, os_realloc = demo_realloc, os_epoll_ctl = \<lambda>_ _. 0,
     os_junk = demo_event 7 7\<rparr>"

lemma demo_room: "ev_room demo_lea 64"
proof -
  have slot: "w_ev demo_lea (slot_of demo_lea i) = None" if "i < 64" for i
  proof -
    have "slot_of demo_lea i = word_of_nat (4136 + i * 88)"
      by (simp add: slot_of_def demo_lea_def tail_next_def pool_at_def)
    moreover have "unat (word_of_nat (4136 + i * 88) :: u64) = 4136 + i * 88"
      using that by (intro unat_of_nat64) simp
    ultimately have "unat (slot_of demo_lea i) \<noteq> unat (512 :: u64)" by simp
    then have "slot_of demo_lea i \<noteq> 512" by metis
    then show ?thesis by (simp add: demo_lea_def)
  qed
  have "pool_room (bs_event_pool_manager demo_lea) (bs_event_pool_manager demo_lea, w_pool demo_lea) 64"
    by (simp add: demo_lea_def pool_room_def well_sized_def tail_used_def pool_at_def)
  moreover have "pm_one_element_size (bs_event_pool_manager demo_lea) = sizeof_event"
    "ev_at (w_ev demo_lea) (bs_free_ev_head demo_lea) = Some (demo_event 0 0)" "ev_next (demo_event 0 0) = 0"
    by (simp_all add: demo_lea_def sizeof_event_def demo_event_def)
  ultimately show ?thesis using slot unfolding ev_room_def by blast
qed

lemma demo_heap_empty: "heap_inv (bs_timeheap demo_lea) (w_ev demo_lea)"
  by (simp add: demo_lea_def heap_inv_def min_heap_constructor_def)

section \<open>Registration properties\<close>

text \<open>The event \<open>lt_io_add\<close> makes when there is no timeout.\<close>

definition registered :: "os \<Rightarrow> 'a lea_scheme \<Rightarrow> int \<Rightarrow> 32 word \<Rightarrow> u64 \<Rightarrow> u64 \<Rightarrow> event" where
  "registered os w fd flag callback arg = (os_junk os)\<lparr>ev_callback := callback, ev_arg := arg, ev_flag := flag,
      ev_fd := fd, ev_deleted := 0, ev_next_active_ev := 0, ev_min_heap_idx := - 1, ev_base := w_self w\<rparr>"

lemma io_add_ok:
  assumes room: "ev_room w (Suc j)" and "timeout < 0" and e: "e = slot_of w 0"
  shows "\<exists>pm w'. lt_io_add os now w fd flag callback arg timeout = Some (e, w') \<and> e \<noteq> 0 \<and> w_ev w e = None \<and>
    w' = w\<lparr>w_pool := pm, w_ev := (w_ev w)(e \<mapsto> registered os w fd flag callback arg),
      w_calls := w_calls w @ [\<lparr>ec_epfd = bs_epfd w, ec_op = EPOLL_CTL_ADD, ec_fd = fd, ec_events = ep_mask flag, ec_ptr = e\<rparr>]\<rparr> \<and>
    ev_room w' j \<and> pool_kept (pm_tail (bs_event_pool_manager w)) (w_pool w) pm"
proof -
  obtain pm where n: "lt_new_event os w = Some (e, w\<lparr>w_pool := pm, w_ev := (w_ev w)(e \<mapsto> os_junk os)\<rparr>)"
    "w_ev w e = None" "e \<noteq> 0" "ev_room (w\<lparr>w_pool := pm, w_ev := (w_ev w)(e \<mapsto> os_junk os)\<rparr>) j"
    "pool_kept (pm_tail (bs_event_pool_manager w)) (w_pool w) pm"
    using new_event_ok [OF room] unfolding e by blast
  define w' where "w' = w\<lparr>w_pool := pm, w_ev := (w_ev w)(e \<mapsto> registered os w fd flag callback arg),
    w_calls := w_calls w @ [\<lparr>ec_epfd = bs_epfd w, ec_op = EPOLL_CTL_ADD, ec_fd = fd,
      ec_events = ep_mask flag, ec_ptr = e\<rparr>]\<rparr>"
  have "lt_io_add os now w fd flag callback arg timeout = Some (e, w')"
    using n assms(2)
    by (simp add: lt_io_add_def lt_ev_init_def set_timeout_def ev_set_def lt_add_to_epfd_def lt_epoll_ctl_def w'_def registered_def)
  moreover have "ev_room w' j" by (rule ev_room_idx [OF n(4)]) (simp_all add: w'_def registered_def)
  ultimately show ?thesis using n w'_def by blast
qed



text \<open>The heap does not see memory outside its events, nor what is not a position.\<close>

lemma heap_inv_mem:
  assumes "heap_inv s m" "\<And>x. x \<in> set (heap_elems s) \<Longrightarrow> map_option ev_min_heap_idx (m' x) = map_option ev_min_heap_idx (m x)"
  shows "heap_inv s m'"
proof -
  have "link m' (hp_p s ! i) i" if i: "i < hp_n s" for i
  proof -
    have "hp_p s ! i \<in> set (heap_elems s)"
      using i assms(1) by (auto simp: heap_elems_def heap_inv_def in_set_conv_nth intro!: exI [of _ i])
    moreover obtain ev where "hp_p s ! i \<noteq> 0" "m (hp_p s ! i) = Some ev" "ev_min_heap_idx ev = int i"
      using i assms(1) by (auto simp: heap_inv_def link_def dest: ev_at_SomeD)
    ultimately show ?thesis
      using assms(2) [of "hp_p s ! i"] by (auto simp: link_def ev_at_def)
  qed
  with assms(1) show ?thesis by (simp add: heap_inv_def)
qed

lemma heap_elem_live:
  "heap_inv s m \<Longrightarrow> x \<in> set (heap_elems s) \<Longrightarrow> \<exists>ev. ev_at m x = Some ev \<and> 0 \<le> ev_min_heap_idx ev"
  by (fastforce simp: heap_elems_def heap_inv_def link_def in_set_conv_nth)

lemma timeout_add_ok:
  assumes inv: "heap_inv (bs_timeheap w) (w_ev w)" and r: "realloc_ok (os_realloc os)"
    and n: "Suc (hp_n (bs_timeheap w)) < 2147483648"
    and e: "ev_at (w_ev w) e = Some ev" "e \<notin> set (heap_elems (bs_timeheap w))"
  shows "\<exists>w'. lt_timeout_add os now w e to = Some (lt_time_addition now to, w') \<and>
    heap_inv (bs_timeheap w') (w_ev w') \<and> same_events (w_ev w) (w_ev w') \<and>
    w' = w\<lparr>bs_timeheap := bs_timeheap w', w_ev := w_ev w'\<rparr> \<and>
    (mset (heap_elems (bs_timeheap w')) = add_mset e (mset (heap_elems (bs_timeheap w)))
     \<or> bs_timeheap w' = bs_timeheap w \<and> map_option ev_min_heap_idx (w_ev w' e) = Some (- 1))"
proof -
  let ?m = "(w_ev w)(e \<mapsto> ev\<lparr>ev_min_heap_idx := - 1\<rparr>)"
  have m: "min_heap_elem_init (w_ev w) e = Some ?m" using e(1) by (simp add: min_heap_elem_init_def ev_set_def)
  have inv': "heap_inv (bs_timeheap w) ?m" using e(2) by (intro heap_inv_mem [OF inv]) auto
  have same: "same_events (w_ev w) ?m" using e(1) by (intro same_events_idx) (auto dest: ev_at_SomeD)
  have "ev_at ?m e \<noteq> None" using e(1) by (auto dest: ev_at_SomeD)
  from push_ok [OF r inv' this e(2) n] obtain rc h m' where
    p: "min_heap_push (os_realloc os) (bs_timeheap w) ?m e = Some (rc, h, m')"
    and d: "rc = 0 \<and> heap_inv h m' \<and> same_events ?m m' \<and>
         mset (heap_elems h) = add_mset e (mset (heap_elems (bs_timeheap w)))
       \<or> rc = - 1 \<and> h = bs_timeheap w \<and> m' = ?m" by blast
  let ?w = "w\<lparr>w_ev := m', bs_timeheap := h\<rparr>"
  have "lt_timeout_add os now w e to = Some (lt_time_addition now to, ?w)"
    using m p by (simp add: lt_timeout_add_def)
  moreover have "heap_inv h m' \<and> same_events (w_ev w) m' \<and>
      (mset (heap_elems h) = add_mset e (mset (heap_elems (bs_timeheap w))) \<or>
       h = bs_timeheap w \<and> map_option ev_min_heap_idx (m' e) = Some (- 1))"
    using d inv' same by (auto intro: same_events_trans)
  moreover have "?w = w\<lparr>bs_timeheap := bs_timeheap ?w, w_ev := w_ev ?w\<rparr>" by simp
  ultimately show ?thesis by (intro exI [of _ ?w]) simp
qed

lemma same_events_fields:
  assumes "same_events m m'" "m a = Some ev"
  shows "\<exists>i. m' a = Some (ev\<lparr>ev_min_heap_idx := i\<rparr>)"
proof -
  have "map_option (ev_min_heap_idx_update (\<lambda>_. 0)) (m' a) = Some (ev\<lparr>ev_min_heap_idx := 0\<rparr>)"
    using assms unfolding same_events_def by (metis option.simps(9))
  then obtain ev' where e: "m' a = Some ev'" "ev'\<lparr>ev_min_heap_idx := 0\<rparr> = ev\<lparr>ev_min_heap_idx := 0\<rparr>"
    by auto
  have "ev' = ev'\<lparr>ev_min_heap_idx := 0, ev_min_heap_idx := ev_min_heap_idx ev'\<rparr>" by simp
  also have "\<dots> = ev\<lparr>ev_min_heap_idx := ev_min_heap_idx ev'\<rparr>" using e(2) by simp
  finally show ?thesis using e(1) by metis
qed

text \<open>
  \<open>lt_io_add\<close> with a timeout gives the new event the deadline now plus timeout and
  puts it into the timer heap, whose events stay linked to their slots; the other events keep all but their
  positions. When the heap cannot grow, the event is registered all the same, and has no place in the heap.
\<close>

theorem io_add_sets_deadline:
  assumes room: "ev_room w (Suc j)" and to: "0 \<le> timeout"
    and inv: "heap_inv (bs_timeheap w) (w_ev w)" and r: "realloc_ok (os_realloc os)"
    and n: "Suc (hp_n (bs_timeheap w)) < 2147483648"
  shows "\<exists>e w' i. lt_io_add os now w fd flag callback arg timeout = Some (e, w') \<and>
    e \<noteq> 0 \<and> w_ev w e = None \<and>
    w_ev w' e = Some ((os_junk os)\<lparr>ev_callback := callback, ev_arg := arg, ev_flag := flag,
      ev_fd := fd, ev_deleted := 0, ev_next_active_ev := 0, ev_min_heap_idx := i,
      ev_endtime := lt_time_addition now timeout, ev_base := w_self w\<rparr>) \<and>
    same_events (w_ev w) ((w_ev w')(e := None)) \<and>
    heap_inv (bs_timeheap w') (w_ev w') \<and>
    (mset (heap_elems (bs_timeheap w')) = add_mset e (mset (heap_elems (bs_timeheap w))) \<or>
     bs_timeheap w' = bs_timeheap w \<and> i = - 1)"
proof -
  let ?e = "slot_of w 0"
  obtain pm where nw: "lt_new_event os w = Some (?e, w\<lparr>w_pool := pm, w_ev := (w_ev w)(?e \<mapsto> os_junk os)\<rparr>)"
    "w_ev w ?e = None" "?e \<noteq> 0"
    using new_event_ok [OF room] by blast
  let ?ev = "(os_junk os)\<lparr>ev_callback := callback, ev_arg := arg, ev_flag := flag,
      ev_fd := fd, ev_deleted := 0, ev_next_active_ev := 0\<rparr>"
  define w1 where "w1 = w\<lparr>w_pool := pm, w_ev := (w_ev w)(?e \<mapsto> ?ev)\<rparr>"
  have out: "?e \<notin> set (heap_elems (bs_timeheap w))"
    using heap_elem_live [OF inv, of ?e] nw(2) by (auto simp: ev_at_def split: if_splits)
  have "heap_inv (bs_timeheap w1) (w_ev w1)"
    unfolding w1_def using out by (auto intro: heap_inv_mem [OF inv])
  then obtain w2 where w2: "lt_timeout_add os now w1 ?e timeout = Some (lt_time_addition now timeout, w2)"
      "heap_inv (bs_timeheap w2) (w_ev w2)" "same_events (w_ev w1) (w_ev w2)" "w2 = w1\<lparr>bs_timeheap := bs_timeheap w2, w_ev := w_ev w2\<rparr>"
      "mset (heap_elems (bs_timeheap w2)) = add_mset ?e (mset (heap_elems (bs_timeheap w1)))
       \<or> bs_timeheap w2 = bs_timeheap w1 \<and> map_option ev_min_heap_idx (w_ev w2 ?e) = Some (- 1)"
    using timeout_add_ok [of w1 os ?e ?ev now timeout] r n out nw(3) by (simp add: w1_def) blast
  have w2_rest: "w_calls w2 = w_calls w" "bs_epfd w2 = bs_epfd w" "w_self w2 = w_self w"
    by (subst w2(4), simp add: w1_def)+
  obtain i where i: "w_ev w2 ?e = Some (?ev\<lparr>ev_min_heap_idx := i\<rparr>)"
    using same_events_fields [OF w2(3), of ?e ?ev] by (auto simp: w1_def)
  let ?ev' = "?ev\<lparr>ev_min_heap_idx := i, ev_endtime := lt_time_addition now timeout, ev_base := w_self w\<rparr>"
  define w' where "w' = w2\<lparr>w_ev := (w_ev w2)(?e \<mapsto> ?ev'),
    w_calls := w_calls w @ [\<lparr>ec_epfd = bs_epfd w, ec_op = EPOLL_CTL_ADD, ec_fd = fd,
      ec_events = ep_mask flag, ec_ptr = ?e\<rparr>]\<rparr>"
  have "lt_io_add os now w fd flag callback arg timeout = Some (?e, w')"
    using nw to w2(1) w2_rest i
    by (simp add: lt_io_add_def lt_ev_init_def set_timeout_def ev_set_def lt_add_to_epfd_def lt_epoll_ctl_def
        w'_def w1_def ev_at_def)
  moreover have "heap_inv (bs_timeheap w') (w_ev w')"
    unfolding w'_def using i by (auto intro: heap_inv_mem [OF w2(2)])
  moreover have "same_events (w_ev w) ((w_ev w')(?e := None))"
    using w2(3) nw(2) by (auto simp: same_events_def w'_def w1_def split: if_splits)
  ultimately show ?thesis
    using nw w2(5) i by (intro exI [of _ ?e] exI [of _ w'] exI [of _ i]) (auto simp: w'_def w1_def)
qed

theorem io_add_sets_deadline_witness:
  "\<exists>e w'. lt_io_add demo_os \<lparr>tv_sec = 1, tv_nsec = 0\<rparr> demo_lea 3 LV_FDRD 77 99 500 = Some (e, w') \<and>
     map_option ev_endtime (w_ev w' e) = Some (lt_time_addition \<lparr>tv_sec = 1, tv_nsec = 0\<rparr> 500)"
proof -
  have "realloc_ok (os_realloc demo_os)" "Suc (hp_n (bs_timeheap demo_lea)) < 2147483648" "ev_room demo_lea (Suc 63)"
    using demo_realloc_ok demo_room by (simp_all add: demo_os_def demo_lea_def min_heap_constructor_def)
  with io_add_sets_deadline [OF this(3) _ demo_heap_empty, of 500 demo_os "\<lparr>tv_sec = 1, tv_nsec = 0\<rparr>" 3 LV_FDRD 77 99]
  show ?thesis by fastforce
qed

text \<open>
  \<open>lt_new_post_callback\<close> initialises an event and leaves it at that: nothing is on the active list, in the heap or known to epoll that was
  not before, so no loop ever calls the callback.
\<close>

lemma post_callback_nowhere:
  assumes "lt_new_post_callback os w cb fd arg = Some (rv, w')"
  shows "rv = 0 \<and> bs_active_head w' = bs_active_head w \<and> bs_active_tail w' = bs_active_tail w \<and> bs_timeheap w' = bs_timeheap w \<and>
    w_calls w' = w_calls w"
  using assms by (auto simp: lt_new_post_callback_def lt_new_event_def Let_def split: Option.bind_splits if_splits)

text \<open>
  \<open>lt_io_remove\<close> takes an event with a timeout out of the heap (unless it is in the last
  slot), leaves the heap alone for an event without one, tells epoll once to forget the event's descriptor, and
  marks the event deleted.
\<close>

theorem io_remove_unregisters:
  assumes inv: "heap_inv (bs_timeheap w) (w_ev w)" and e: "ev_at (w_ev w) e = Some ev"
    and pos: "ev_min_heap_idx ev = - 1 \<or> i < hp_n (bs_timeheap w) - 1 \<and> e = hp_p (bs_timeheap w) ! i"
  shows "\<exists>w' ev'. lt_io_remove os w e = Some w' \<and> heap_inv (bs_timeheap w') (w_ev w') \<and>
    mset (heap_elems (bs_timeheap w')) = mset (heap_elems (bs_timeheap w)) - {#e#} \<and>
    ev_at (w_ev w') e = Some ev' \<and> ev_min_heap_idx ev' = - 1 \<and> ev_deleted ev' = 1 \<and>
    w_calls w' = w_calls w @ [\<lparr>ec_epfd = bs_epfd w, ec_op = EPOLL_CTL_DEL, ec_fd = ev_fd ev,
      ec_events = 0, ec_ptr = 0\<rparr>]"
proof -
  have e0: "e \<noteq> 0" "w_ev w e = Some ev" using ev_at_SomeD [OF e] by auto
  define gone where "gone = (if ev_min_heap_idx ev \<noteq> - 1 then do {
      (_, h, m) \<leftarrow> min_heap_erase (bs_timeheap w) (w_ev w) e;
      Some (w\<lparr>bs_timeheap := h, w_ev := m\<rparr>)
    } else Some w)"
  have "\<exists>h m ev1. gone = Some (w\<lparr>bs_timeheap := h, w_ev := m\<rparr>) \<and> heap_inv h m \<and>
      mset (heap_elems h) = mset (heap_elems (bs_timeheap w)) - {#e#} \<and>
      m e = Some ev1 \<and> ev_min_heap_idx ev1 = - 1 \<and> ev_fd ev1 = ev_fd ev"
  proof (cases "ev_min_heap_idx ev = - 1")
    case True
    then have "e \<notin> set (heap_elems (bs_timeheap w))"
      using heap_elem_live [OF inv, of e] e by auto
    then have "mset (heap_elems (bs_timeheap w)) = mset (heap_elems (bs_timeheap w)) - {#e#}"
      by (simp add: diff_single_trivial)
    with True inv e0 show ?thesis
      by (intro exI [of _ "bs_timeheap w"] exI [of _ "w_ev w"] exI [of _ ev]) (simp add: gone_def)
  next
    case False
    then have i: "i < hp_n (bs_timeheap w)" "i < hp_n (bs_timeheap w) - 1" "e = hp_p (bs_timeheap w) ! i"
      using pos by auto
    from erase_ok [OF inv i(1) disjI1 [OF i(2)]] obtain h m ev1 where
      er: "min_heap_erase (bs_timeheap w) (w_ev w) e = Some (0, h, m)" "heap_inv h m" "same_events (w_ev w) m"
        "add_mset e (mset (heap_elems h)) = mset (heap_elems (bs_timeheap w))" "ev_at m e = Some ev1"
        "ev_min_heap_idx ev1 = - 1" by (auto simp: i(3))
    moreover obtain k where "m e = Some (ev\<lparr>ev_min_heap_idx := k\<rparr>)"
      using same_events_fields [OF er(3) e0(2)] by blast
    ultimately show ?thesis
      using False e0
      by (intro exI [of _ h] exI [of _ m] exI [of _ ev1]) (auto simp: gone_def ev_at_def er(4) [symmetric])
  qed
  then obtain h m ev1 where h: "gone = Some (w\<lparr>bs_timeheap := h, w_ev := m\<rparr>)" "heap_inv h m"
      "mset (heap_elems h) = mset (heap_elems (bs_timeheap w)) - {#e#}"
      "m e = Some ev1" "ev_min_heap_idx ev1 = - 1" "ev_fd ev1 = ev_fd ev" by blast
  let ?m = "m(e \<mapsto> ev1\<lparr>ev_deleted := 1\<rparr>)"
  let ?c = "\<lparr>ec_epfd = bs_epfd w, ec_op = EPOLL_CTL_DEL, ec_fd = ev_fd ev, ec_events = 0, ec_ptr = 0\<rparr>"
  have "lt_io_remove os w e = Some (w\<lparr>bs_timeheap := h, w_ev := ?m, w_calls := w_calls w @ [?c]\<rparr>)"
    using e h(1,4,6) e0(1)
    by (simp add: gone_def lt_io_remove_def lt_remove_from_epfd_def lt_epoll_ctl_def ev_set_def ev_at_def)
  moreover have "heap_inv h ?m" using h(4) by (auto intro: heap_inv_mem [OF h(2)])
  ultimately show ?thesis using h(3,5) e0(1) by auto
qed

theorem io_remove_unregisters_witness:
  "\<exists>w' ev'. lt_io_remove demo_os (demo_lea\<lparr>bs_timeheap := demo_heap, w_ev := demo_events\<rparr>) (hp_p demo_heap ! 0) = Some w' \<and>
     ev_at (w_ev w') (hp_p demo_heap ! 0) = Some ev' \<and> ev_deleted ev' = 1"
proof -
  let ?w = "demo_lea\<lparr>bs_timeheap := demo_heap, w_ev := demo_events\<rparr>"
  have inv: "heap_inv (bs_timeheap ?w) (w_ev ?w)" using demo_heap_inv by simp
  have n: "0 < hp_n demo_heap - 1" by (simp add: demo_n)
  have "ev_at (w_ev ?w) (hp_p demo_heap ! 0) = Some (demo_event 1 0)"
    by (simp add: demo_heap_def demo_events_def ev_at_def)
  from io_remove_unregisters [OF inv this, of 0 demo_os] n show ?thesis by auto
qed

lemma base_init_ok:
  assumes "malloc_base \<noteq> 0" "epfd \<noteq> - 1" "malloc_head \<noteq> 0"
    and args: "pool_args (os_aligned_alloc os) (malloc_base + 24) sizeof_event EVENT_POOL_LENGTH (w_pool w)"
    and blk: "blk = os_aligned_alloc os (w_pool w) (sizeof_pool_manager + EVENT_POOL_LENGTH * sizeof_event)"
    and apart: "\<forall>a. w_ev w a \<noteq> None \<or> a = malloc_head \<longrightarrow>
      unat a < unat blk \<or> unat blk + 48 + 64 * 88 \<le> unat a"
  shows "\<exists>mg pm w'. lt_base_init os malloc_base epfd malloc_head w = Some (malloc_base, w') \<and>
    w' = w\<lparr>w_self := malloc_base, bs_epfd := epfd, bs_free_ev_head := malloc_head,
      w_ev := (w_ev w)(malloc_head \<mapsto> (os_junk os)\<lparr>ev_next := 0\<rparr>), bs_active_head := 0, bs_event_pool_manager := mg, w_pool := pm,
      bs_timeheap := min_heap_constructor\<rparr> \<and>
    ev_room w' 64 \<and> pm_tail mg = blk \<and> (\<forall>t. t \<noteq> blk \<longrightarrow> pm t = w_pool w t) \<and>
    (\<exists>h. pm blk = Some h \<and> mp_start h = blk \<and> mp_end h = blk + (sizeof_pool_manager + EVENT_POOL_LENGTH * sizeof_event))"
proof -
  let ?m = "(w_ev w)(malloc_head \<mapsto> (os_junk os)\<lparr>ev_next := 0\<rparr>)"
  obtain mg pm where mg: "lt_new_memory_pool_manager (os_aligned_alloc os) 0 (malloc_base + 24)
      (bs_event_pool_manager w) sizeof_event EVENT_POOL_LENGTH (w_pool w) = Some (malloc_base + 24, mg, pm)"
    "pool_room mg (mg, pm) 64" "pm_one_element_size mg = sizeof_event"
    "tail_next mg pm = unat blk + 40" "pm_tail mg = blk" "\<forall>t. t \<noteq> blk \<longrightarrow> pm t = w_pool w t"
    "\<exists>h. pm blk = Some h \<and> mp_start h = blk \<and> mp_end h = blk + (sizeof_pool_manager + EVENT_POOL_LENGTH * sizeof_event)"
    using new_manager_room [OF args, of 0 "bs_event_pool_manager w"]
    by (auto simp: blk EVENT_POOL_LENGTH_def)
  define w' where "w' = w\<lparr>w_self := malloc_base, bs_epfd := epfd, bs_free_ev_head := malloc_head,
    w_ev := ?m, bs_active_head := 0, bs_event_pool_manager := mg, w_pool := pm,
    bs_timeheap := min_heap_constructor\<rparr>"
  have "lt_base_init os malloc_base epfd malloc_head w = Some (malloc_base, w')"
    using assms(1-3) mg(1) by (simp add: lt_base_init_def ev_set_def event_pool_addr_def w'_def)
  moreover have "?m (slot_of w' i) = None" if i: "i < 64" for i
  proof -
    have "unat (slot_of w' i) = unat blk + 40 + i * 88"
      using lp.slot_unat(1) [OF mg(2) i] mg(3,4) by (simp add: slot_of_def w'_def sizeof_event_def)
    then show ?thesis using apart i by auto
  qed
  then have "ev_room w' 64" using mg(2,3) assms(3) by (auto simp: w'_def ev_room_def)
  ultimately show ?thesis using mg(5-7) by (intro exI [of _ mg] exI [of _ pm] exI [of _ w']) (simp add: w'_def)
qed

text \<open>
  \<open>lt_base_init\<close>, when its allocations succeed, leaves a base with room for 64 events, an
  empty timer heap and an empty active list.
\<close>

theorem base_init_ready:
  assumes "malloc_base \<noteq> 0" "epfd \<noteq> - 1" "malloc_head \<noteq> 0"
    and args: "pool_args (os_aligned_alloc os) (malloc_base + 24) sizeof_event EVENT_POOL_LENGTH (w_pool w)"
    and blk: "blk = os_aligned_alloc os (w_pool w) (sizeof_pool_manager + EVENT_POOL_LENGTH * sizeof_event)"
    and apart: "\<forall>a. w_ev w a \<noteq> None \<or> a = malloc_head \<longrightarrow>
      unat a < unat blk \<or> unat blk + 48 + 64 * 88 \<le> unat a"
  shows "\<exists>w'. lt_base_init os malloc_base epfd malloc_head w = Some (malloc_base, w') \<and>
    ev_room w' 64 \<and> heap_inv (bs_timeheap w') (w_ev w') \<and> heap_elems (bs_timeheap w') = [] \<and>
    bs_epfd w' = epfd \<and> bs_active_head w' = 0"
  using base_init_ok [OF assms] by (auto simp: heap_inv_def heap_elems_def min_heap_constructor_def)

theorem base_init_ready_witness:
  "\<exists>w'. lt_base_init demo_os 256 5 512 (demo_lea\<lparr>w_ev := Map.empty, w_pool := Map.empty\<rparr>) = Some (256, w') \<and> ev_room w' 64"
proof -
  let ?w = "demo_lea\<lparr>w_ev := Map.empty, w_pool := Map.empty\<rparr>"
  have "pool_args (os_aligned_alloc demo_os) (256 + 24) sizeof_event EVENT_POOL_LENGTH (w_pool ?w)"
    by (simp add: demo_os_def pool_args_def fresh_block_def sizeof_event_def EVENT_POOL_LENGTH_def
        sizeof_pool_manager_def)
  moreover have "(4096 :: u64) = os_aligned_alloc demo_os (w_pool ?w)
      (sizeof_pool_manager + EVENT_POOL_LENGTH * sizeof_event)" by (simp add: demo_os_def)
  moreover have "\<forall>a. w_ev ?w a \<noteq> None \<or> a = 512 \<longrightarrow>
      unat a < unat (4096 :: u64) \<or> unat (4096 :: u64) + 48 + 64 * 88 \<le> unat a" by simp
  ultimately show ?thesis
    using base_init_ready [of 256 5 512 demo_os ?w 4096] by auto
qed

text \<open>
  Claim C39: an event given back with \<open>lt_del_event\<close> cannot be had again: the list has no
  sentinel behind its last element, so \<open>lt_new_event\<close> writes through the null pointer in its \<open>next\<close>.
\<close>

theorem free_list_reuse_undefined:
  assumes "ev_at (w_ev w) (bs_free_ev_head w) = Some h" "ev_next h = 0"
    and "ev_at (w_ev w) e = Some ev" "e \<noteq> bs_free_ev_head w" "ev_next ev = 0"
  shows "\<exists>w'. lt_del_event w e = Some w' \<and> lt_new_event os w' = None"
proof -
  let ?m = "(w_ev w)(bs_free_ev_head w \<mapsto> h\<lparr>ev_next := e\<rparr>, e \<mapsto> ev\<lparr>ev_prev := bs_free_ev_head w\<rparr>)"
  have nz: "bs_free_ev_head w \<noteq> 0" "e \<noteq> 0" using assms(1,3) by (auto dest: ev_at_SomeD)
  then have del: "lt_del_event w e = Some (w\<lparr>w_ev := ?m\<rparr>)"
    using assms by (simp add: lt_del_event_def ev_set_def)
  have "lt_new_event os (w\<lparr>w_ev := ?m\<rparr>) = None"
    using assms nz by (simp add: lt_new_event_def ev_set_def ev_at_def)
  with del show ?thesis by blast
qed

theorem free_list_reuse_undefined_witness:
  "\<exists>w'. lt_del_event (demo_lea\<lparr>w_ev := [512 \<mapsto> demo_event 0 0, 600 \<mapsto> demo_event 1 0]\<rparr>) 600 = Some w' \<and>
     lt_new_event demo_os w' = None"
  using free_list_reuse_undefined [of "demo_lea\<lparr>w_ev := [512 \<mapsto> demo_event 0 0, 600 \<mapsto> demo_event 1 0]\<rparr>"
      "demo_event 0 0" 600 "demo_event 1 0" demo_os]
  by (simp add: demo_lea_def demo_event_def)

section \<open>Dispatch\<close>

text \<open>The reference: the callbacks of a list of events, one after the other.\<close>

fun run_calls :: "'a callbacks \<Rightarrow> u64 list \<Rightarrow> 'a lea_scheme \<Rightarrow> 'a lea_scheme option" where
  "run_calls call [] w = Some w"
| "run_calls call (a # as) w = do {
     ev \<leftarrow> ev_at (w_ev w) a;
     w' \<leftarrow> call (ev_callback ev) a (ev_arg ev) w;
     run_calls call as w'
   }"

definition quiet :: "'a lea_scheme \<Rightarrow> bool" where
  "quiet w \<longleftrightarrow> bs_active_head w = 0 \<and> bs_active_tail w = 0 \<and>
     (\<forall>a ev. w_ev w a = Some ev \<longrightarrow> ev_flag ev AND LV_LAG = 0)"

text \<open>Callbacks that leave the active list alone and set no event lagging.\<close>

definition keeps_quiet :: "'a callbacks \<Rightarrow> bool" where
  "keeps_quiet call \<longleftrightarrow> (\<forall>f a arg w w'. quiet w \<longrightarrow> call f a arg w = Some w' \<longrightarrow> quiet w')"

definition ready_ptrs :: "ready list \<Rightarrow> u64 list" where
  "ready_ptrs evs = map fst (filter (\<lambda>(p, e). is_ready e) evs)"

lemma ready_ptrs_simps [simp]:
  "ready_ptrs [] = []" "ready_ptrs ((p, e) # evs) = (if is_ready e then p # ready_ptrs evs else ready_ptrs evs)"
  by (simp_all add: ready_ptrs_def)

lemma quiet_no_lag: "quiet w \<Longrightarrow> ev_at (w_ev w) a = Some ev \<Longrightarrow> ev_flag ev AND LV_LAG = 0"
  by (auto simp: quiet_def dest: ev_at_SomeD)

lemma run_calls_quiet:
  "keeps_quiet call \<Longrightarrow> quiet w \<Longrightarrow> run_calls call as w = Some w' \<Longrightarrow> quiet w'"
proof (induction as arbitrary: w)
  case (Cons a as)
  then obtain ev :: event and w1 where "call (ev_callback ev) a (ev_arg ev) w = Some w1" "run_calls call as w1 = Some w'"
    by (simp add: bind_eq_Some_conv) blast
  with Cons.IH [of w1] Cons.prems show ?case by (auto simp: keeps_quiet_def)
qed simp

lemma run_calls_append: "run_calls call (as @ bs) w = run_calls call as w \<bind> run_calls call bs"
  by (induction as arbitrary: w) (simp_all split: Option.bind_splits)

lemma actlist_first_quiet:
  "keeps_quiet call \<Longrightarrow> quiet w \<Longrightarrow>
    actlist_first call evs w = map_option (\<lambda>w'. (w', [])) (run_calls call (ready_ptrs evs) w)"
proof (induction evs arbitrary: w)
  case (Cons r evs)
  obtain p e where r: "r = (p, e)" by (cases r)
  show ?case
  proof (cases "is_ready e")
    case True
    show ?thesis
    proof (cases "ev_at (w_ev w) p")
      case None
      with True r show ?thesis by simp
    next
      case (Some ev)
      have lag: "ev_flag ev AND LV_LAG = 0" using quiet_no_lag [OF Cons.prems(2) Some] .
      show ?thesis
      proof (cases "call (ev_callback ev) p (ev_arg ev) w")
        case None
        with True Some lag r show ?thesis by simp
      next
        case (Some w1)
        then have "quiet w1" using Cons.prems unfolding keeps_quiet_def by blast
        with Cons.IH [OF Cons.prems(1)] True Some \<open>ev_at _ _ = _\<close> lag r show ?thesis by simp
      qed
    qed
  next
    case False
    with Cons r show ?thesis by simp
  qed
qed simp

lemma init_actlist_quiet:
  assumes "keeps_quiet call" "quiet w"
  shows "lt_loop_init_actlist call evs w = run_calls call (ready_ptrs evs) w"
proof (cases "run_calls call (ready_ptrs evs) w")
  case None
  with actlist_first_quiet [OF assms] show ?thesis by (simp add: lt_loop_init_actlist_def)
next
  case (Some w')
  have "bs_active_head w' = bs_active_tail w'"
    using run_calls_quiet [OF assms Some] by (simp add: quiet_def)
  with Some actlist_first_quiet [OF assms] show ?thesis by (simp add: lt_loop_init_actlist_def)
qed

lemma process_quiet: "quiet w \<Longrightarrow> lt_ev_process_and_moveout call now w = Some (Some w)"
proof -
  assume q: "quiet w"
  then have "process_loop call now (bs_active_head w) w = Some (Some w)"
    by (subst process_loop.simps) (simp add: quiet_def)
  with q show ?thesis by (simp add: lt_ev_process_and_moveout_def quiet_def)
qed

definition round_ptrs :: "round \<Rightarrow> u64 list" where
  "round_ptrs r = ready_ptrs (take (nat (rd_ready r)) (rd_events r))"

lemma loops_in_order:
  assumes call: "keeps_quiet call" and w: "quiet w"
    and ok: "\<forall>r \<in> set rounds. rd_ready r \<noteq> - 1 \<or> rd_eintr r"
  shows "lt_base_loop call NO_TIMEOUT start rounds w =
    map_option Waiting (run_calls call (concat (map round_ptrs rounds)) w)"
  using w ok unfolding lt_base_loop_def
proof (induction rounds arbitrary: w)
  case (Cons r rs)
  have go: "\<not> time_a_gt_b (lt_time_a_sub_b (rd_after r) start) NO_TIMEOUT"
    by (rule no_timeout_no_expiry)
  have up: "\<not> (rd_ready r = - 1 \<and> \<not> rd_eintr r)" using Cons.prems(2) by auto
  show ?case
  proof (cases "run_calls call (round_ptrs r) w")
    case None
    with up go init_actlist_quiet [OF call Cons.prems(1)] show ?thesis
      by (simp add: run_calls_append round_ptrs_def)
  next
    case (Some w1)
    then have q: "quiet w1" using run_calls_quiet [OF call Cons.prems(1)] by blast
    with Some up Cons.prems(2) Cons.IH [OF q] go init_actlist_quiet [OF call Cons.prems(1)] process_quiet [OF q]
    show ?thesis by (auto simp: run_calls_append round_ptrs_def)
  qed
qed simp


text \<open>Callbacks that only leave a note, and two events.\<close>

definition note_call :: "unit callbacks" where
  "note_call f a arg w = Some (w\<lparr>w_calls := w_calls w @
     [\<lparr>ec_epfd = 0, ec_op = EPOLL_CTL_MOD, ec_fd = 0, ec_events = 0, ec_ptr = a\<rparr>]\<rparr>)"


section \<open>Stale links\<close>

text \<open>Callbacks that return and do not touch the events.\<close>

definition leaves_events :: "'a callbacks \<Rightarrow> bool" where
  "leaves_events call \<longleftrightarrow> (\<forall>f a arg w. \<exists>w'. call f a arg w = Some w' \<and> w_ev w' = w_ev w)"

lemma process_event_marks:
  assumes "leaves_events call" "ev_at (w_ev w) x = Some e"
  shows "\<exists>w' d. process_event call now x w = Some w' \<and> w_ev w' = (w_ev w)(x \<mapsto> e\<lparr>ev_deleted := d\<rparr>)"
proof -
  obtain w1 where w1: "call (ev_callback e) x (ev_arg e) w = Some w1" "w_ev w1 = w_ev w"
    using assms(1) unfolding leaves_events_def by blast
  have x: "w_ev w x = Some e" using ev_at_SomeD [OF assms(2)] by simp
  then have "\<exists>d. w_ev w = (w_ev w)(x \<mapsto> e\<lparr>ev_deleted := d\<rparr>)"
    by (intro exI [of _ "ev_deleted e"]) (simp add: fun_upd_idem)
  with w1 assms(2) show ?thesis
    by (cases "lt_ev_check_timeout (ev_endtime e) now \<noteq> 0"; cases "ev_deleted e \<noteq> 0")
       (auto simp: process_event_def ev_set_def)
qed

text \<open>Two events whose links lead to each other.\<close>

definition linked_pair :: "u64 \<Rightarrow> u64 \<Rightarrow> 'a lea_scheme \<Rightarrow> bool" where
  "linked_pair a b w \<longleftrightarrow> a \<noteq> b \<and> (\<exists>ea eb. ev_at (w_ev w) a = Some ea \<and> ev_at (w_ev w) b = Some eb \<and>
     ev_next_active_ev ea = b \<and> ev_next_active_ev eb = a)"

lemma linked_pair_sym: "linked_pair a b w \<Longrightarrow> linked_pair b a w"
  by (auto simp: linked_pair_def)

lemma linked_pair_step:
  assumes "leaves_events call" "linked_pair a b w"
  shows "\<exists>w' e. process_event call now a w = Some w' \<and> ev_at (w_ev w') a = Some e \<and>
    ev_next_active_ev e = b \<and> linked_pair b a w'"
proof -
  obtain ea eb where e: "a \<noteq> b" "ev_at (w_ev w) a = Some ea" "ev_at (w_ev w) b = Some eb"
      "ev_next_active_ev ea = b" "ev_next_active_ev eb = a"
    using assms(2) by (auto simp: linked_pair_def)
  obtain w' d where "process_event call now a w = Some w'" "w_ev w' = (w_ev w)(a \<mapsto> ea\<lparr>ev_deleted := d\<rparr>)"
    using process_event_marks [OF assms(1) e(2)] by blast
  with e show ?thesis by (auto simp: linked_pair_def ev_at_def)
qed

lemma process_loop_hangs:
  assumes "leaves_events call"
  shows "linked_pair a b w \<Longrightarrow> process_loop call now a w = None"
proof (rule ccontr)
  assume l: "linked_pair a b w" and "process_loop call now a w \<noteq> None"
  then obtain y where y: "process_loop call now a w = Some y" by blast
  have "\<not> (call = call \<and> now = now \<and> (\<exists>x'. linked_pair a x' w))"
  proof (rule process_loop.raw_induct
      [where P = "\<lambda>c n x w y. \<not> (c = call \<and> n = now \<and> (\<exists>x'. linked_pair x x' w))", OF _ y])
    fix loop c n x w y
    assume IH: "\<And>c n x w y. loop c n x w = Some y \<Longrightarrow> \<not> (c = call \<and> n = now \<and> (\<exists>x'. linked_pair x x' w))"
      and body: "(if x = 0 then Some (Some w) else case process_event c n x w of None \<Rightarrow> Some None
        | Some w' \<Rightarrow> (case ev_at (w_ev w') x of None \<Rightarrow> Some None
             | Some e \<Rightarrow> loop c n (ev_next_active_ev e) w')) = Some y"
    show "\<not> (c = call \<and> n = now \<and> (\<exists>x'. linked_pair x x' w))"
    proof
      assume "c = call \<and> n = now \<and> (\<exists>x'. linked_pair x x' w)"
      then obtain x' where c: "c = call" "n = now" "linked_pair x x' w" by blast
      then have "x \<noteq> 0" by (auto simp: linked_pair_def ev_at_def)
      moreover obtain w' e where "process_event call now x w = Some w'" "ev_at (w_ev w') x = Some e"
          "ev_next_active_ev e = x'" "linked_pair x' x w'"
        using linked_pair_step [OF assms c(3)] by blast
      ultimately show False using body IH [of call now x' w' y] c by auto
    qed
  qed
  with l show False by blast
qed


lemma process_pair:
  assumes call: "leaves_events call" and ab: "a \<noteq> b" "bs_active_head w = a"
    and ea: "ev_at (w_ev w) a = Some ea" "ev_next_active_ev ea = b"
    and eb: "ev_at (w_ev w) b = Some eb" "ev_next_active_ev eb = 0"
  shows "\<exists>w' da db. lt_ev_process_and_moveout call now w = Some (Some w') \<and>
    w_ev w' = (w_ev w)(a \<mapsto> ea\<lparr>ev_deleted := da\<rparr>, b \<mapsto> eb\<lparr>ev_deleted := db\<rparr>)"
proof -
  have nz: "a \<noteq> 0" "b \<noteq> 0" using ea(1) eb(1) by (auto dest: ev_at_SomeD)
  obtain w1 da where w1: "process_event call now a w = Some w1" "w_ev w1 = (w_ev w)(a \<mapsto> ea\<lparr>ev_deleted := da\<rparr>)"
    using process_event_marks [OF call ea(1)] by blast
  then have eb1: "ev_at (w_ev w1) b = Some eb" using eb(1) ab(1) by simp
  obtain w2 db where w2: "process_event call now b w1 = Some w2" "w_ev w2 = (w_ev w1)(b \<mapsto> eb\<lparr>ev_deleted := db\<rparr>)"
    using process_event_marks [OF call eb1] by blast
  have "process_loop call now a w = process_loop call now b w1"
    using nz w1 ea(2) by (subst process_loop.simps) (simp add: ev_at_def)
  also have "\<dots> = process_loop call now 0 w2"
    using nz w2 eb(2) by (subst process_loop.simps) (simp add: ev_at_def)
  also have "\<dots> = Some (Some w2)" by (subst process_loop.simps) simp
  finally show ?thesis
    using ab(2) w1(2) w2(2) by (auto simp: lt_ev_process_and_moveout_def)
qed

lemma init_actlist_pair:
  assumes ab: "a \<noteq> b" "is_ready ra" "is_ready rb"
    and ea: "ev_at (w_ev w) a = Some ea" "ev_flag ea AND LV_LAG \<noteq> 0"
    and eb: "ev_at (w_ev w) b = Some eb" "ev_flag eb AND LV_LAG \<noteq> 0"
  shows "lt_loop_init_actlist call [(a, ra), (b, rb)] w =
    Some (w\<lparr>bs_active_head := a, bs_active_tail := b, w_ev := (w_ev w)(a \<mapsto> ea\<lparr>ev_next_active_ev := b\<rparr>)\<rparr>)"
  using assms by (simp add: lt_loop_init_actlist_def ev_set_def)

text \<open>
  Claim C40: \<open>next_active_ev\<close> is never cleared. Two lagging events that become ready together once, and
  then again in the other order, are linked in a circle, and \<open>lt_ev_process_and_moveout\<close> does not return.
\<close>

theorem stale_active_links_hang:
  assumes call: "leaves_events call" and ab: "a \<noteq> b" "is_ready ra" "is_ready rb"
    and ea: "ev_at (w_ev w) a = Some ea" "ev_flag ea AND LV_LAG \<noteq> 0"
    and eb: "ev_at (w_ev w) b = Some eb" "ev_flag eb AND LV_LAG \<noteq> 0" "ev_next_active_ev eb = 0"
  shows "lt_base_loop call NO_TIMEOUT start
    (\<lparr>rd_ready = 2, rd_eintr = False, rd_events = [(a, ra), (b, rb)], rd_after = t1\<rparr> #
     \<lparr>rd_ready = 2, rd_eintr = False, rd_events = [(b, rb), (a, ra)], rd_after = t2\<rparr> # rounds) w = Some Hung"
proof -
  let ?w1 = "w\<lparr>bs_active_head := a, bs_active_tail := b, w_ev := (w_ev w)(a \<mapsto> ea\<lparr>ev_next_active_ev := b\<rparr>)\<rparr>"
  have nz: "a \<noteq> 0" "b \<noteq> 0" using ea(1) eb(1) by (auto dest: ev_at_SomeD)
  have i1: "lt_loop_init_actlist call [(a, ra), (b, rb)] w = Some ?w1"
    by (rule init_actlist_pair [OF ab ea eb(1,2)])
  have "ev_at (w_ev ?w1) a = Some (ea\<lparr>ev_next_active_ev := b\<rparr>)" "ev_at (w_ev ?w1) b = Some eb"
    using nz ab(1) eb(1) by (simp_all add: ev_at_def)
  from process_pair [OF call ab(1) _ this(1) _ this(2) eb(3), of t1]
  obtain w2 da db where p1: "lt_ev_process_and_moveout call t1 ?w1 = Some (Some w2)"
      "w_ev w2 = (w_ev ?w1)(a \<mapsto> ea\<lparr>ev_next_active_ev := b, ev_deleted := da\<rparr>, b \<mapsto> eb\<lparr>ev_deleted := db\<rparr>)"
    by auto
  let ?w3 = "w2\<lparr>bs_active_head := b, bs_active_tail := a,
    w_ev := (w_ev w2)(b \<mapsto> eb\<lparr>ev_deleted := db, ev_next_active_ev := a\<rparr>)\<rparr>"
  have i2: "lt_loop_init_actlist call [(b, rb), (a, ra)] w2 = Some ?w3"
    using ab ea(2) eb(2) nz p1(2)
    by (subst init_actlist_pair [where ea = "eb\<lparr>ev_deleted := db\<rparr>"
          and eb = "ea\<lparr>ev_next_active_ev := b, ev_deleted := da\<rparr>"]) (auto simp: ev_at_def)
  have "linked_pair b a ?w3" using ab(1) nz p1(2) by (auto simp: linked_pair_def ev_at_def)
  then have p2: "lt_ev_process_and_moveout call t2 ?w3 = None"
    using process_loop_hangs [OF call, of b a ?w3 t2] by (simp add: lt_ev_process_and_moveout_def)
  show ?thesis
    using i1 i2 p1(1) p2 no_timeout_no_expiry by (simp add: lt_base_loop_def)
qed

theorem stale_active_links_hang_witness:
  "lt_base_loop note_call NO_TIMEOUT \<lparr>tv_sec = 1, tv_nsec = 0\<rparr>
    [\<lparr>rd_ready = 2, rd_eintr = False, rd_events = [(8, EPOLLIN), (16, EPOLLIN)], rd_after = \<lparr>tv_sec = 2, tv_nsec = 0\<rparr>\<rparr>,
     \<lparr>rd_ready = 2, rd_eintr = False, rd_events = [(16, EPOLLIN), (8, EPOLLIN)], rd_after = \<lparr>tv_sec = 3, tv_nsec = 0\<rparr>\<rparr>]
    (demo_lea\<lparr>w_ev := [8 \<mapsto> (demo_event 1 0)\<lparr>ev_flag := LV_LAG\<rparr>, 16 \<mapsto> (demo_event 2 0)\<lparr>ev_flag := LV_LAG\<rparr>]\<rparr>) =
   Some Hung"
  using stale_active_links_hang [where call = note_call and a = 8 and b = 16 and ra = EPOLLIN and rb = EPOLLIN
      and w = "demo_lea\<lparr>w_ev := [8 \<mapsto> (demo_event 1 0)\<lparr>ev_flag := LV_LAG\<rparr>, 16 \<mapsto> (demo_event 2 0)\<lparr>ev_flag := LV_LAG\<rparr>]\<rparr>"
      and ea = "(demo_event 1 0)\<lparr>ev_flag := LV_LAG\<rparr>" and eb = "(demo_event 2 0)\<lparr>ev_flag := LV_LAG\<rparr>"
      and start = "\<lparr>tv_sec = 1, tv_nsec = 0\<rparr>" and ?t1.0 = "\<lparr>tv_sec = 2, tv_nsec = 0\<rparr>"
      and ?t2.0 = "\<lparr>tv_sec = 3, tv_nsec = 0\<rparr>" and rounds = "[]"]
  by (simp add: leaves_events_def note_call_def is_ready_def epoll_defs LV_defs demo_event_def ev_at_def)

text \<open>
  the timeout of \<open>lt_base_loop\<close> is given to epoll as milliseconds and compared with
  nanoseconds: once more than \<open>timeout\<close> nanoseconds have passed the loop returns 0, and the events of that round are not dispatched.
\<close>

theorem loop_timeout_drops_round:
  assumes "rd_ready r \<noteq> - 1 \<or> rd_eintr r" "0 \<le> timeout" "timeout < 2147483648"
    and "timeout < lt_time_a_sub_b (rd_after r) start"
  shows "lt_base_loop call timeout start (r # rounds) w = Some (Returned 0 w)"
proof -
  have "lt_time_a_sub_b (rd_after r) start < 9223372036854775808"
    using i64_range by (simp add: lt_time_a_sub_b_def)
  with assms show ?thesis by (auto simp: lt_base_loop_def time_a_gt_b_def)
qed

theorem loop_timeout_drops_round_witness:
  "lt_base_loop note_call 1000 \<lparr>tv_sec = 1, tv_nsec = 0\<rparr>
     [\<lparr>rd_ready = 1, rd_eintr = False, rd_events = [(8, EPOLLIN)], rd_after = \<lparr>tv_sec = 1, tv_nsec = 2000\<rparr>\<rparr>] demo_lea =
   Some (Returned 0 demo_lea)"
  using loop_timeout_drops_round [where call = note_call and timeout = 1000 and start = "\<lparr>tv_sec = 1, tv_nsec = 0\<rparr>"
      and r = "\<lparr>rd_ready = 1, rd_eintr = False, rd_events = [(8, EPOLLIN)], rd_after = \<lparr>tv_sec = 1, tv_nsec = 2000\<rparr>\<rparr>"
      and rounds = "[]" and w = demo_lea]
  by (simp add: lt_time_a_sub_b_def i64_def)

end
