(* ===== verification/Http_Data.thy ===== *)
theory Http_Data
  imports Leactor_Prelude
begin

text \<open>
  The data of http.h and event_lea.h that the parsers work on. Memory is a function from addresses
  to characters; an address is an \<^typ>\<open>int\<close>, 0 being the null pointer, so pointer arithmetic and
  pointer differences are those of the integers. \<open>char\<close> is signed on the platform of the makefile:
  comparisons and shifts read a character through \<open>schar\<close>.
\<close>

section \<open>Characters and memory\<close>

type_synonym char_mem = "int \<Rightarrow> char"

definition schar :: "char \<Rightarrow> int" where
  "schar c = (let n = of_char c in if n < 128 then n else n - 256)"

lemma schar_mod: "schar c mod 256 = of_char c"
  by (simp add: schar_def Let_def)

lemma schar_eq: "schar c = schar d \<longleftrightarrow> c = d"
  by (metis schar_mod of_char_eq_iff)

lemma schar_0: "schar (CHR ''0'') = 48"
  by (simp add: schar_def)

definition CR :: char where "CR = CHR 0x0D"
definition LF :: char where "LF = CHR 0x0A"
definition NUL :: char where "NUL = CHR 0x00"

lemmas crlf_defs = CR_def LF_def NUL_def

lemma crlf_distinct [simp]:
  "CR \<noteq> LF" "CR \<noteq> NUL" "LF \<noteq> NUL" "LF \<noteq> CR" "NUL \<noteq> CR" "NUL \<noteq> LF"
  "CR \<noteq> CHR '' ''" "LF \<noteq> CHR '' ''" "NUL \<noteq> CHR '' ''" "CR \<noteq> CHR ''/''" "LF \<noteq> CHR ''/''"
  "CR \<noteq> CHR ''.''" "LF \<noteq> CHR ''.''"
  by (simp_all add: crlf_defs)

definition is_digit :: "char \<Rightarrow> bool" where
  "is_digit ch \<longleftrightarrow> \<not> (schar ch < schar (CHR ''0'') \<or> schar ch > schar (CHR ''9''))"

text \<open>\<open>c = (ch | 0x20); c >= 'a' && c <= 'z'\<close>.\<close>

definition is_letter :: "char \<Rightarrow> bool" where
  "is_letter ch \<longleftrightarrow> schar (CHR ''a'') \<le> or (schar ch) 32 \<and> or (schar ch) 32 \<le> schar (CHR ''z'')"

text \<open>\<open>n * 10 + ch - '0'\<close> on \<open>int\<close>.\<close>

definition digit_acc :: "int \<Rightarrow> char \<Rightarrow> int" where
  "digit_acc n ch = i32 (n * 10 + schar ch - schar (CHR ''0''))"

lemma digit_not_sep:
  "is_digit c \<Longrightarrow> c \<noteq> CHR '' '' \<and> c \<noteq> CHR ''.'' \<and> c \<noteq> CR \<and> c \<noteq> LF"
  by (auto simp: is_digit_def schar_def crlf_defs)

lemma is_digit_range: "is_digit c \<longleftrightarrow> 48 \<le> schar c \<and> schar c \<le> 57"
  by (simp add: is_digit_def not_less) (simp add: schar_def)

lemma digit_acc_small:
  "is_digit c \<Longrightarrow> 0 \<le> n \<Longrightarrow> n < 200000000 \<Longrightarrow> digit_acc n c = n * 10 + (schar c - 48)"
proof -
  assume a: "is_digit c" "0 \<le> n" "n < 200000000"
  then have "digit_acc n c = n * 10 + schar c - schar (CHR ''0'')"
    unfolding digit_acc_def is_digit_range by (intro i32_id) (auto simp: schar_def)
  then show ?thesis by (simp add: schar_def)
qed

lemma schar_bounds: "- 128 \<le> schar c \<and> schar c < 128"
proof -
  have "of_char c mod 256 = (of_char c :: int)" by simp
  then have "0 \<le> (of_char c :: int)" "(of_char c :: int) < 256" 
    by (metis pos_mod_sign zero_less_numeral, metis pos_mod_bound zero_less_numeral)
  then show ?thesis by (simp add: schar_def Let_def)
qed

text \<open>\<open>stored mem p cs\<close>: the characters \<open>cs\<close> lie at \<open>p\<close>.\<close>

fun stored :: "char_mem \<Rightarrow> int \<Rightarrow> string \<Rightarrow> bool" where
  "stored mem p [] = True"
| "stored mem p (c # cs) = (mem p = c \<and> stored mem (p + 1) cs)"

lemma stored_append:
  "stored mem p (xs @ ys) \<longleftrightarrow> stored mem p xs \<and> stored mem (p + int (length xs)) ys"
  by (induction xs arbitrary: p) (auto simp: algebra_simps)

lemma stored_nth: "stored mem p cs \<Longrightarrow> i < length cs \<Longrightarrow> mem (p + int i) = cs ! i"
proof (induction cs arbitrary: p i)
  case (Cons c cs)
  then show ?case
    using Cons.IH [of "p + 1" "i - 1"] by (cases i) (auto simp: algebra_simps)
qed simp

lemma stored_in:
  assumes "stored mem p cs" "p \<le> q" "q < p + int (length cs)"
  shows "mem q \<in> set cs"
proof -
  have "mem q = cs ! nat (q - p)"
    using stored_nth [OF assms(1), of "nat (q - p)"] assms(2,3) by simp
  with assms(2,3) show ?thesis by simp
qed

text \<open>A memory that holds one string, for closed examples.\<close>

definition mem_of :: "int \<Rightarrow> string \<Rightarrow> char_mem" where
  "mem_of base cs = (\<lambda>a. if base \<le> a \<and> a < base + int (length cs) then cs ! nat (a - base) else NUL)"

lemma stored_mem_of_aux:
  "k + length ds = length cs \<Longrightarrow> drop k cs = ds \<Longrightarrow> stored (mem_of base cs) (base + int k) ds"
proof (induction ds arbitrary: k)
  case (Cons d ds)
  then have k: "k < length cs" by simp
  with Cons.prems have "cs ! k = d" "drop (Suc k) cs = ds"
    by (simp_all add: Cons_nth_drop_Suc [symmetric])
  with Cons.IH [of "Suc k"] Cons.prems(1) k show ?case by (simp add: mem_of_def algebra_simps)
qed simp

lemma stored_mem_of: "stored (mem_of base cs) base cs"
  using stored_mem_of_aux [of 0 cs cs base] by simp

section \<open>Return codes\<close>

definition LOK :: int where "LOK = 0"
definition LERROR :: int where "LERROR = - 2"
definition LAGAIN :: int where "LAGAIN = - 3"
definition LCLOSE :: int where "LCLOSE = - 5"
definition LABORT :: int where "LABORT = - 6"
definition NGX_HTTP_PARSE_HEADER_DONE :: int where "NGX_HTTP_PARSE_HEADER_DONE = 1"
definition NGX_HTTP_PARSE_INVALID_METHOD :: int where "NGX_HTTP_PARSE_INVALID_METHOD = 10"
definition NGX_HTTP_PARSE_INVALID_REQUEST :: int where "NGX_HTTP_PARSE_INVALID_REQUEST = 11"
definition NGX_HTTP_PARSE_INVALID_09_METHOD :: int where "NGX_HTTP_PARSE_INVALID_09_METHOD = 12"
definition NGX_HTTP_PARSE_INVALID_HEADER :: int where "NGX_HTTP_PARSE_INVALID_HEADER = 13"

lemmas rc_defs = LOK_def LERROR_def LAGAIN_def LCLOSE_def LABORT_def
  NGX_HTTP_PARSE_HEADER_DONE_def NGX_HTTP_PARSE_INVALID_METHOD_def
  NGX_HTTP_PARSE_INVALID_REQUEST_def NGX_HTTP_PARSE_INVALID_09_METHOD_def
  NGX_HTTP_PARSE_INVALID_HEADER_def

lemma rc_distinct [simp]:
  "LOK \<noteq> LAGAIN" "LERROR \<noteq> LAGAIN" "LERROR \<noteq> LOK"
  "NGX_HTTP_PARSE_HEADER_DONE \<noteq> LAGAIN" "NGX_HTTP_PARSE_HEADER_DONE \<noteq> LOK"
  "LERROR \<noteq> NGX_HTTP_PARSE_HEADER_DONE"
  "NGX_HTTP_PARSE_INVALID_HEADER \<noteq> LAGAIN" "NGX_HTTP_PARSE_INVALID_HEADER \<noteq> LOK"
  "NGX_HTTP_PARSE_INVALID_HEADER \<noteq> NGX_HTTP_PARSE_HEADER_DONE"
  "NGX_HTTP_PARSE_INVALID_METHOD \<noteq> LAGAIN" "NGX_HTTP_PARSE_INVALID_METHOD \<noteq> LOK"
  "NGX_HTTP_PARSE_INVALID_METHOD \<noteq> NGX_HTTP_PARSE_HEADER_DONE"
  "NGX_HTTP_PARSE_INVALID_REQUEST \<noteq> LAGAIN" "NGX_HTTP_PARSE_INVALID_REQUEST \<noteq> LOK"
  "NGX_HTTP_PARSE_INVALID_REQUEST \<noteq> NGX_HTTP_PARSE_HEADER_DONE"
  "NGX_HTTP_PARSE_INVALID_09_METHOD \<noteq> LAGAIN" "NGX_HTTP_PARSE_INVALID_09_METHOD \<noteq> LOK"
  "NGX_HTTP_PARSE_INVALID_09_METHOD \<noteq> NGX_HTTP_PARSE_HEADER_DONE"
  by (simp_all add: rc_defs)

lemmas rc_distinct_sym [simp] = rc_distinct [symmetric]

section \<open>Records\<close>

record lt_string =
  str_length :: int
  str_data :: int
  str_hash :: "32 word"

record http_status =
  st_http_version :: int
  st_code :: int
  st_count :: int
  st_start :: int
  st_end :: int

text \<open>The cursor of an \<open>lt_buffer_t\<close>: the part of it the parsers read and write.\<close>

record cursor =
  b_pos :: int
  b_last :: int

text \<open>\<open>request_t\<close>, in three parts: request line, header fields, the rest.\<close>

record request_line =
  rq_state :: int
  rq_method_name :: lt_string
  rq_method_end :: int
  rq_method :: int
  rq_http_protocol :: lt_string
  rq_http_protocol_end :: int
  rq_uri :: lt_string
  rq_unparsed_uri :: lt_string
  rq_valid_unparsed_uri :: int
  rq_uri_start :: int
  rq_uri_end :: int
  rq_uri_ext :: int
  rq_port_end :: int
  rq_host_start :: int
  rq_host_end :: int
  rq_args_start :: int
  rq_schema_start :: int
  rq_schema_end :: int
  rq_http_version :: int
  rq_complex_uri :: int
  rq_quoted_uri :: int
  rq_plus_in_uri :: int
  rq_space_in_uri :: int

record request_header = request_line +
  rq_request_line :: lt_string
  rq_request_length :: int
  rq_line_length :: int
  rq_request_start :: int
  rq_request_end :: int
  rq_header_start :: int
  rq_header_end :: int
  rq_header_name_start :: int
  rq_header_name_end :: int
  rq_header_hash :: int
  rq_header_length :: int
  rq_lowcase_index :: int
  rq_invalid_header :: int
  rq_http_major :: int
  rq_http_minor :: int
  rq_lowcase_header :: string
  rq_upstream :: int
  rq_status :: http_status

type_synonym request = request_header

text \<open>A request as an all-zero allocation holds it, for closed examples.\<close>

definition blank_request :: request where
  "blank_request = \<lparr>rq_state = 0, rq_method_name = \<lparr>str_length = 0, str_data = 0, str_hash = 0\<rparr>,
     rq_method_end = 0, rq_method = 0, rq_http_protocol = \<lparr>str_length = 0, str_data = 0, str_hash = 0\<rparr>,
     rq_http_protocol_end = 0, rq_uri = \<lparr>str_length = 0, str_data = 0, str_hash = 0\<rparr>,
     rq_unparsed_uri = \<lparr>str_length = 0, str_data = 0, str_hash = 0\<rparr>, rq_valid_unparsed_uri = 0,
     rq_uri_start = 0, rq_uri_end = 0, rq_uri_ext = 0, rq_port_end = 0, rq_host_start = 0,
     rq_host_end = 0, rq_args_start = 0, rq_schema_start = 0, rq_schema_end = 0, rq_http_version = 0,
     rq_complex_uri = 0, rq_quoted_uri = 0, rq_plus_in_uri = 0, rq_space_in_uri = 0,
     rq_request_line = \<lparr>str_length = 0, str_data = 0, str_hash = 0\<rparr>, rq_request_length = 0,
     rq_line_length = 0, rq_request_start = 0, rq_request_end = 0, rq_header_start = 0,
     rq_header_end = 0, rq_header_name_start = 0, rq_header_name_end = 0, rq_header_hash = 0,
     rq_header_length = 0, rq_lowcase_index = 0, rq_invalid_header = 0, rq_http_major = 0,
     rq_http_minor = 0, rq_lowcase_header = replicate 32 NUL, rq_upstream = 0,
     rq_status = \<lparr>st_http_version = 0, st_code = 0, st_count = 0, st_start = 0, st_end = 0\<rparr>\<rparr>"


end
