(* ===== verification/Scanner.thy ===== *)
theory Scanner
  imports Http_Data
begin

text \<open>
  The three parsers of ngx_http_parse.c share one shape: \<open>for (p = b->pos; p < b->last; p++)\<close> around
  a switch over the state. One round of the switch ends in a \<open>verdict\<close>: \<open>Next\<close> for \<open>break\<close>, \<open>Back\<close>
  for a \<open>break\<close> after \<open>p--\<close> (the same character is looked at again in another state), \<open>Halt\<close> for a
  \<open>return\<close> or a \<open>goto\<close> out of the loop. The locale below states what such a loop is, and proves
  once what the parsers need: how a scan goes over a stretch of input, where it can stop, that an
  invariant of the switch holds wherever it stops, and that scanning in two parts is scanning in one.
\<close>

section \<open>Verdicts and outcomes\<close>

datatype ('s, 'k) verdict = Next 's | Back 's | Halt 'k 's

text \<open>Where the loop ended: at the end of the input, or at \<open>p\<close> by leaving the switch.\<close>

datatype ('s, 'k) scanned = Ran_out 's int | Halted 'k 's int

datatype exit_label = Return int | L_done | L_header_done

text \<open>
  A parser leaves \<open>r->state\<close> and \<open>b->pos\<close> alone when it reports an error, so there they still are
  what the call began with: two calls that report the same error may differ in them.
\<close>

definition up_to_call :: "int \<Rightarrow> request \<Rightarrow> cursor \<Rightarrow> request \<times> cursor" where
  "up_to_call rc r b =
     (if rc = LOK \<or> rc = LAGAIN \<or> rc = NGX_HTTP_PARSE_HEADER_DONE then (r, b)
      else (r\<lparr>rq_state := 0\<rparr>, b\<lparr>b_pos := 0\<rparr>))"

lemma up_to_call_done [simp]:
  "up_to_call LOK r b = (r, b)" "up_to_call LAGAIN r b = (r, b)"
  "up_to_call NGX_HTTP_PARSE_HEADER_DONE r b = (r, b)"
  by (simp_all add: up_to_call_def)

lemma up_to_call_error [simp]:
  assumes "rc \<noteq> LOK" "rc \<noteq> LAGAIN" "rc \<noteq> NGX_HTTP_PARSE_HEADER_DONE"
  shows "up_to_call rc r b = (r\<lparr>rq_state := 0\<rparr>, b\<lparr>b_pos := 0\<rparr>)"
  using assms by (simp add: up_to_call_def)

section \<open>The loop\<close>

locale scanner =
  fixes step :: "int \<Rightarrow> 's \<Rightarrow> ('s, 'k) verdict option"
    and run :: "int \<Rightarrow> int \<Rightarrow> 's \<Rightarrow> ('s, 'k) scanned option"
  assumes run_unfold: "run lim p s =
      (if p < lim then
         (case step p s of
            None \<Rightarrow> None
          | Some (Next s') \<Rightarrow> run lim (p + 1) s'
          | Some (Back s') \<Rightarrow> run lim p s'
          | Some (Halt k s') \<Rightarrow> Some (Halted k s' p))
       else Some (Ran_out s p))"
    and step_back: "step p s = Some (Back s') \<Longrightarrow> step p s' \<noteq> Some (Back s'')"
begin

lemma run_end: "lim \<le> p \<Longrightarrow> run lim p s = Some (Ran_out s p)"
  by (subst run_unfold) simp

lemma run_undefined: "p < lim \<Longrightarrow> step p s = None \<Longrightarrow> run lim p s = None"
  by (subst run_unfold) simp

lemma run_next: "p < lim \<Longrightarrow> step p s = Some (Next s') \<Longrightarrow> run lim p s = run lim (p + 1) s'"
  by (subst run_unfold) simp

lemma run_back: "p < lim \<Longrightarrow> step p s = Some (Back s') \<Longrightarrow> run lim p s = run lim p s'"
  by (subst run_unfold) simp

lemma run_halt: "p < lim \<Longrightarrow> step p s = Some (Halt k s') \<Longrightarrow> run lim p s = Some (Halted k s' p)"
  by (subst run_unfold) simp

text \<open>Induction over a scan: one round per character, but for one extra round after a \<open>Back\<close>.\<close>

lemma scan_induct:
  assumes fin: "\<And>p s. lim \<le> p \<Longrightarrow> P p s"
    and none: "\<And>p s. p < lim \<Longrightarrow> step p s = None \<Longrightarrow> P p s"
    and halt: "\<And>p s k s'. p < lim \<Longrightarrow> step p s = Some (Halt k s') \<Longrightarrow> P p s"
    and nxt: "\<And>p s s'. p < lim \<Longrightarrow> step p s = Some (Next s') \<Longrightarrow> P (p + 1) s' \<Longrightarrow> P p s"
    and bck: "\<And>p s s'. p < lim \<Longrightarrow> step p s = Some (Back s') \<Longrightarrow> P p s' \<Longrightarrow> P p s"
  shows "P p s"
proof (induction "nat (lim - p)" arbitrary: p s rule: less_induct)
  case (less p s)
  have fwd: "P p s" if "\<And>s'. step p s \<noteq> Some (Back s')" for s
  proof (cases "p < lim")
    case True
    show ?thesis
    proof (cases "step p s")
      case (Some v)
      then show ?thesis
        using True that less [of "p + 1"] halt nxt by (cases v) auto
    qed (use True none in blast)
  qed (use fin in auto)
  show ?case
  proof (cases "p < lim \<and> (\<exists>s'. step p s = Some (Back s'))")
    case True
    then obtain s' where "p < lim" "step p s = Some (Back s')" by blast
    with fwd [of s'] step_back bck show ?thesis by blast
  next
    case False
    with fwd [of s] fin show ?thesis by (cases "p < lim") auto
  qed
qed

text \<open>A stretch on which the switch stays in one state.\<close>

lemma run_stay:
  assumes "p \<le> q" "q \<le> lim" "\<And>x. p \<le> x \<Longrightarrow> x < q \<Longrightarrow> step x s = Some (Next s)"
  shows "run lim p s = run lim q s"
  using assms
proof (induction "nat (q - p)" arbitrary: p)
  case (Suc n)
  then have "run lim p s = run lim (p + 1) s" by (intro run_next) auto
  also have "\<dots> = run lim q s" using Suc by (intro Suc.hyps(1)) auto
  finally show ?case .
qed simp

text \<open>Scanning the first part and then the rest is scanning the whole.\<close>

lemma run_resume:
  assumes "mid \<le> lim"
  shows "p \<le> mid \<Longrightarrow> run lim p s =
    (case run mid p s of
       Some (Ran_out s' q) \<Rightarrow> run lim mid s'
     | r \<Rightarrow> r)"
proof (induction p s rule: scan_induct [of mid])
  case (1 p s)
  then show ?case by (simp add: run_end)
next
  case (2 p s)
  then show ?case using assms by (simp add: run_undefined)
next
  case (3 p s k s')
  then show ?case using assms by (simp add: run_halt)
next
  case (4 p s s')
  then show ?case using assms by (simp add: run_next)
next
  case (5 p s s')
  then show ?case using assms by (simp add: run_back)
qed

text \<open>A scan stops inside the input, or at its end.\<close>

lemma run_halted_range: "run lim p s = Some (Halted k s' q) \<Longrightarrow> p \<le> q \<and> q < lim"
proof (induction p s rule: scan_induct [of lim])
  case (4 p s s'')
  then show ?case by (auto simp: run_next)
qed (auto simp: run_end run_undefined run_halt run_back)

lemma run_out_range: "run lim p s = Some (Ran_out s' q) \<Longrightarrow> q = max p lim"
proof (induction p s rule: scan_induct [of lim])
  case (4 p s s'')
  then show ?case by (auto simp: run_next)
qed (auto simp: run_end run_undefined run_halt run_back)

text \<open>
  An invariant that every \<open>Next\<close> and \<open>Back\<close> keeps holds at the end of the input, and held where the
  switch was left.
\<close>

lemma run_invariant:
  assumes nxt: "\<And>p s s'. I p s \<Longrightarrow> p < lim \<Longrightarrow> step p s = Some (Next s') \<Longrightarrow> I (p + 1) s'"
    and bck: "\<And>p s s'. I p s \<Longrightarrow> p < lim \<Longrightarrow> step p s = Some (Back s') \<Longrightarrow> I p s'"
  shows "I p s \<Longrightarrow> run lim p s = Some r \<Longrightarrow>
    (case r of
       Ran_out s' q \<Rightarrow> I q s'
     | Halted k s' q \<Rightarrow> \<exists>s0. I q s0 \<and> q < lim \<and> step q s0 = Some (Halt k s'))"
proof (induction p s rule: scan_induct [of lim])
  case (1 p s)
  then show ?case by (auto simp: run_end)
next
  case (2 p s)
  then show ?case by (simp add: run_undefined)
next
  case (3 p s k s')
  then show ?case by (auto simp: run_halt)
next
  case (4 p s s')
  then show ?case using nxt [of p s s'] by (simp add: run_next)
next
  case (5 p s s')
  then show ?case using bck [of p s s'] by (simp add: run_back)
qed

lemma run_halted_step:
  assumes "run lim p s = Some (Halted k s' q)"
  shows "p \<le> q \<and> q < lim \<and> (\<exists>s0. step q s0 = Some (Halt k s'))"
proof -
  have "case Halted k s' q of
       Ran_out s' q \<Rightarrow> True
     | Halted k s' q \<Rightarrow> \<exists>s0. True \<and> q < lim \<and> step q s0 = Some (Halt k s')"
    by (rule run_invariant [of "\<lambda>_ _. True", OF _ _ _ assms]) auto
  with run_halted_range [OF assms] show ?thesis by auto
qed

text \<open>A change of the variables that the switch does not see is not seen by the scan.\<close>

lemma run_map:
  assumes cm: "\<And>p s. step p (f s) = map_option (map_verdict f id) (step p s)"
  shows "run lim p (f s) = map_option (map_scanned f id) (run lim p s)"
proof (induction p s rule: scan_induct [of lim])
  case (1 p s)
  then show ?case by (simp add: run_end)
next
  case (2 p s)
  then show ?case by (simp add: run_undefined cm)
next
  case (3 p s k s')
  then show ?case by (simp add: run_halt cm)
next
  case (4 p s s')
  then show ?case using run_next [of p lim "f s" "f s'"] by (simp add: run_next cm)
next
  case (5 p s s')
  then show ?case using run_back [of p lim "f s" "f s'"] by (simp add: run_back cm)
qed

text \<open>If the switch is defined wherever the invariant holds, the scan is.\<close>

lemma run_defined:
  assumes nxt: "\<And>p s s'. I p s \<Longrightarrow> p < lim \<Longrightarrow> step p s = Some (Next s') \<Longrightarrow> I (p + 1) s'"
    and bck: "\<And>p s s'. I p s \<Longrightarrow> p < lim \<Longrightarrow> step p s = Some (Back s') \<Longrightarrow> I p s'"
    and dfd: "\<And>p s. I p s \<Longrightarrow> p < lim \<Longrightarrow> step p s \<noteq> None"
  shows "I p s \<Longrightarrow> run lim p s \<noteq> None"
proof (induction p s rule: scan_induct [of lim])
  case (1 p s)
  then show ?case by (simp add: run_end)
next
  case (2 p s)
  then show ?case using dfd by blast
next
  case (3 p s k s')
  then show ?case by (simp add: run_halt)
next
  case (4 p s s')
  then show ?case using nxt [of p s s'] by (simp add: run_next)
next
  case (5 p s s')
  then show ?case using bck [of p s s'] by (simp add: run_back)
qed

end

end
