(* ===== verification/Parse_Status_Line.thy ===== *)
theory Parse_Status_Line
  imports Scanner
begin

text \<open>
  \<open>ngx_http_parse_status_line\<close> of ngx_http_parse.c: the status line of an upstream response. The
  loop's variables are the local \<open>state\<close>, the request and the status record; the states are the
  code's, with the prefix \<open>SL\<close> for \<open>sw\<close>. \<open>NGX_ERROR\<close> is \<open>LERROR\<close>.
\<close>

section \<open>The switch\<close>

datatype sl_state = SL_start | SL_H | SL_HT | SL_HTT | SL_HTTP | SL_first_major_digit
  | SL_major_digit | SL_first_minor_digit | SL_minor_digit | SL_status | SL_space_after_status
  | SL_status_text | SL_almost_done

type_synonym sl_vars = "sl_state \<times> request \<times> http_status"

type_synonym sl_verdict = "(sl_vars, exit_label) verdict"

text \<open>The number an enumerator stands for, as \<open>r->state\<close> stores it, and back.\<close>

definition sl_states :: "sl_state list" where
  "sl_states = [SL_start, SL_H, SL_HT, SL_HTT, SL_HTTP, SL_first_major_digit, SL_major_digit,
     SL_first_minor_digit, SL_minor_digit, SL_status, SL_space_after_status, SL_status_text,
     SL_almost_done]"

primrec sl_code :: "sl_state \<Rightarrow> int" where
  "sl_code SL_start = 0"
| "sl_code SL_H = 1"
| "sl_code SL_HT = 2"
| "sl_code SL_HTT = 3"
| "sl_code SL_HTTP = 4"
| "sl_code SL_first_major_digit = 5"
| "sl_code SL_major_digit = 6"
| "sl_code SL_first_minor_digit = 7"
| "sl_code SL_minor_digit = 8"
| "sl_code SL_status = 9"
| "sl_code SL_space_after_status = 10"
| "sl_code SL_status_text = 11"
| "sl_code SL_almost_done = 12"

definition sl_state_of :: "int \<Rightarrow> sl_state option" where
  "sl_state_of n = (if 0 \<le> n then ld sl_states (nat n) else None)"

lemma sl_state_of_code [simp]: "sl_state_of (sl_code s) = Some s"
  by (cases s) (simp_all add: sl_state_of_def ld_def sl_states_def)

lemma sl_state_of_0 [simp]: "sl_state_of 0 = Some SL_start"
  by (simp add: sl_state_of_def ld_def sl_states_def)

text \<open>The five states that read \<open>HTTP/\<close>.\<close>

definition sl_protocol :: "sl_state \<Rightarrow> char \<Rightarrow> int \<Rightarrow> request \<Rightarrow> http_status \<Rightarrow> sl_verdict" where
  "sl_protocol s ch p r status =
     (case s of
        SL_start \<Rightarrow>
          (if ch = CHR ''H'' then
             Next (SL_H, r\<lparr>rq_request_start := p,
                           rq_http_protocol := (rq_http_protocol r)\<lparr>str_data := p\<rparr>\<rparr>, status)
           else Halt (Return LERROR) (s, r, status))
      | SL_H \<Rightarrow>
          (if ch = CHR ''T'' then Next (SL_HT, r, status) else Halt (Return LERROR) (s, r, status))
      | SL_HT \<Rightarrow>
          (if ch = CHR ''T'' then Next (SL_HTT, r, status) else Halt (Return LERROR) (s, r, status))
      | SL_HTT \<Rightarrow>
          (if ch = CHR ''P'' then Next (SL_HTTP, r, status) else Halt (Return LERROR) (s, r, status))
      | _ \<Rightarrow>
          (if ch = CHR ''/'' then Next (SL_first_major_digit, r, status)
           else Halt (Return LERROR) (s, r, status)))"

text \<open>The four states of the version number.\<close>

definition sl_version :: "sl_state \<Rightarrow> char \<Rightarrow> int \<Rightarrow> request \<Rightarrow> http_status \<Rightarrow> sl_verdict" where
  "sl_version s ch p r status =
     (case s of
        SL_first_major_digit \<Rightarrow>
          (if schar ch < schar (CHR ''1'') \<or> schar ch > schar (CHR ''9'') then
             Halt (Return LERROR) (s, r, status)
           else Next (SL_major_digit, r\<lparr>rq_http_major := digit_acc 0 ch\<rparr>, status))
      | SL_major_digit \<Rightarrow>
          (if ch = CHR ''.'' then Next (SL_first_minor_digit, r, status)
           else if \<not> is_digit ch then Halt (Return LERROR) (s, r, status)
           else Next (s, r\<lparr>rq_http_major := digit_acc (rq_http_major r) ch\<rparr>, status))
      | SL_first_minor_digit \<Rightarrow>
          (if \<not> is_digit ch then Halt (Return LERROR) (s, r, status)
           else Next (SL_minor_digit, r\<lparr>rq_http_minor := digit_acc 0 ch\<rparr>, status))
      | _ \<Rightarrow>
          (if ch = CHR '' '' then Next (SL_status, r\<lparr>rq_http_protocol_end := p - 1\<rparr>, status)
           else if \<not> is_digit ch then Halt (Return LERROR) (s, r, status)
           else Next (s, r\<lparr>rq_http_minor := digit_acc (rq_http_minor r) ch\<rparr>, status)))"

text \<open>The status code: three digits, counted in the status record.\<close>

definition sl_status_code :: "char \<Rightarrow> int \<Rightarrow> request \<Rightarrow> http_status \<Rightarrow> sl_verdict" where
  "sl_status_code ch p r status =
     (if ch = CHR '' '' then Next (SL_status, r, status)
      else if \<not> is_digit ch then Halt (Return LERROR) (SL_status, r, status)
      else
        let status1 = status\<lparr>st_code := digit_acc (st_code status) ch,
                             st_count := i32 (st_count status + 1)\<rparr>
        in if st_count status1 = 3 then Next (SL_space_after_status, r, status1\<lparr>st_start := p - 2\<rparr>)
           else Next (SL_status, r, status1))"

text \<open>The end of the line.\<close>

definition sl_tail :: "sl_state \<Rightarrow> char \<Rightarrow> int \<Rightarrow> request \<Rightarrow> http_status \<Rightarrow> sl_verdict" where
  "sl_tail s ch p r status =
     (case s of
        SL_space_after_status \<Rightarrow>
          (if ch = CHR '' '' then Next (SL_status_text, r, status)
           else if ch = CHR ''.'' then Next (SL_status_text, r, status)
           else if ch = CR then Next (SL_almost_done, r, status)
           else if ch = LF then Halt L_done (s, r, status)
           else Halt (Return LERROR) (s, r, status))
      | SL_status_text \<Rightarrow>
          (if ch = CR then Next (SL_almost_done, r, status)
           else if ch = LF then Halt L_done (s, r, status)
           else Next (s, r, status))
      | _ \<Rightarrow>
          (let status1 = status\<lparr>st_end := p - 1\<rparr> in
           if ch = LF then Halt L_done (s, r, status1) else Halt (Return LERROR) (s, r, status1)))"

definition sl_step :: "char_mem \<Rightarrow> int \<Rightarrow> sl_vars \<Rightarrow> sl_verdict option" where
  "sl_step mem p vars =
     (case vars of (s, r, status) \<Rightarrow>
        Some (case s of
          SL_start \<Rightarrow> sl_protocol s (mem p) p r status
        | SL_H \<Rightarrow> sl_protocol s (mem p) p r status
        | SL_HT \<Rightarrow> sl_protocol s (mem p) p r status
        | SL_HTT \<Rightarrow> sl_protocol s (mem p) p r status
        | SL_HTTP \<Rightarrow> sl_protocol s (mem p) p r status
        | SL_status \<Rightarrow> sl_status_code (mem p) p r status
        | SL_space_after_status \<Rightarrow> sl_tail s (mem p) p r status
        | SL_status_text \<Rightarrow> sl_tail s (mem p) p r status
        | SL_almost_done \<Rightarrow> sl_tail s (mem p) p r status
        | _ \<Rightarrow> sl_version s (mem p) p r status))"

section \<open>The loop and the function\<close>

lemma sl_parts_no_back:
  "sl_protocol s ch p r status \<noteq> Back v" "sl_version s ch p r status \<noteq> Back v"
  "sl_status_code ch p r status \<noteq> Back v" "sl_tail s ch p r status \<noteq> Back v"
  by (cases s; simp add: sl_protocol_def sl_version_def sl_status_code_def sl_tail_def Let_def)+

lemma sl_step_no_back: "sl_step mem p vars \<noteq> Some (Back vars')"
proof -
  obtain s r status where v: "vars = (s, r, status)" by (cases vars)
  show ?thesis by (cases s) (simp_all add: v sl_step_def sl_parts_no_back)
qed

function sl_run :: "char_mem \<Rightarrow> int \<Rightarrow> int \<Rightarrow> sl_vars \<Rightarrow> (sl_vars, exit_label) scanned option" where
  "sl_run mem lim p vars =
     (if p < lim then
        (case sl_step mem p vars of
           None \<Rightarrow> None
         | Some (Next vars') \<Rightarrow> sl_run mem lim (p + 1) vars'
         | Some (Back vars') \<Rightarrow> sl_run mem lim (p - 1 + 1) vars'
         | Some (Halt k vars') \<Rightarrow> Some (Halted k vars' p))
      else Some (Ran_out vars p))"
  by pat_completeness auto

termination
  by (relation "measure (\<lambda>(mem, lim, p, vars). nat (lim - p))") (auto simp: sl_step_no_back)

declare sl_run.simps [simp del]

text \<open>
  A number that no enumerator has matches no \<open>case\<close>: the loop goes over the input and changes nothing.
\<close>

definition ngx_http_parse_status_line ::
  "char_mem \<Rightarrow> request \<Rightarrow> cursor \<Rightarrow> http_status \<Rightarrow> (int \<times> request \<times> cursor \<times> http_status) option"
where
  "ngx_http_parse_status_line mem r b status =
     (case sl_state_of (rq_state r) of
        None \<Rightarrow> Some (LAGAIN, r, b\<lparr>b_pos := max (b_pos b) (b_last b)\<rparr>, status)
      | Some s \<Rightarrow> do {
          out \<leftarrow> sl_run mem (b_last b) (b_pos b) (s, r, status);
          Some (case out of
            Ran_out (s', r', status') p \<Rightarrow>
              (LAGAIN, r'\<lparr>rq_state := sl_code s'\<rparr>, b\<lparr>b_pos := p\<rparr>, status')
          | Halted (Return rc) (s', r', status') p \<Rightarrow> (rc, r', b, status')
          | Halted _ (s', r', status') p \<Rightarrow>
              (let status1 = (if st_end status' = 0 then status'\<lparr>st_end := p\<rparr> else status') in
               (LOK, r'\<lparr>rq_state := sl_code SL_start\<rparr>, b\<lparr>b_pos := p + 1\<rparr>,
                status1\<lparr>st_http_version := i32 (i32 (rq_http_major r' * 1000) + rq_http_minor r')\<rparr>)))
        })"

interpretation sl: scanner "sl_step mem" "sl_run mem" for mem
proof
  show "sl_run mem lim p s =
      (if p < lim then
         (case sl_step mem p s of
            None \<Rightarrow> None
          | Some (Next s') \<Rightarrow> sl_run mem lim (p + 1) s'
          | Some (Back s') \<Rightarrow> sl_run mem lim p s'
          | Some (Halt k s') \<Rightarrow> Some (Halted k s' p))
       else Some (Ran_out s p))" for lim p s
    by (subst sl_run.simps) (simp split: option.split verdict.split)
qed (simp add: sl_step_no_back)

section \<open>Running the switch\<close>

text \<open>One round, for the simplifier: it fires where the cursor is known to be inside the input.\<close>

lemma sl_run_round:
  "p < lim \<Longrightarrow> sl_run mem lim p (s, r, status) =
     (case sl_step mem p (s, r, status) of
        None \<Rightarrow> None
      | Some (Next v) \<Rightarrow> sl_run mem lim (p + 1) v
      | Some (Back v) \<Rightarrow> sl_run mem lim p v
      | Some (Halt k v) \<Rightarrow> Some (Halted k v p))"
  by (subst sl.run_unfold) simp

lemmas sl_rounds = sl_run_round sl_step_def sl_protocol_def sl_version_def sl_status_code_def
  sl_tail_def

lemma sl_run_protocol:
  assumes "stored mem p ''HTTP/''" "p + 5 \<le> lim"
  shows "sl_run mem lim p (SL_start, r, status) =
    sl_run mem lim (p + 5) (SL_first_major_digit,
      r\<lparr>rq_request_start := p, rq_http_protocol := (rq_http_protocol r)\<lparr>str_data := p\<rparr>\<rparr>, status)"
  using assms by (simp add: sl_rounds add.commute)

lemma sl_run_version:
  assumes "stored mem p [M, CHR ''.'', N, CHR '' '']" "p + 4 \<le> lim"
    and "is_digit M" "49 \<le> schar M" "is_digit N"
  shows "sl_run mem lim p (SL_first_major_digit, r, status) =
    sl_run mem lim (p + 4) (SL_status, r\<lparr>rq_http_major := schar M - 48,
      rq_http_minor := schar N - 48, rq_http_protocol_end := p + 2\<rparr>, status)"
proof -
  have "\<not> (schar M < schar (CHR ''1'') \<or> schar M > schar (CHR ''9''))"
    using assms(3,4) by (simp add: is_digit_range) (simp add: schar_def)
  then show ?thesis
    using assms digit_not_sep by (simp add: sl_rounds digit_acc_small add.commute)
qed

lemma sl_run_code:
  assumes "stored mem p [a, b, c]" "p + 3 \<le> lim" "is_digit a" "is_digit b" "is_digit c"
    and "st_code status = 0" "st_count status = 0"
  shows "sl_run mem lim p (SL_status, r, status) =
    sl_run mem lim (p + 3) (SL_space_after_status, r, status\<lparr>
      st_code := (schar a - 48) * 100 + (schar b - 48) * 10 + (schar c - 48),
      st_count := 3, st_start := p\<rparr>)"
proof -
  have d: "0 \<le> schar a - 48 \<and> schar a - 48 \<le> 9" "0 \<le> schar b - 48 \<and> schar b - 48 \<le> 9"
    using assms(3,4) by (auto simp: is_digit_range)
  show ?thesis
    using assms d digit_not_sep by (simp add: sl_rounds digit_acc_small i32_id Let_def algebra_simps)
qed

lemma sl_run_text:
  assumes "stored mem p (t @ [CR, LF])" "p + int (length t) + 2 \<le> lim" "CR \<notin> set t" "LF \<notin> set t"
  shows "sl_run mem lim p (SL_status_text, r, status) =
    Some (Halted L_done (SL_almost_done, r, status\<lparr>st_end := p + int (length t)\<rparr>)
      (p + int (length t) + 1))"
proof -
  let ?q = "p + int (length t)"
  have st: "stored mem p t" "mem ?q = CR" "mem (?q + 1) = LF"
    using assms(1) by (auto simp: stored_append algebra_simps)
  have "sl_step mem x (SL_status_text, r, status) = Some (Next (SL_status_text, r, status))"
    if "p \<le> x" "x < ?q" for x
  proof -
    have "mem x \<noteq> CR" "mem x \<noteq> LF" using stored_in [OF st(1) that] assms(3,4) by metis+
    then show ?thesis by (simp add: sl_step_def sl_tail_def)
  qed
  then have "sl_run mem lim p (SL_status_text, r, status) =
      sl_run mem lim ?q (SL_status_text, r, status)"
    using assms(2) by (intro sl.run_stay) auto
  also have "\<dots> = Some (Halted L_done (SL_almost_done, r, status\<lparr>st_end := ?q\<rparr>) (?q + 1))"
    using assms(2) st(2,3) by (simp add: sl_rounds Let_def)
  finally show ?thesis .
qed

text \<open>The codes the switch returns with: \<open>NGX_ERROR\<close> only.\<close>

lemma sl_parts_return:
  "sl_protocol s ch p r status = Halt (Return rc) v \<Longrightarrow> rc = LERROR"
  "sl_version s ch p r status = Halt (Return rc) v \<Longrightarrow> rc = LERROR"
  "sl_status_code ch p r status = Halt (Return rc) v \<Longrightarrow> rc = LERROR"
  "sl_tail s ch p r status = Halt (Return rc) v \<Longrightarrow> rc = LERROR"
  by (cases s; simp add: sl_protocol_def sl_version_def sl_status_code_def sl_tail_def Let_def
      split: if_splits)+

lemma sl_step_return: "sl_step mem p vars = Some (Halt (Return rc) v) \<Longrightarrow> rc = LERROR"
proof -
  assume a: "sl_step mem p vars = Some (Halt (Return rc) v)"
  obtain s r status where v: "vars = (s, r, status)" by (cases vars)
  from a show ?thesis by (cases s) (auto simp: v sl_step_def dest: sl_parts_return)
qed

lemma sl_run_return: "sl_run mem lim p vars = Some (Halted (Return rc) v q) \<Longrightarrow> rc = LERROR"
  by (blast dest: sl.run_halted_step sl_step_return)

lemma sl_step_done: "sl_step mem p vars = Some (Halt L_done v) \<Longrightarrow> mem p = LF"
proof -
  assume a: "sl_step mem p vars = Some (Halt L_done v)"
  obtain s r status where v: "vars = (s, r, status)" by (cases vars)
  from a show ?thesis
    by (cases s) (auto simp: v sl_step_def sl_protocol_def sl_version_def sl_status_code_def
        sl_tail_def Let_def split: if_splits)
qed

lemma sl_run_done: "sl_run mem lim p vars = Some (Halted L_done v q) \<Longrightarrow> mem q = LF"
  by (blast dest: sl.run_halted_step sl_step_done)


lemma sl_step_total: "sl_step mem p vars \<noteq> None"
  by (cases vars) (simp add: sl_step_def)

lemma sl_run_total: "sl_run mem lim p vars \<noteq> None"
  by (rule sl.run_defined [of "\<lambda>_ _. True"]) (auto simp: sl_step_total simp del: not_None_eq)

lemma sl_step_label: "sl_step mem p vars = Some (Halt k v) \<Longrightarrow> k = Return LERROR \<or> k = L_done"
proof -
  assume a: "sl_step mem p vars = Some (Halt k v)"
  obtain s r status where v: "vars = (s, r, status)" by (cases vars)
  from a show ?thesis
    by (cases s) (auto simp: v sl_step_def sl_protocol_def sl_version_def sl_status_code_def
        sl_tail_def Let_def split: if_splits)
qed

text \<open>How a call ends.\<close>

lemma sl_run_cases:
  obtains (again) v where "sl_run mem lim p vars = Some (Ran_out v (max p lim))"
    | (error) v q where "sl_run mem lim p vars = Some (Halted (Return LERROR) v q)" "p \<le> q" "q < lim"
    | (done_label) v q where "sl_run mem lim p vars = Some (Halted L_done v q)" "p \<le> q" "q < lim"
        "mem q = LF"
proof (cases "sl_run mem lim p vars")
  case None
  then show ?thesis using sl_run_total by blast
next
  case (Some out)
  show ?thesis
  proof (cases out)
    case (Ran_out v q)
    then show ?thesis using Some sl.run_out_range again by blast
  next
    case (Halted k v q)
    then show ?thesis
      using Some sl.run_halted_step [of mem lim p vars k v q] sl_step_label sl_run_done
        error done_label by metis
  qed
qed

definition sl_at :: "int \<Rightarrow> sl_vars \<Rightarrow> sl_vars" where
  "sl_at n = (\<lambda>(s, r, status). (s, r\<lparr>rq_state := n\<rparr>, status))"

lemma sl_at_simp [simp]: "sl_at n (s, r, status) = (s, r\<lparr>rq_state := n\<rparr>, status)"
  by (simp add: sl_at_def)

lemma sl_step_at: "sl_step mem p (sl_at n vars) = map_option (map_verdict (sl_at n) id) (sl_step mem p vars)"
proof -
  obtain s r status where v: "vars = (s, r, status)" by (cases vars)
  show ?thesis
    by (cases s) (simp_all add: v sl_at_def sl_step_def sl_protocol_def sl_version_def sl_status_code_def
        sl_tail_def Let_def)
qed

lemma sl_run_at:
  "sl_run mem lim p (s, r\<lparr>rq_state := n\<rparr>, status) =
    map_option (map_scanned (sl_at n) id) (sl_run mem lim p (s, r, status))"
proof -
  have "sl_run mem lim p (sl_at n (s, r, status)) =
      map_option (map_scanned (sl_at n) id) (sl_run mem lim p (s, r, status))"
    by (rule sl.run_map) (rule sl_step_at)
  then show ?thesis by simp
qed

lemma sl_run_keeps_state:
  assumes "sl_run mem lim p (s, r, status) = Some (Halted k (s', r', status') q)"
  shows "rq_state r' = rq_state r"
proof -
  have "sl_run mem lim p (sl_at (rq_state r) (s, r, status)) =
      map_option (map_scanned (sl_at (rq_state r)) id) (sl_run mem lim p (s, r, status))"
    by (rule sl.run_map) (rule sl_step_at)
  then have "r' = r'\<lparr>rq_state := rq_state r\<rparr>" using assms by simp
  then have "rq_state r' = rq_state (r'\<lparr>rq_state := rq_state r\<rparr>)" by (rule arg_cong)
  then show ?thesis by simp
qed

section \<open>Properties\<close>

lemma status_line_ok:
  assumes line: "stored mem (b_pos b) (''HTTP/'' @ [M, CHR ''.'', N, CHR '' '', x, y, z, CHR '' ''] @ txt @ [CR, LF])"
    and room: "b_pos b + int (length txt) + 15 \<le> b_last b"
    and digits: "is_digit M" "M \<noteq> CHR ''0''" "is_digit N" "is_digit x" "is_digit y" "is_digit z"
    and phrase: "CR \<notin> set txt" "LF \<notin> set txt"
    and fresh: "rq_state r = 0" "st_code status = 0" "st_count status = 0" 
    and pos: "0 < b_pos b"
  shows "ngx_http_parse_status_line mem r b status = Some (LOK,
     r\<lparr>rq_request_start := b_pos b,
       rq_http_protocol := (rq_http_protocol r)\<lparr>str_data := b_pos b\<rparr>,
       rq_http_major := schar M - 48, rq_http_minor := schar N - 48,
       rq_http_protocol_end := b_pos b + 7\<rparr>,
     b\<lparr>b_pos := b_pos b + int (length txt) + 15\<rparr>,
     status\<lparr>st_code := (schar x - 48) * 100 + (schar y - 48) * 10 + (schar z - 48), st_count := 3,
       st_start := b_pos b + 9, st_end := b_pos b + int (length txt) + 13,
       st_http_version := (schar M - 48) * 1000 + (schar N - 48)\<rparr>)"
proof -
  let ?p = "b_pos b"
  have m: "49 \<le> schar M"
    using digits(1,2) schar_eq [of M "CHR ''0''"] by (simp add: is_digit_range schar_0)
  have parts: "stored mem ?p ''HTTP/''" "stored mem (?p + 5) [M, CHR ''.'', N, CHR '' '']"
      "stored mem (?p + 9) [x, y, z]" "mem (?p + 12) = CHR '' ''" "stored mem (?p + 13) (txt @ [CR, LF])"
    using line by (simp_all add: add.commute)
  let ?r = "r\<lparr>rq_request_start := ?p, rq_http_protocol := (rq_http_protocol r)\<lparr>str_data := ?p\<rparr>,
    rq_http_major := schar M - 48, rq_http_minor := schar N - 48, rq_http_protocol_end := ?p + 7\<rparr>"
  let ?st = "status\<lparr>st_code := (schar x - 48) * 100 + (schar y - 48) * 10 + (schar z - 48),
    st_count := 3, st_start := ?p + 9\<rparr>"
  have "sl_run mem (b_last b) ?p (SL_start, r, status) = sl_run mem (b_last b) (?p + 5)
      (SL_first_major_digit, r\<lparr>rq_request_start := ?p,
        rq_http_protocol := (rq_http_protocol r)\<lparr>str_data := ?p\<rparr>\<rparr>, status)"
    using room by (intro sl_run_protocol parts) simp
  also have "\<dots> = sl_run mem (b_last b) (?p + 9) (SL_status, ?r, status)"
    using sl_run_version [OF parts(2) _ digits(1) m digits(3)] room by (simp add: add.commute)
  also have "\<dots> = sl_run mem (b_last b) (?p + 12) (SL_space_after_status, ?r, ?st)"
    using sl_run_code [OF parts(3) _ digits(4-6) fresh(2,3)] room by (simp add: add.commute)
  also have "\<dots> = sl_run mem (b_last b) (?p + 12 + 1) (SL_status_text, ?r, ?st)"
    using room parts(4) by (intro sl.run_next) (simp_all add: sl_step_def sl_tail_def)
  also have "\<dots> = Some (Halted L_done (SL_almost_done, ?r, ?st\<lparr>st_end := ?p + 13 + int (length txt)\<rparr>)
      (?p + 13 + int (length txt) + 1))"
    using sl_run_text [OF parts(5) _ phrase] room by (simp add: add.commute)
  finally have run: "sl_run mem (b_last b) ?p (SL_start, r, status) = \<dots>" .
  have v: "i32 (i32 ((schar M - 48) * 1000) + (schar N - 48)) = (schar M - 48) * 1000 + (schar N - 48)"
    using digits(1,3) by (simp add: is_digit_range i32_id)
  show ?thesis
    using fresh(1) pos v by (simp add: ngx_http_parse_status_line_def run Let_def)
qed

text \<open>
  Claim C12: a complete status line \<open>HTTP/M.N xyz text CR LF\<close>, read by a fresh request into a
  fresh status record, is \<open>LOK\<close>. The record then holds the three-digit code, its address and the address of the CR
  as \<open>start\<close> and \<open>end\<close>, and M * 1000 + N as version; the cursor is right behind the LF; of the request
  only the protocol fields change.
\<close>

theorem status_line_parsed:
  assumes line: "stored mem (b_pos b) (''HTTP/'' @ [M, CHR ''.'', N, CHR '' '', x, y, z, CHR '' ''] @ txt @ [CR, LF])"
    and room: "b_pos b + int (length txt) + 15 \<le> b_last b"
    and digits: "is_digit M" "M \<noteq> CHR ''0''" "is_digit N" "is_digit x" "is_digit y" "is_digit z"
    and phrase: "CR \<notin> set txt" "LF \<notin> set txt"
    and fresh: "rq_state r = 0" "st_code status = 0" "st_count status = 0" 
    and pos: "0 < b_pos b"
  shows "ngx_http_parse_status_line mem r b status = Some (LOK,
     r\<lparr>rq_request_start := b_pos b,
       rq_http_protocol := (rq_http_protocol r)\<lparr>str_data := b_pos b\<rparr>,
       rq_http_major := schar M - 48, rq_http_minor := schar N - 48,
       rq_http_protocol_end := b_pos b + 7\<rparr>,
     b\<lparr>b_pos := b_pos b + int (length txt) + 15\<rparr>,
     status\<lparr>st_code := (schar x - 48) * 100 + (schar y - 48) * 10 + (schar z - 48), st_count := 3,
       st_start := b_pos b + 9, st_end := b_pos b + int (length txt) + 13,
       st_http_version := (schar M - 48) * 1000 + (schar N - 48)\<rparr>)"
  using assms by (rule status_line_ok)

theorem status_line_parsed_witness:
  "\<exists>r'. ngx_http_parse_status_line (mem_of 100 (''HTTP/1.1 404 Not Found'' @ [CR, LF])) blank_request
     \<lparr>b_pos = 100, b_last = 124\<rparr> (rq_status blank_request) =
   Some (LOK, r', \<lparr>b_pos = 124, b_last = 124\<rparr>,
     \<lparr>st_http_version = 1001, st_code = 404, st_count = 3, st_start = 109, st_end = 122\<rparr>)"
  using status_line_parsed [of "mem_of 100 (''HTTP/1.1 404 Not Found'' @ [CR, LF])"
      "\<lparr>b_pos = 100, b_last = 124\<rparr>" "CHR ''1''" "CHR ''1''" "CHR ''4''" "CHR ''0''" "CHR ''4''"
      "''Not Found''" blank_request "rq_status blank_request"]
    stored_mem_of [of 100 "''HTTP/1.1 404 Not Found'' @ [CR, LF]"]
  by (simp add: is_digit_def schar_def blank_request_def crlf_defs)




definition sl_result ::
  "(int \<times> request \<times> cursor \<times> http_status) option \<Rightarrow> (int \<times> (request \<times> cursor) \<times> http_status) option"
where
  "sl_result = map_option (\<lambda>(rc, r, b, status). (rc, up_to_call rc r b, status))"

lemma sl_result_Some [simp]: "sl_result (Some (rc, r, b, status)) = Some (rc, up_to_call rc r b, status)"
  by (simp add: sl_result_def)

text \<open>
  Claim C15: the parser can be fed in pieces. If the first piece of the input ends in \<open>LAGAIN\<close>,
  the call that continues after more input has come gives what one call on the whole input gives; and a
  verdict other than \<open>LAGAIN\<close> is the verdict on the whole input already.
\<close>

theorem status_line_resumes:
  assumes "b_pos b \<le> mid" "mid \<le> b_last b"
  shows "case ngx_http_parse_status_line mem r (b\<lparr>b_last := mid\<rparr>) status of
    None \<Rightarrow> ngx_http_parse_status_line mem r b status = None
  | Some (rc, r1, b1, status1) \<Rightarrow>
      if rc = LAGAIN then
        sl_result (ngx_http_parse_status_line mem r1 (b1\<lparr>b_last := b_last b\<rparr>) status1) =
        sl_result (ngx_http_parse_status_line mem r b status)
      else ngx_http_parse_status_line mem r b status = Some (rc, r1, b1\<lparr>b_last := b_last b\<rparr>, status1)"
proof (cases "sl_state_of (rq_state r)")
  case None
  then show ?thesis using assms by (simp add: ngx_http_parse_status_line_def max_def)
next
  case (Some s)
  have whole: "sl_run mem (b_last b) (b_pos b) (s, r, status) =
    (case sl_run mem mid (b_pos b) (s, r, status) of
       Some (Ran_out v q) \<Rightarrow> sl_run mem (b_last b) mid v | out \<Rightarrow> out)"
    using assms by (intro sl.run_resume)
  show ?thesis
  proof (cases rule: sl_run_cases [where mem = mem and lim = mid and p = "b_pos b" and vars = "(s, r, status)"])
    case (again v)
    obtain s' r' status' where v: "v = (s', r', status')" by (cases v)
    have "sl_run mem (b_last b) mid (s', r'\<lparr>rq_state := sl_code s'\<rparr>, status') =
        map_option (map_scanned (sl_at (sl_code s')) id) (sl_run mem (b_last b) mid (s', r', status'))"
      by (rule sl_run_at)
    with again Some assms whole v show ?thesis
      by (cases rule: sl_run_cases [where mem = mem and lim = "b_last b" and p = mid and vars = "(s', r', status')"])
         (auto simp: ngx_http_parse_status_line_def Let_def max_def
           simp del: not_None_eq)
  next
    case (error v q)
    obtain s' r' status' where v: "v = (s', r', status')" by (cases v)
    with error Some whole show ?thesis by (simp add: ngx_http_parse_status_line_def)
  next
    case (done_label v q)
    obtain s' r' status' where v: "v = (s', r', status')" by (cases v)
    with done_label Some whole show ?thesis by (simp add: ngx_http_parse_status_line_def Let_def)
  qed
qed

theorem status_line_resumes_witness:
  "case ngx_http_parse_status_line (mem_of 100 (''HTTP/1.1 200 OK'' @ [CR, LF])) blank_request
       \<lparr>b_pos = 100, b_last = 107\<rparr> (rq_status blank_request) of
     None \<Rightarrow> False
   | Some (rc, r1, b1, status1) \<Rightarrow> rc = LAGAIN \<and> rq_state r1 = sl_code SL_first_minor_digit \<and>
       sl_result (ngx_http_parse_status_line (mem_of 100 (''HTTP/1.1 200 OK'' @ [CR, LF])) r1
         (b1\<lparr>b_last := 117\<rparr>) status1) =
       sl_result (ngx_http_parse_status_line (mem_of 100 (''HTTP/1.1 200 OK'' @ [CR, LF])) blank_request
         \<lparr>b_pos = 100, b_last = 117\<rparr> (rq_status blank_request))"
proof -
  let ?mem = "mem_of 100 (''HTTP/1.1 200 OK'' @ [CR, LF])"
  have "?mem 100 = CHR ''H''" "?mem 101 = CHR ''T''" "?mem 102 = CHR ''T''" "?mem 103 = CHR ''P''"
    "?mem 104 = CHR ''/''" "?mem 105 = CHR ''1''" "?mem 106 = CHR ''.''"
    by (simp_all add: mem_of_def)
  then obtain r1 b1 status1 where call: "ngx_http_parse_status_line ?mem blank_request
       \<lparr>b_pos = 100, b_last = 107\<rparr> (rq_status blank_request) = Some (LAGAIN, r1, b1, status1)"
      "rq_state r1 = sl_code SL_first_minor_digit"
    by (simp add: ngx_http_parse_status_line_def sl_rounds sl.run_end blank_request_def schar_def)
  then show ?thesis
    using status_line_resumes [where b = "\<lparr>b_pos = 100, b_last = 117\<rparr>" and mid = 107 and mem = ?mem
        and r = blank_request and status = "rq_status blank_request"] by simp
qed

text \<open>
  A status record that is not zeroed between two responses makes the second
  fail: \<open>++status->count == 3\<close> never holds when the count starts at 3 or more, the parser stays in \<open>sw_status\<close>
  after the code, and a well-formed line is \<open>LERROR\<close> at the first letter of its text.
\<close>

theorem status_line_stale_count:
  assumes line: "stored mem (b_pos b) (''HTTP/'' @ [M, CHR ''.'', N, CHR '' '', x, y, z, CHR '' '', t])"
    and room: "b_pos b + 14 \<le> b_last b"
    and digits: "is_digit M" "M \<noteq> CHR ''0''" "is_digit N" "is_digit x" "is_digit y" "is_digit z"
    and phrase: "\<not> is_digit t" "t \<noteq> CHR '' ''"
    and stale: "rq_state r = 0" "3 \<le> st_count status" "st_count status < 2147483644"
  shows "\<exists>r' status'. ngx_http_parse_status_line mem r b status = Some (LERROR, r', b, status')"
proof -
  let ?p = "b_pos b"
  have m: "49 \<le> schar M"
    using digits(1,2) schar_eq [of M "CHR ''0''"] by (simp add: is_digit_range schar_0)
  have parts: "stored mem ?p ''HTTP/''" "stored mem (?p + 5) [M, CHR ''.'', N, CHR '' '']"
      "stored mem (?p + 9) [x, y, z, CHR '' '', t]"
    using line by (simp_all add: add.commute)
  define r1 where "r1 = r\<lparr>rq_request_start := ?p, rq_http_protocol := (rq_http_protocol r)\<lparr>str_data := ?p\<rparr>,
    rq_http_major := schar M - 48, rq_http_minor := schar N - 48, rq_http_protocol_end := ?p + 7\<rparr>"
  have "sl_run mem (b_last b) ?p (SL_start, r, status) = sl_run mem (b_last b) (?p + 5)
      (SL_first_major_digit, r\<lparr>rq_request_start := ?p,
        rq_http_protocol := (rq_http_protocol r)\<lparr>str_data := ?p\<rparr>\<rparr>, status)"
    using room by (intro sl_run_protocol parts) simp
  also have "\<dots> = sl_run mem (b_last b) (?p + 9) (SL_status, r1, status)"
    using sl_run_version [OF parts(2) _ digits(1) m digits(3)] room by (simp add: r1_def add.commute)
  also obtain v where "\<dots> = Some (Halted (Return LERROR) v (?p + 13))"
  proof -
    assume "\<And>v. sl_run mem (b_last b) (?p + 9) (SL_status, r1, status) =
      Some (Halted (Return LERROR) v (?p + 13)) \<Longrightarrow> thesis"
    moreover have "\<exists>v. sl_run mem (b_last b) (?p + 9) (SL_status, r1, status) =
      Some (Halted (Return LERROR) v (?p + 13))"
      using parts(3) room digits(4-6) phrase stale(2,3) digit_not_sep
      by (simp add: sl_run_round sl_step_def sl_status_code_def Let_def i32_id add.commute)
    ultimately show thesis by blast
  qed
  finally have "sl_run mem (b_last b) ?p (SL_start, r, status) =
    Some (Halted (Return LERROR) v (?p + 13))" .
  then show ?thesis using stale(1) by (cases v) (simp add: ngx_http_parse_status_line_def)
qed


theorem status_line_stale_count_witness:
  "\<exists>r' status'. ngx_http_parse_status_line (mem_of 100 ''HTTP/1.1 200 OK'') blank_request
     \<lparr>b_pos = 100, b_last = 115\<rparr> (rq_status blank_request\<lparr>st_code := 200, st_count := 3\<rparr>) =
   Some (LERROR, r', \<lparr>b_pos = 100, b_last = 115\<rparr>, status')"
  using status_line_stale_count [of "mem_of 100 ''HTTP/1.1 200 OK''" "\<lparr>b_pos = 100, b_last = 115\<rparr>"
      "CHR ''1''" "CHR ''1''" "CHR ''2''" "CHR ''0''" "CHR ''0''" "CHR ''O''" blank_request
      "rq_status blank_request\<lparr>st_code := 200, st_count := 3\<rparr>"]
    stored_mem_of [of 100 "''HTTP/1.1 200 OK''"]
  by (simp add: is_digit_def schar_def blank_request_def)

end
