(* ===== verification/Parse_Header_Line.thy ===== *)
theory Parse_Header_Line
  imports Scanner
begin

text \<open>
  \<open>ngx_http_parse_header_line\<close> of ngx_http_parse.c: one header field, of a request or of a response.
  The loop's variables are the local \<open>state\<close>, the request, and the locals \<open>hash\<close> and \<open>i\<close>; the states
  are the code's with the prefix \<open>HL\<close> for \<open>sw\<close>. A store to \<open>r->lowcase_header\<close> outside its 32
  bytes is undefined.
\<close>

section \<open>The switch\<close>

datatype hl_state = HL_start | HL_name | HL_space_before_value | HL_value | HL_space_after_value
  | HL_ignore_line | HL_almost_done | HL_header_almost_done

type_synonym hl_vars = "hl_state \<times> request \<times> int \<times> int"

type_synonym hl_verdict = "(hl_vars, exit_label) verdict"

definition hl_states :: "hl_state list" where
  "hl_states = [HL_start, HL_name, HL_space_before_value, HL_value, HL_space_after_value,
     HL_ignore_line, HL_almost_done, HL_header_almost_done]"

primrec hl_code :: "hl_state \<Rightarrow> int" where
  "hl_code HL_start = 0"
| "hl_code HL_name = 1"
| "hl_code HL_space_before_value = 2"
| "hl_code HL_value = 3"
| "hl_code HL_space_after_value = 4"
| "hl_code HL_ignore_line = 5"
| "hl_code HL_almost_done = 6"
| "hl_code HL_header_almost_done = 7"

definition hl_state_of :: "int \<Rightarrow> hl_state option" where
  "hl_state_of n = (if 0 \<le> n then ld hl_states (nat n) else None)"

lemma hl_state_of_code [simp]: "hl_state_of (hl_code s) = Some s"
  by (cases s) (simp_all add: hl_state_of_def ld_def hl_states_def)

lemma hl_state_of_0 [simp]: "hl_state_of 0 = Some HL_start"
  by (simp add: hl_state_of_def ld_def hl_states_def)

text \<open>The static table \<open>lowcase\<close>, line by line, and \<open>lowcase[(unsigned char)ch]\<close>.\<close>

definition lowcase_table :: string where
  "lowcase_table =
     replicate 32 NUL @
     replicate 13 NUL @ ''-'' @ replicate 2 NUL @ ''0123456789'' @ replicate 6 NUL @
     [NUL] @ ''abcdefghijklmnopqrstuvwxyz'' @ replicate 5 NUL @
     [NUL] @ ''abcdefghijklmnopqrstuvwxyz'' @ replicate 5 NUL @
     replicate 32 NUL @ replicate 32 NUL @ replicate 32 NUL @ replicate 32 NUL"

definition lowcase :: "char \<Rightarrow> char" where
  "lowcase ch = lowcase_table ! of_char ch"

definition ngx_hash :: "int \<Rightarrow> char \<Rightarrow> int" where
  "ngx_hash key c = i32 (key * 31 + schar c)"

definition NGX_HTTP_LC_HEADER_LEN :: int where "NGX_HTTP_LC_HEADER_LEN = 32"

text \<open>\<open>r->lowcase_header[i] = c\<close>.\<close>

definition put_lowcase :: "request \<Rightarrow> int \<Rightarrow> char \<Rightarrow> request option" where
  "put_lowcase r i c =
     (if 0 \<le> i \<and> i < NGX_HTTP_LC_HEADER_LEN then
        map_option (\<lambda>lc. r\<lparr>rq_lowcase_header := lc\<rparr>) (st (rq_lowcase_header r) (nat i) c)
      else None)"

definition hl_start :: "int \<Rightarrow> char \<Rightarrow> int \<Rightarrow> request \<Rightarrow> int \<Rightarrow> int \<Rightarrow> hl_verdict option" where
  "hl_start allow_underscores ch p r0 hash i =
     (let r = r0\<lparr>rq_header_name_start := p, rq_invalid_header := 0\<rparr> in
      if ch = CR then Some (Next (HL_header_almost_done, r\<lparr>rq_header_end := p\<rparr>, hash, i))
      else if ch = LF then Some (Halt L_header_done (HL_start, r\<lparr>rq_header_end := p\<rparr>, hash, i))
      else
        let c = lowcase ch in
        if c \<noteq> NUL then
          do { r' \<leftarrow> put_lowcase r 0 c; Some (Next (HL_name, r', ngx_hash 0 c, 1)) }
        else if ch = CHR ''_'' then
          (if allow_underscores \<noteq> 0 then
             do { r' \<leftarrow> put_lowcase r 0 ch; Some (Next (HL_name, r', ngx_hash 0 ch, 1)) }
           else Some (Next (HL_name, r\<lparr>rq_invalid_header := 1\<rparr>, hash, i)))
        else if ch = NUL then
          Some (Halt (Return NGX_HTTP_PARSE_INVALID_HEADER) (HL_name, r, hash, i))
        else Some (Next (HL_name, r\<lparr>rq_invalid_header := 1\<rparr>, hash, i)))"

definition hl_name :: "char_mem \<Rightarrow> int \<Rightarrow> char \<Rightarrow> int \<Rightarrow> request \<Rightarrow> int \<Rightarrow> int \<Rightarrow> hl_verdict option" where
  "hl_name mem allow_underscores ch p r hash i =
     (let c = lowcase ch in
      if c \<noteq> NUL then
        do { r' \<leftarrow> put_lowcase r i c;
             Some (Next (HL_name, r', ngx_hash hash c, and (i + 1) (NGX_HTTP_LC_HEADER_LEN - 1))) }
      else if ch = CHR ''_'' then
        (if allow_underscores \<noteq> 0 then
           do { r' \<leftarrow> put_lowcase r i ch;
                Some (Next (HL_name, r', ngx_hash hash ch, and (i + 1) (NGX_HTTP_LC_HEADER_LEN - 1))) }
         else Some (Next (HL_name, r\<lparr>rq_invalid_header := 1\<rparr>, hash, i)))
      else if ch = CHR '':'' then
        Some (Next (HL_space_before_value, r\<lparr>rq_header_name_end := p\<rparr>, hash, i))
      else if ch = CR then
        Some (Next (HL_almost_done,
          r\<lparr>rq_header_name_end := p, rq_header_start := p, rq_header_end := p\<rparr>, hash, i))
      else if ch = LF then
        Some (Halt L_done (HL_name,
          r\<lparr>rq_header_name_end := p, rq_header_start := p, rq_header_end := p\<rparr>, hash, i))
      else if ch = CHR ''/'' \<and> rq_upstream r \<noteq> 0 \<and> p - rq_header_name_start r = 4
          \<and> stored mem (rq_header_name_start r) ''HTTP'' then
        Some (Next (HL_ignore_line, r, hash, i))
      else if ch = NUL then
        Some (Halt (Return NGX_HTTP_PARSE_INVALID_HEADER) (HL_name, r, hash, i))
      else Some (Next (HL_name, r\<lparr>rq_invalid_header := 1\<rparr>, hash, i)))"

text \<open>The three states that read the value.\<close>

definition hl_field :: "hl_state \<Rightarrow> char \<Rightarrow> int \<Rightarrow> request \<Rightarrow> int \<Rightarrow> int \<Rightarrow> hl_verdict" where
  "hl_field s ch p r hash i =
     (case s of
        HL_space_before_value \<Rightarrow>
          (if ch = CHR '' '' then Next (s, r, hash, i)
           else if ch = CR then
             Next (HL_almost_done, r\<lparr>rq_header_start := p, rq_header_end := p\<rparr>, hash, i)
           else if ch = LF then
             Halt L_done (s, r\<lparr>rq_header_start := p, rq_header_end := p\<rparr>, hash, i)
           else if ch = NUL then Halt (Return NGX_HTTP_PARSE_INVALID_HEADER) (s, r, hash, i)
           else Next (HL_value, r\<lparr>rq_header_start := p\<rparr>, hash, i))
      | HL_value \<Rightarrow>
          (if ch = CHR '' '' then Next (HL_space_after_value, r\<lparr>rq_header_end := p\<rparr>, hash, i)
           else if ch = CR then Next (HL_almost_done, r\<lparr>rq_header_end := p\<rparr>, hash, i)
           else if ch = LF then Halt L_done (s, r\<lparr>rq_header_end := p\<rparr>, hash, i)
           else if ch = NUL then Halt (Return NGX_HTTP_PARSE_INVALID_HEADER) (s, r, hash, i)
           else Next (s, r, hash, i))
      | _ \<Rightarrow>
          (if ch = CHR '' '' then Next (s, r, hash, i)
           else if ch = CR then Next (HL_almost_done, r, hash, i)
           else if ch = LF then Halt L_done (s, r, hash, i)
           else if ch = NUL then Halt (Return NGX_HTTP_PARSE_INVALID_HEADER) (s, r, hash, i)
           else Next (HL_value, r, hash, i)))"

text \<open>The ignored line and the two line ends.\<close>

definition hl_line_end :: "hl_state \<Rightarrow> char \<Rightarrow> request \<Rightarrow> int \<Rightarrow> int \<Rightarrow> hl_verdict" where
  "hl_line_end s ch r hash i =
     (case s of
        HL_ignore_line \<Rightarrow>
          (if ch = LF then Next (HL_start, r, hash, i) else Next (s, r, hash, i))
      | HL_almost_done \<Rightarrow>
          (if ch = LF then Halt L_done (s, r, hash, i)
           else if ch = CR then Next (s, r, hash, i)
           else Halt (Return NGX_HTTP_PARSE_INVALID_HEADER) (s, r, hash, i))
      | _ \<Rightarrow>
          (if ch = LF then Halt L_header_done (s, r, hash, i)
           else Halt (Return NGX_HTTP_PARSE_INVALID_HEADER) (s, r, hash, i)))"

definition hl_step :: "char_mem \<Rightarrow> int \<Rightarrow> int \<Rightarrow> hl_vars \<Rightarrow> hl_verdict option" where
  "hl_step mem allow_underscores p vars =
     (case vars of (s, r, hash, i) \<Rightarrow>
        (case s of
          HL_start \<Rightarrow> hl_start allow_underscores (mem p) p r hash i
        | HL_name \<Rightarrow> hl_name mem allow_underscores (mem p) p r hash i
        | HL_space_before_value \<Rightarrow> Some (hl_field s (mem p) p r hash i)
        | HL_value \<Rightarrow> Some (hl_field s (mem p) p r hash i)
        | HL_space_after_value \<Rightarrow> Some (hl_field s (mem p) p r hash i)
        | _ \<Rightarrow> Some (hl_line_end s (mem p) r hash i)))"

section \<open>The loop and the function\<close>

lemmas hl_defs = hl_step_def hl_start_def hl_name_def hl_field_def hl_line_end_def

lemma hl_step_no_back: "hl_step mem allow p vars \<noteq> Some (Back vars')"
proof -
  obtain s r hash i where v: "vars = (s, r, hash, i)" by (cases vars)
  show ?thesis
    by (cases s) (auto simp: v hl_defs Let_def bind_eq_Some_conv)
qed

function hl_run :: "char_mem \<Rightarrow> int \<Rightarrow> int \<Rightarrow> int \<Rightarrow> hl_vars \<Rightarrow> (hl_vars, exit_label) scanned option" where
  "hl_run mem allow lim p vars =
     (if p < lim then
        (case hl_step mem allow p vars of
           None \<Rightarrow> None
         | Some (Next vars') \<Rightarrow> hl_run mem allow lim (p + 1) vars'
         | Some (Back vars') \<Rightarrow> hl_run mem allow lim (p - 1 + 1) vars'
         | Some (Halt k vars') \<Rightarrow> Some (Halted k vars' p))
      else Some (Ran_out vars p))"
  by pat_completeness auto

termination
  by (relation "measure (\<lambda>(mem, allow, lim, p, vars). nat (lim - p))") (auto simp: hl_step_no_back)

declare hl_run.simps [simp del]

text \<open>
  As in the status line parser, a number that no enumerator has goes over the input and changes
  nothing. The length is a pointer difference kept in an \<open>int\<close>.
\<close>

definition ngx_http_parse_header_line ::
  "char_mem \<Rightarrow> request \<Rightarrow> cursor \<Rightarrow> int \<Rightarrow> (int \<times> request \<times> cursor) option"
where
  "ngx_http_parse_header_line mem r b allow_underscores =
     (case hl_state_of (rq_state r) of
        None \<Rightarrow> Some (LAGAIN, r, b\<lparr>b_pos := max (b_pos b) (b_last b)\<rparr>)
      | Some s \<Rightarrow> do {
          out \<leftarrow> hl_run mem allow_underscores (b_last b) (b_pos b)
                   (s, r, rq_header_hash r, rq_lowcase_index r);
          Some (case out of
            Ran_out (s', r', hash, i) p \<Rightarrow>
              (LAGAIN, r'\<lparr>rq_state := hl_code s', rq_header_hash := hash, rq_lowcase_index := i\<rparr>,
               b\<lparr>b_pos := p\<rparr>)
          | Halted (Return rc) (s', r', hash, i) p \<Rightarrow> (rc, r', b)
          | Halted L_done (s', r', hash, i) p \<Rightarrow>
              (LOK, r'\<lparr>rq_state := hl_code HL_start, rq_header_hash := hash,
                 rq_header_length := i32 (rq_header_end r' - rq_header_name_start r' + 2),
                 rq_lowcase_index := i\<rparr>, b\<lparr>b_pos := p + 1\<rparr>)
          | Halted L_header_done (s', r', hash, i) p \<Rightarrow>
              (NGX_HTTP_PARSE_HEADER_DONE, r'\<lparr>rq_state := hl_code HL_start\<rparr>, b\<lparr>b_pos := p + 1\<rparr>))
        })"

interpretation hl: scanner "hl_step mem allow" "hl_run mem allow" for mem allow
proof
  show "hl_run mem allow lim p s =
      (if p < lim then
         (case hl_step mem allow p s of
            None \<Rightarrow> None
          | Some (Next s') \<Rightarrow> hl_run mem allow lim (p + 1) s'
          | Some (Back s') \<Rightarrow> hl_run mem allow lim p s'
          | Some (Halt k s') \<Rightarrow> Some (Halted k s' p))
       else Some (Ran_out s p))" for lim p s
    by (subst hl_run.simps) (simp split: option.split verdict.split)
qed (simp add: hl_step_no_back)


section \<open>Running the switch\<close>

text \<open>The bytes of \<open>lowcase_header\<close> and the index into them.\<close>

definition lc_inv :: "request \<Rightarrow> int \<Rightarrow> bool" where
  "lc_inv r i \<longleftrightarrow> length (rq_lowcase_header r) = 32 \<and> 0 \<le> i \<and> i < 32"

lemma and_31: "and j (31::int) = j mod 32"
  using take_bit_eq_mask [of 5 j] by (simp add: take_bit_eq_mod mask_eq_exp_minus_1)

lemma put_lowcase_in:
  "lc_inv r i \<Longrightarrow> put_lowcase r i c = Some (r\<lparr>rq_lowcase_header := (rq_lowcase_header r)[nat i := c]\<rparr>)"
  by (simp add: lc_inv_def put_lowcase_def NGX_HTTP_LC_HEADER_LEN_def st_in nat_less_iff)

lemma lowcase_special [simp]:
  "lowcase (CHR '' '') = NUL" "lowcase CR = NUL" "lowcase LF = NUL" "lowcase NUL = NUL"
  "lowcase (CHR '':'') = NUL" "lowcase (CHR ''_'') = NUL" "lowcase (CHR ''/'') = NUL"
  by (simp_all add: lowcase_def lowcase_table_def crlf_defs nth_append)

lemma lowcase_not: "lowcase c \<noteq> NUL \<Longrightarrow> c \<noteq> CHR '' '' \<and> c \<noteq> CR \<and> c \<noteq> LF \<and> c \<noteq> NUL \<and> c \<noteq> CHR '':''"
  by auto

lemma hl_run_first:
  assumes "mem p = c" "p < lim" "lowcase c \<noteq> NUL" "length (rq_lowcase_header r) = 32"
  shows "hl_run mem allow lim p (HL_start, r, h, i) = hl_run mem allow lim (p + 1)
    (HL_name, r\<lparr>rq_header_name_start := p, rq_invalid_header := 0,
       rq_lowcase_header := (rq_lowcase_header r)[0 := lowcase c]\<rparr>, ngx_hash 0 (lowcase c), 1)"
  using assms lowcase_not [OF assms(3)]
  by (intro hl.run_next) (simp_all add: hl_step_def hl_start_def put_lowcase_in lc_inv_def Let_def)

lemma hl_run_name:
  assumes "stored mem p name" "p + int (length name) \<le> lim" "\<forall>c\<in>set name. lowcase c \<noteq> NUL"
    and "length (rq_lowcase_header r) = 32" "i + length name < 32"
  shows "hl_run mem allow lim p (HL_name, r, h, int i) =
    hl_run mem allow lim (p + int (length name)) (HL_name,
      r\<lparr>rq_lowcase_header := take i (rq_lowcase_header r) @ map lowcase name @
         drop (i + length name) (rq_lowcase_header r)\<rparr>,
      foldl ngx_hash h (map lowcase name), int (i + length name))"
  using assms
proof (induction name arbitrary: p r h i)
  case (Cons c name)
  let ?lc = "rq_lowcase_header r"
  let ?r = "r\<lparr>rq_lowcase_header := ?lc[i := lowcase c]\<rparr>"
  have "lc_inv r (int i)" using Cons.prems by (simp add: lc_inv_def)
  moreover have "and (int i + 1) 31 = int (Suc i)"
    using Cons.prems by (simp add: and_31)
  ultimately have "hl_run mem allow lim p (HL_name, r, h, int i) =
      hl_run mem allow lim (p + 1) (HL_name, ?r, ngx_hash h (lowcase c), int (Suc i))"
    using Cons.prems
    by (intro hl.run_next) (auto simp: hl_step_def hl_name_def put_lowcase_in NGX_HTTP_LC_HEADER_LEN_def Let_def)
  also have "\<dots> = hl_run mem allow lim (p + 1 + int (length name)) (HL_name,
      ?r\<lparr>rq_lowcase_header := take (Suc i) (?lc[i := lowcase c]) @ map lowcase name @
         drop (Suc i + length name) (?lc[i := lowcase c])\<rparr>,
      foldl ngx_hash (ngx_hash h (lowcase c)) (map lowcase name), int (Suc i + length name))"
    using Cons.prems Cons.IH [of "p + 1" ?r "Suc i" "ngx_hash h (lowcase c)"] by simp
  also have "take (Suc i) (?lc[i := lowcase c]) = take i ?lc @ [lowcase c]"
    using Cons.prems by (simp add: take_Suc_conv_app_nth)
  finally show ?case by (simp add: algebra_simps)
qed simp

lemma hl_run_spaces:
  assumes "stored mem p (replicate n (CHR '' ''))" "p + int n \<le> lim"
    and "s = HL_space_before_value \<or> s = HL_space_after_value"
  shows "hl_run mem allow lim p (s, r, h, i) = hl_run mem allow lim (p + int n) (s, r, h, i)"
proof (rule hl.run_stay)
  fix x assume x: "p \<le> x" "x < p + int n"
  with stored_in [OF assms(1) x(1)] have "mem x = CHR '' ''" by auto
  with assms(3) show "hl_step mem allow x (s, r, h, i) = Some (Next (s, r, h, i))"
    by (auto simp: hl_step_def hl_field_def)
qed (use assms(2) in auto)

lemma hl_run_text:
  assumes "stored mem p t" "p + int (length t) \<le> lim" "CR \<notin> set t" "LF \<notin> set t" "NUL \<notin> set t"
    and "if t = [] then s = HL_value else List.last t \<noteq> CHR '' ''"
    and "s = HL_value \<or> s = HL_space_after_value"
  shows "\<exists>e. hl_run mem allow lim p (s, r, h, i) =
    hl_run mem allow lim (p + int (length t)) (HL_value, r\<lparr>rq_header_end := e\<rparr>, h, i)"
  using assms
proof (induction t arbitrary: p s r)
  case Nil
  then show ?case by (intro exI [of _ "rq_header_end r"]) simp
next
  case (Cons c t)
  have c: "mem p = c" "c \<noteq> CR" "c \<noteq> LF" "c \<noteq> NUL" "p < lim" using Cons.prems by auto
  obtain s' e where step: "hl_run mem allow lim p (s, r, h, i) =
        hl_run mem allow lim (p + 1) (s', r\<lparr>rq_header_end := e\<rparr>, h, i)"
      "s' = (if c = CHR '' '' then HL_space_after_value else HL_value)"
  proof -
    have keep: "r\<lparr>rq_header_end := rq_header_end r\<rparr> = r" by simp
    have "\<exists>e. hl_step mem allow p (s, r, h, i) = Some (Next
        (if c = CHR '' '' then HL_space_after_value else HL_value, r\<lparr>rq_header_end := e\<rparr>, h, i))"
    proof (cases "s = HL_value \<and> c = CHR '' ''")
      case True
      then show ?thesis using c by (intro exI [of _ p]) (simp add: hl_step_def hl_field_def crlf_defs)
    next
      case False
      then show ?thesis
        using c Cons.prems(7) by (intro exI [of _ "rq_header_end r"]) (auto simp: hl_step_def hl_field_def)
    qed
    then obtain e where "hl_step mem allow p (s, r, h, i) = Some (Next
        (if c = CHR '' '' then HL_space_after_value else HL_value, r\<lparr>rq_header_end := e\<rparr>, h, i))"
      by blast
    from hl.run_next [OF c(5) this] show ?thesis by (rule that) (rule refl)
  qed
  have "\<exists>e'. hl_run mem allow lim (p + 1) (s', r\<lparr>rq_header_end := e\<rparr>, h, i) =
      hl_run mem allow lim (p + 1 + int (length t)) (HL_value, r\<lparr>rq_header_end := e, rq_header_end := e'\<rparr>, h, i)"
  proof (rule Cons.IH)
    show "if t = [] then s' = HL_value else List.last t \<noteq> CHR '' ''"
      using Cons.prems(6) step(2) by (simp split: if_splits)
    show "s' = HL_value \<or> s' = HL_space_after_value" using step(2) by simp
  qed (use Cons.prems in auto)
  then show ?case using step(1) by (auto simp: algebra_simps)
qed


lemma hl_run_value:
  assumes "stored mem p (replicate n (CHR '' '') @ v @ replicate k (CHR '' '') @ [CR, LF])"
    and "p + int (n + length v + k) + 2 \<le> lim"
    and "CR \<notin> set v" "LF \<notin> set v" "NUL \<notin> set v"
    and "if v = [] then k = 0 else hd v \<noteq> CHR '' '' \<and> List.last v \<noteq> CHR '' ''"
  shows "hl_run mem allow lim p (HL_space_before_value, r, h, i) = Some (Halted L_done
    (HL_almost_done, r\<lparr>rq_header_start := p + int n, rq_header_end := p + int (n + length v)\<rparr>, h, i)
    (p + int (n + length v + k) + 1))"
proof -
  let ?s = "p + int n" and ?e = "p + int (n + length v)" and ?c = "p + int (n + length v + k)"
  have parts: "stored mem p (replicate n (CHR '' ''))" "stored mem ?s v"
      "stored mem ?e (replicate k (CHR '' ''))" "mem ?c = CR" "mem (?c + 1) = LF"
    using assms(1) by (simp_all add: stored_append algebra_simps)
  have sp: "hl_run mem allow lim p (HL_space_before_value, r, h, i) =
      hl_run mem allow lim ?s (HL_space_before_value, r, h, i)"
    using parts(1) assms(2) by (intro hl_run_spaces) auto
  have fin: "hl_run mem allow lim (?c + 1) (HL_almost_done, r', h, i) =
      Some (Halted L_done (HL_almost_done, r', h, i) (?c + 1))" for r'
    using parts(5) assms(2) by (intro hl.run_halt) (simp_all add: hl_step_def hl_line_end_def)
  show ?thesis
  proof (cases v)
    case Nil
    then have "hl_run mem allow lim ?s (HL_space_before_value, r, h, i) = hl_run mem allow lim (?c + 1)
        (HL_almost_done, r\<lparr>rq_header_start := ?s, rq_header_end := ?s\<rparr>, h, i)"
      using parts(4) assms(2,6) by (simp add: hl.run_next hl_step_def hl_field_def crlf_defs)
    with sp fin Nil assms(6) show ?thesis by simp
  next
    case (Cons a w)
    let ?r = "r\<lparr>rq_header_start := ?s\<rparr>"
    have first: "hl_run mem allow lim ?s (HL_space_before_value, r, h, i) =
        hl_run mem allow lim (?s + 1) (HL_value, ?r, h, i)"
      using parts(2) assms(2-6) Cons by (intro hl.run_next) (auto simp: hl_step_def hl_field_def)
    have "\<exists>e. hl_run mem allow lim (?s + 1) (HL_value, ?r, h, i) =
        hl_run mem allow lim (?s + 1 + int (length w)) (HL_value, ?r\<lparr>rq_header_end := e\<rparr>, h, i)"
      using parts(2) assms(2-6) Cons by (intro hl_run_text) (auto split: if_splits)
    then obtain e where phrase: "hl_run mem allow lim (?s + 1) (HL_value, ?r, h, i) =
        hl_run mem allow lim ?e (HL_value, ?r\<lparr>rq_header_end := e\<rparr>, h, i)"
      by (auto simp: Cons algebra_simps)
    have "hl_run mem allow lim ?e (HL_value, ?r\<lparr>rq_header_end := e\<rparr>, h, i) =
        hl_run mem allow lim (?c + 1) (HL_almost_done, ?r\<lparr>rq_header_end := ?e\<rparr>, h, i)"
    proof (cases k)
      case 0
      then have "?e = ?c" "?e < lim" using assms(2) by simp_all
      moreover have "hl_step mem allow ?c (HL_value, ?r\<lparr>rq_header_end := e\<rparr>, h, i) =
          Some (Next (HL_almost_done, ?r\<lparr>rq_header_end := ?c\<rparr>, h, i))"
        using parts(4) by (simp add: hl_step_def hl_field_def crlf_defs)
      ultimately show ?thesis by (simp only: hl.run_next)
    next
      case (Suc j)
      have "hl_run mem allow lim ?e (HL_value, ?r\<lparr>rq_header_end := e\<rparr>, h, i) =
          hl_run mem allow lim (?e + 1) (HL_space_after_value, ?r\<lparr>rq_header_end := ?e\<rparr>, h, i)"
        using parts(3) assms(2) Suc by (intro hl.run_next) (auto simp: hl_step_def hl_field_def)
      also have "\<dots> = hl_run mem allow lim (?e + 1 + int j) (HL_space_after_value, ?r\<lparr>rq_header_end := ?e\<rparr>, h, i)"
        using parts(3) assms(2) Suc by (intro hl_run_spaces) auto
      also have "?e + 1 + int j = ?c" using Suc by simp
      also have "hl_run mem allow lim ?c (HL_space_after_value, ?r\<lparr>rq_header_end := ?e\<rparr>, h, i) =
          hl_run mem allow lim (?c + 1) (HL_almost_done, ?r\<lparr>rq_header_end := ?e\<rparr>, h, i)"
        using parts(4) assms(2) by (intro hl.run_next) (auto simp: hl_step_def hl_field_def crlf_defs)
      finally show ?thesis .
    qed
    with sp first phrase fin show ?thesis by simp
  qed
qed

lemma header_field_ok:
  assumes line: "stored mem (b_pos b)
      (name @ '':'' @ replicate n (CHR '' '') @ v @ replicate k (CHR '' '') @ [CR, LF])"
    and room: "b_pos b + int (length name + n + length v + k) + 3 \<le> b_last b"
    and name: "name \<noteq> []" "length name < 32" "\<forall>c\<in>set name. lowcase c \<noteq> NUL"
    and val: "CR \<notin> set v" "LF \<notin> set v" "NUL \<notin> set v"
      "if v = [] then k = 0 else hd v \<noteq> CHR '' '' \<and> List.last v \<noteq> CHR '' ''"
    and fresh: "rq_state r = 0" "length (rq_lowcase_header r) = 32"
    and small: "length name + n + length v < 2147483645"
  shows "ngx_http_parse_header_line mem r b allow = Some (LOK,
     r\<lparr>rq_header_name_start := b_pos b, rq_header_name_end := b_pos b + int (length name),
       rq_header_start := b_pos b + int (length name + 1 + n),
       rq_header_end := b_pos b + int (length name + 1 + n + length v),
       rq_invalid_header := 0,
       rq_lowcase_header := map lowcase name @ drop (length name) (rq_lowcase_header r),
       rq_lowcase_index := int (length name),
       rq_header_hash := foldl ngx_hash 0 (map lowcase name),
       rq_header_length := int (length name + 1 + n + length v) + 2\<rparr>,
     b\<lparr>b_pos := b_pos b + int (length name + n + length v + k) + 3\<rparr>)"
proof -
  let ?p = "b_pos b" and ?q = "b_pos b + int (length name)"
  obtain c cs where cs: "name = c # cs" using name(1) by (cases name) auto
  have parts: "mem ?p = c" "stored mem (?p + 1) cs" "mem ?q = CHR '':''"
      "stored mem (?q + 1) (replicate n (CHR '' '') @ v @ replicate k (CHR '' '') @ [CR, LF])"
    using line by (simp_all add: stored_append cs algebra_simps)
  let ?lc = "map lowcase name @ drop (length name) (rq_lowcase_header r)"
  let ?h = "foldl ngx_hash 0 (map lowcase name)"
  let ?r1 = "r\<lparr>rq_header_name_start := ?p, rq_invalid_header := 0, rq_lowcase_header := ?lc\<rparr>"
  have "hl_run mem allow (b_last b) ?p (HL_start, r, rq_header_hash r, rq_lowcase_index r) =
      hl_run mem allow (b_last b) (?p + 1) (HL_name, r\<lparr>rq_header_name_start := ?p, rq_invalid_header := 0,
        rq_lowcase_header := (rq_lowcase_header r)[0 := lowcase c]\<rparr>, ngx_hash 0 (lowcase c), int 1)"
    using hl_run_first [of mem ?p c "b_last b" r] parts(1) room name(3) fresh(2) cs by simp
  also have "\<dots> = hl_run mem allow (b_last b) (?p + 1 + int (length cs)) (HL_name,
      r\<lparr>rq_header_name_start := ?p, rq_invalid_header := 0,
        rq_lowcase_header := take 1 ((rq_lowcase_header r)[0 := lowcase c]) @ map lowcase cs @
          drop (1 + length cs) ((rq_lowcase_header r)[0 := lowcase c])\<rparr>, ?h, int (1 + length cs))"
    using room name fresh(2) cs by (subst hl_run_name [OF parts(2)]) auto
  also have "take 1 ((rq_lowcase_header r)[0 := lowcase c]) @ map lowcase cs @
      drop (1 + length cs) ((rq_lowcase_header r)[0 := lowcase c]) = ?lc"
    using fresh(2) cs by (cases "rq_lowcase_header r") auto
  also have "hl_run mem allow (b_last b) (?p + 1 + int (length cs)) (HL_name, ?r1, ?h, int (1 + length cs)) =
      hl_run mem allow (b_last b) (?q + 1)
        (HL_space_before_value, ?r1\<lparr>rq_header_name_end := ?q\<rparr>, ?h, int (length name))"
  proof -
    have "hl_step mem allow ?q (HL_name, ?r1, ?h, int (length name)) =
        Some (Next (HL_space_before_value, ?r1\<lparr>rq_header_name_end := ?q\<rparr>, ?h, int (length name)))"
      using parts(3) by (simp add: hl_step_def hl_name_def)
    moreover have "?p + 1 + int (length cs) = ?q" "1 + length cs = length name" "?q < b_last b"
      using room by (simp_all add: cs)
    ultimately show ?thesis by (simp only: hl.run_next)
  qed
  also have "\<dots> = Some (Halted L_done (HL_almost_done, ?r1\<lparr>rq_header_name_end := ?q,
      rq_header_start := ?q + 1 + int n, rq_header_end := ?q + 1 + int (n + length v)\<rparr>, ?h, int (length name))
      (?q + 1 + int (n + length v + k) + 1))"
    using room by (intro hl_run_value [OF parts(4) _ val]) simp
  finally have run: "hl_run mem allow (b_last b) ?p (HL_start, r, rq_header_hash r, rq_lowcase_index r) = \<dots>" .
  have len: "i32 (?q + 1 + int (n + length v) - ?p + 2) = int (length name + 1 + n + length v) + 2"
    using small by (simp add: i32_id)
  show ?thesis
    using fresh(1) run len by (simp add: ngx_http_parse_header_line_def algebra_simps)
qed

text \<open>
  Claim C11: a header line \<open>name: value CR LF\<close>, with any number of spaces before the value and
  behind it and with spaces inside it, is \<open>LOK\<close>: the name and the value without the spaces around it are
  delimited exactly, the name is stored in lower case with its length as index, the hash is that of the lower case
  name, the length covers the line up to the end of the value and its CR LF, the field counts as valid, and the cursor is
  behind the LF. An empty value is an empty stretch in front of the CR.
\<close>

theorem header_field_parsed:
  assumes line: "stored mem (b_pos b)
      (name @ '':'' @ replicate n (CHR '' '') @ v @ replicate k (CHR '' '') @ [CR, LF])"
    and room: "b_pos b + int (length name + n + length v + k) + 3 \<le> b_last b"
    and name: "name \<noteq> []" "length name < 32" "\<forall>c\<in>set name. lowcase c \<noteq> NUL"
    and val: "CR \<notin> set v" "LF \<notin> set v" "NUL \<notin> set v"
      "if v = [] then k = 0 else hd v \<noteq> CHR '' '' \<and> List.last v \<noteq> CHR '' ''"
    and fresh: "rq_state r = 0" "length (rq_lowcase_header r) = 32"
    and small: "length name + n + length v < 2147483645"
  shows "ngx_http_parse_header_line mem r b allow = Some (LOK,
     r\<lparr>rq_header_name_start := b_pos b, rq_header_name_end := b_pos b + int (length name),
       rq_header_start := b_pos b + int (length name + 1 + n),
       rq_header_end := b_pos b + int (length name + 1 + n + length v),
       rq_invalid_header := 0,
       rq_lowcase_header := map lowcase name @ drop (length name) (rq_lowcase_header r),
       rq_lowcase_index := int (length name),
       rq_header_hash := foldl ngx_hash 0 (map lowcase name),
       rq_header_length := int (length name + 1 + n + length v) + 2\<rparr>,
     b\<lparr>b_pos := b_pos b + int (length name + n + length v + k) + 3\<rparr>)"
  using assms by (rule header_field_ok)

theorem header_field_parsed_witness:
  "\<exists>r'. ngx_http_parse_header_line (mem_of 100 (''Host:  a b '' @ [CR, LF])) blank_request
     \<lparr>b_pos = 100, b_last = 113\<rparr> 1 = Some (LOK, r', \<lparr>b_pos = 113, b_last = 113\<rparr>) \<and>
   rq_header_name_end r' = 104 \<and> rq_header_start r' = 107 \<and> rq_header_end r' = 110 \<and>
   take 4 (rq_lowcase_header r') = ''host'' \<and> rq_header_hash r' = 3208616"
  using header_field_parsed [where mem = "mem_of 100 (''Host:  a b '' @ [CR, LF])"
      and b = "\<lparr>b_pos = 100, b_last = 113\<rparr>" and name = "''Host''" and n = 2 and v = "''a b''" and k = 1
      and r = blank_request and allow = 1]
    stored_mem_of [of 100 "''Host:  a b '' @ [CR, LF]"]
  by (simp add: blank_request_def crlf_defs numeral_2_eq_2 lowcase_def lowcase_table_def nth_append
      ngx_hash_def schar_def i32_def)

subsection \<open>What every call keeps\<close>

definition hl_ok :: "int \<Rightarrow> hl_vars \<Rightarrow> bool" where
  "hl_ok p vars = (case vars of (s, r, h, i) \<Rightarrow> lc_inv r i)"

lemma lc_inv_put:
  assumes "lc_inv r i" "0 \<le> j" "j < 32"
  shows "lc_inv (r\<lparr>rq_lowcase_header := (rq_lowcase_header r)[k := c]\<rparr>) j"
  using assms by (simp add: lc_inv_def)

lemma lc_inv_other [simp]:
  "lc_inv (r\<lparr>rq_header_name_start := x\<rparr>) i = lc_inv r i" "lc_inv (r\<lparr>rq_header_name_end := x\<rparr>) i = lc_inv r i"
  "lc_inv (r\<lparr>rq_header_start := x\<rparr>) i = lc_inv r i" "lc_inv (r\<lparr>rq_header_end := x\<rparr>) i = lc_inv r i"
  "lc_inv (r\<lparr>rq_invalid_header := x\<rparr>) i = lc_inv r i" "lc_inv (r\<lparr>rq_state := x\<rparr>) i = lc_inv r i"
  "lc_inv (r\<lparr>rq_header_hash := x\<rparr>) i = lc_inv r i" "lc_inv (r\<lparr>rq_lowcase_index := x\<rparr>) i = lc_inv r i"
  "lc_inv (r\<lparr>rq_header_length := x\<rparr>) i = lc_inv r i"
  by (simp_all add: lc_inv_def)

lemma lc_inv_range: "lc_inv r i \<Longrightarrow> lc_inv r 0"
  by (simp add: lc_inv_def)

text \<open>The verdict of one round, from variables that are well-formed.\<close>

definition hl_fine :: "hl_verdict option \<Rightarrow> bool" where
  "hl_fine v = (case v of
     None \<Rightarrow> False
   | Some (Next (s, r, h, i)) \<Rightarrow> lc_inv r i
   | Some (Back _) \<Rightarrow> False
   | Some (Halt k (s, r, h, i)) \<Rightarrow> lc_inv r i \<and>
       (k = Return NGX_HTTP_PARSE_INVALID_HEADER \<or> k = L_done \<or> k = L_header_done))"

lemma hl_fine_start: "lc_inv r i \<Longrightarrow> hl_fine (hl_start allow ch p r h i)"
  by (simp add: hl_start_def hl_fine_def Let_def put_lowcase_in [where i = 0] lc_inv_range)
     (simp add: lc_inv_def)

lemma hl_fine_name: "lc_inv r i \<Longrightarrow> hl_fine (hl_name mem allow ch p r h i)"
  by (auto simp: hl_name_def hl_fine_def Let_def put_lowcase_in NGX_HTTP_LC_HEADER_LEN_def and_31
      intro!: lc_inv_put)

lemma hl_fine_field: "lc_inv r i \<Longrightarrow> hl_fine (Some (hl_field s ch p r h i))"
  by (cases s) (simp_all add: hl_field_def hl_fine_def)

lemma hl_fine_line_end: "lc_inv r i \<Longrightarrow> hl_fine (Some (hl_line_end s ch r h i))"
  by (cases s) (simp_all add: hl_line_end_def hl_fine_def)

lemma hl_fine_step: "hl_ok p vars \<Longrightarrow> hl_fine (hl_step mem allow p vars)"
proof -
  obtain s r h i where v: "vars = (s, r, h, i)" by (cases vars)
  show "hl_ok p vars \<Longrightarrow> hl_fine (hl_step mem allow p vars)"
    by (cases s) (simp_all add: v hl_ok_def hl_step_def hl_fine_start hl_fine_name hl_fine_field hl_fine_line_end)
qed

lemma hl_step_next: "hl_ok p vars \<Longrightarrow> hl_step mem allow p vars = Some (Next v) \<Longrightarrow> hl_ok q v"
  using hl_fine_step [of p vars mem allow] by (cases v) (simp add: hl_fine_def hl_ok_def)

lemma hl_step_halt:
  assumes "hl_ok p vars" "hl_step mem allow p vars = Some (Halt k v)"
  shows "hl_ok p v \<and> (k = Return NGX_HTTP_PARSE_INVALID_HEADER \<or> k = L_done \<or> k = L_header_done)"
  using hl_fine_step [OF assms(1), of mem allow] assms(2) by (cases v) (simp add: hl_fine_def hl_ok_def)

lemma hl_step_defined: "hl_ok p vars \<Longrightarrow> hl_step mem allow p vars \<noteq> None"
  using hl_fine_step [of p vars mem allow] by (cases "hl_step mem allow p vars") (simp_all add: hl_fine_def)

lemma hl_step_ends_line:
  assumes "hl_step mem allow p vars = Some (Halt k v)" "k = L_done \<or> k = L_header_done"
  shows "mem p = LF"
proof -
  obtain s r h i where v: "vars = (s, r, h, i)" by (cases vars)
  show ?thesis
    using assms
    by (cases s) (auto simp: v hl_defs Let_def bind_eq_Some_conv split: if_splits)
qed

text \<open>How a run ends.\<close>

lemma hl_run_cases:
  assumes "lc_inv r i"
  obtains (again) s' r' h' i' where "lc_inv r' i'"
      "hl_run mem allow lim p (s, r, h, i) = Some (Ran_out (s', r', h', i') (max p lim))"
    | (error) v q where
      "hl_run mem allow lim p (s, r, h, i) = Some (Halted (Return NGX_HTTP_PARSE_INVALID_HEADER) v q)"
    | (end_line) k s' r' h' i' q where "hl_run mem allow lim p (s, r, h, i) = Some (Halted k (s', r', h', i') q)"
      "k = L_done \<or> k = L_header_done" "lc_inv r' i'" "p \<le> q" "q < lim" "mem q = LF"
proof -
  have ok: "hl_ok p (s, r, h, i)" using assms by (simp add: hl_ok_def)
  have "hl_run mem allow lim p (s, r, h, i) \<noteq> None"
    by (rule hl.run_defined [of hl_ok, OF _ _ _ ok])
       (auto dest: hl_step_next hl_step_defined simp: hl_step_no_back simp del: not_None_eq)
  then obtain out where out: "hl_run mem allow lim p (s, r, h, i) = Some out" by blast
  have inv: "case out of Ran_out s' q \<Rightarrow> hl_ok q s'
     | Halted k s' q \<Rightarrow> \<exists>s0. hl_ok q s0 \<and> q < lim \<and> hl_step mem allow q s0 = Some (Halt k s')"
    by (rule hl.run_invariant [of hl_ok, OF _ _ ok out]) (auto dest: hl_step_next simp: hl_step_no_back)
  show ?thesis
  proof (cases out)
    case (Ran_out v q)
    then show ?thesis
      using again out inv hl.run_out_range by (cases v) (auto simp: hl_ok_def)
  next
    case (Halted k v q)
    then obtain s0 where s0: "hl_ok q s0" "hl_step mem allow q s0 = Some (Halt k v)" using inv by auto
    have range: "p \<le> q" "q < lim" using hl.run_halted_range out Halted by auto
    from hl_step_halt [OF s0] consider "k = Return NGX_HTTP_PARSE_INVALID_HEADER"
      | "k = L_done \<or> k = L_header_done" by blast
    then show ?thesis
    proof cases
      case 1
      then show ?thesis using error out Halted by blast
    next
      case 2
      obtain s' r' h' i' where v: "v = (s', r', h', i')" by (cases v)
      have "lc_inv r' i'" using hl_step_halt [OF s0] v by (simp add: hl_ok_def)
      with end_line out Halted v 2 range hl_step_ends_line [OF s0(2) 2] show ?thesis by blast
    qed
  qed
qed


text \<open>The switch does not read what the function stores back from its locals.\<close>

definition hl_at :: "int \<Rightarrow> int \<Rightarrow> int \<Rightarrow> hl_vars \<Rightarrow> hl_vars" where
  "hl_at n h j = (\<lambda>(s, r, hash, i).
     (s, r\<lparr>rq_state := n, rq_header_hash := h, rq_lowcase_index := j\<rparr>, hash, i))"

lemma hl_at_simp [simp]:
  "hl_at n h j (s, r, hash, i) =
     (s, r\<lparr>rq_state := n, rq_header_hash := h, rq_lowcase_index := j\<rparr>, hash, i)"
  by (simp add: hl_at_def)

lemma put_lowcase_at:
  "put_lowcase (r\<lparr>rq_state := n, rq_header_hash := h, rq_lowcase_index := j\<rparr>) i c =
     map_option (\<lambda>r. r\<lparr>rq_state := n, rq_header_hash := h, rq_lowcase_index := j\<rparr>) (put_lowcase r i c)"
  by (auto simp: put_lowcase_def st_def)

lemma put_lowcase_at_start:
  "put_lowcase (r\<lparr>rq_state := n, rq_header_hash := h, rq_lowcase_index := j,
       rq_header_name_start := p, rq_invalid_header := x\<rparr>) i c =
     map_option (\<lambda>r. r\<lparr>rq_state := n, rq_header_hash := h, rq_lowcase_index := j\<rparr>)
       (put_lowcase (r\<lparr>rq_header_name_start := p, rq_invalid_header := x\<rparr>) i c)"
  by (auto simp: put_lowcase_def st_def)

lemma hl_at_bind:
  "map_option (\<lambda>r. r\<lparr>rq_state := n, rq_header_hash := h, rq_lowcase_index := j\<rparr>) x \<bind>
     (\<lambda>r'. Some (Next (s, r', hash, i))) =
   map_option (map_verdict (hl_at n h j) id) (x \<bind> (\<lambda>r'. Some (Next (s, r', hash, i))))"
  by (cases x) simp_all

lemma hl_step_at: "hl_step mem allow p (hl_at n h j vars) = map_option (map_verdict (hl_at n h j) id) (hl_step mem allow p vars)"
proof -
  obtain s r hash i where v: "vars = (s, r, hash, i)" by (cases vars)
  show ?thesis
  proof (cases s)
    case HL_start
    then show ?thesis
      by (simp add: v hl_step_def hl_start_def Let_def put_lowcase_at_start map_option_case split: option.split)
  next
    case HL_name
    then show ?thesis
      by (simp add: v hl_step_def hl_name_def Let_def put_lowcase_at hl_at_bind
            if_distrib [of "map_option (map_verdict (hl_at n h j) id)"] del: stored.simps
            cong: if_cong split del: if_split)
         (intro if_cong refl; simp)
  qed (simp_all add: v hl_step_def hl_field_def hl_line_end_def)
qed

lemma hl_run_at:
  "hl_run mem allow lim p (s, r\<lparr>rq_state := n, rq_header_hash := h, rq_lowcase_index := j\<rparr>, hash, i) =
    map_option (map_scanned (hl_at n h j) id) (hl_run mem allow lim p (s, r, hash, i))"
proof -
  have "hl_run mem allow lim p (hl_at n h j (s, r, hash, i)) =
      map_option (map_scanned (hl_at n h j) id) (hl_run mem allow lim p (s, r, hash, i))"
    by (rule hl.run_map) (rule hl_step_at)
  then show ?thesis by simp
qed



definition hl_result :: "(int \<times> request \<times> cursor) option \<Rightarrow> (int \<times> request \<times> cursor) option" where
  "hl_result = map_option (\<lambda>(rc, r, b). (rc, up_to_call rc
     (if rc = LOK \<or> rc = LAGAIN then r else r\<lparr>rq_header_hash := 0, rq_lowcase_index := 0\<rparr>) b))"

lemma hl_result_Some [simp]:
  "hl_result (Some (rc, r, b)) = Some (rc, up_to_call rc
     (if rc = LOK \<or> rc = LAGAIN then r else r\<lparr>rq_header_hash := 0, rq_lowcase_index := 0\<rparr>) b)"
  by (simp add: hl_result_def)

text \<open>
  Claim C14: the header parser can be fed in pieces. If the first piece ends in \<open>LAGAIN\<close>,
  the call that continues gives what one call on the whole input gives, hash and lower case index included; any other verdict on the
  first piece is the verdict on the whole.
\<close>

theorem header_line_resumes:
  assumes "b_pos b \<le> mid" "mid \<le> b_last b" "lc_inv r (rq_lowcase_index r)"
  shows "case ngx_http_parse_header_line mem r (b\<lparr>b_last := mid\<rparr>) allow of
    None \<Rightarrow> False
  | Some (rc, r1, b1) \<Rightarrow>
      if rc = LAGAIN then
        hl_result (ngx_http_parse_header_line mem r1 (b1\<lparr>b_last := b_last b\<rparr>) allow) =
        hl_result (ngx_http_parse_header_line mem r b allow)
      else ngx_http_parse_header_line mem r b allow = Some (rc, r1, b1\<lparr>b_last := b_last b\<rparr>)"
proof (cases "hl_state_of (rq_state r)")
  case None
  then show ?thesis using assms by (simp add: ngx_http_parse_header_line_def max_def)
next
  case (Some s)
  let ?h = "rq_header_hash r" and ?i = "rq_lowcase_index r"
  have whole: "hl_run mem allow (b_last b) (b_pos b) (s, r, ?h, ?i) =
    (case hl_run mem allow mid (b_pos b) (s, r, ?h, ?i) of
       Some (Ran_out v q) \<Rightarrow> hl_run mem allow (b_last b) mid v | out \<Rightarrow> out)"
    using assms by (intro hl.run_resume)
  from assms(3) show ?thesis
  proof (cases rule: hl_run_cases [where mem = mem and allow = allow and lim = mid and p = "b_pos b"
        and s = s and h = ?h])
    case (again s' r' h' i')
    note at = hl_run_at [where mem = mem and allow = allow and lim = "b_last b" and p = mid and s = s'
        and r = r' and n = "hl_code s'" and h = h' and j = i' and hash = h' and i = i']
    from again(1) show ?thesis
    proof (cases rule: hl_run_cases [where mem = mem and allow = allow and lim = "b_last b" and p = mid
          and s = s' and h = h'])
      case (again s2 r2 h2 i2)
      then show ?thesis using \<open>hl_run mem allow mid _ _ = _\<close> Some assms whole at
        by (simp add: ngx_http_parse_header_line_def max_def)
    next
      case (error v q)
      obtain s2 r2 h2 i2 where v: "v = (s2, r2, h2, i2)" by (cases v)
      with error \<open>hl_run mem allow mid _ _ = _\<close> Some assms whole at show ?thesis
        by (simp add: ngx_http_parse_header_line_def max_def)
    next
      case (end_line k s2 r2 h2 i2 q)
      with \<open>hl_run mem allow mid _ _ = _\<close> Some assms whole at show ?thesis
        by (elim disjE) (simp_all add: ngx_http_parse_header_line_def max_def)
    qed
  next
    case (error v q)
    obtain s' r' h' i' where v: "v = (s', r', h', i')" by (cases v)
    with error Some whole show ?thesis by (simp add: ngx_http_parse_header_line_def)
  next
    case (end_line k s' r' h' i' q)
    with Some whole show ?thesis by (elim disjE) (simp_all add: ngx_http_parse_header_line_def)
  qed
qed

theorem header_line_resumes_witness:
  "case ngx_http_parse_header_line (mem_of 100 (''A: b'' @ [CR, LF])) blank_request
       \<lparr>b_pos = 100, b_last = 102\<rparr> 1 of
     None \<Rightarrow> False
   | Some (rc, r1, b1) \<Rightarrow> rc = LAGAIN \<and> rq_state r1 = hl_code HL_space_before_value \<and>
       hl_result (ngx_http_parse_header_line (mem_of 100 (''A: b'' @ [CR, LF])) r1
         (b1\<lparr>b_last := 106\<rparr>) 1) =
       hl_result (ngx_http_parse_header_line (mem_of 100 (''A: b'' @ [CR, LF])) blank_request
         \<lparr>b_pos = 100, b_last = 106\<rparr> 1)"
proof -
  let ?mem = "mem_of 100 (''A: b'' @ [CR, LF])"
  have ok: "lc_inv blank_request (rq_lowcase_index blank_request)"
    by (simp add: lc_inv_def blank_request_def)
  have mem: "?mem 100 = CHR ''A''" "?mem 101 = CHR '':''" by (simp_all add: mem_of_def)
  have "lowcase (CHR ''A'') = CHR ''a''"
    by (simp add: lowcase_def lowcase_table_def nth_append)
  then obtain r' h where "hl_run ?mem 1 102 100 (HL_start, blank_request, rq_header_hash blank_request,
      rq_lowcase_index blank_request) = hl_run ?mem 1 102 101 (HL_name, r', h, 1)"
    using hl_run_first [of ?mem 100 "CHR ''A''" 102 blank_request 1] mem
    by (simp add: blank_request_def crlf_defs)
  moreover have "hl_run ?mem 1 102 101 (HL_name, r', h, 1) =
      hl_run ?mem 1 102 (101 + 1) (HL_space_before_value, r'\<lparr>rq_header_name_end := 101\<rparr>, h, 1)"
    using mem by (intro hl.run_next) (simp_all add: hl_step_def hl_name_def)
  ultimately obtain r1 b1 where call: "ngx_http_parse_header_line ?mem blank_request
       \<lparr>b_pos = 100, b_last = 102\<rparr> 1 = Some (LAGAIN, r1, b1)" "rq_state r1 = hl_code HL_space_before_value"
    by (simp add: ngx_http_parse_header_line_def hl.run_end) (simp add: blank_request_def)
  then show ?thesis
    using header_line_resumes [where b = "\<lparr>b_pos = 100, b_last = 106\<rparr>" and mid = 102 and mem = ?mem
        and r = blank_request and allow = 1] ok by simp
qed

lemma header_blank_ok:
  assumes "stored mem (b_pos b) [CR, LF]" "b_pos b + 2 \<le> b_last b" "rq_state r = 0"
  shows "ngx_http_parse_header_line mem r b allow = Some (NGX_HTTP_PARSE_HEADER_DONE,
    r\<lparr>rq_header_name_start := b_pos b, rq_invalid_header := 0, rq_header_end := b_pos b\<rparr>,
    b\<lparr>b_pos := b_pos b + 2\<rparr>)"
proof -
  let ?r = "r\<lparr>rq_header_name_start := b_pos b, rq_invalid_header := 0, rq_header_end := b_pos b\<rparr>"
  have "hl_run mem allow (b_last b) (b_pos b) (HL_start, r, h, i) =
      hl_run mem allow (b_last b) (b_pos b + 1) (HL_header_almost_done, ?r, h, i)" for h i
    using assms by (intro hl.run_next) (simp_all add: hl_step_def hl_start_def Let_def)
  also have "hl_run mem allow (b_last b) (b_pos b + 1) (HL_header_almost_done, ?r, h, i) =
      Some (Halted L_header_done (HL_header_almost_done, ?r, h, i) (b_pos b + 1))" for h i
    using assms by (intro hl.run_halt) (simp_all add: hl_step_def hl_line_end_def)
  finally show ?thesis using assms(3) by (simp add: ngx_http_parse_header_line_def)
qed

text \<open>
  the empty line CR LF ends the header: \<open>HEADER_DONE\<close>, with the cursor behind it and
  neither hash nor index touched.
\<close>

theorem header_blank_line:
  assumes "stored mem (b_pos b) [CR, LF]" "b_pos b + 2 \<le> b_last b" "rq_state r = 0"
  shows "ngx_http_parse_header_line mem r b allow = Some (NGX_HTTP_PARSE_HEADER_DONE,
    r\<lparr>rq_header_name_start := b_pos b, rq_invalid_header := 0, rq_header_end := b_pos b\<rparr>,
    b\<lparr>b_pos := b_pos b + 2\<rparr>)"
  using assms by (rule header_blank_ok)

theorem header_blank_line_witness:
  "\<exists>r'. ngx_http_parse_header_line (mem_of 100 [CR, LF]) blank_request \<lparr>b_pos = 100, b_last = 102\<rparr> 1 =
     Some (NGX_HTTP_PARSE_HEADER_DONE, r', \<lparr>b_pos = 102, b_last = 102\<rparr>)"
  using header_blank_line [of "mem_of 100 [CR, LF]" "\<lparr>b_pos = 100, b_last = 102\<rparr>" blank_request 1]
    stored_mem_of [of 100 "[CR, LF]"] by (simp add: blank_request_def)

text \<open>
  A field name that begins with a character the table does not know leaves
  \<open>i\<close> at the \<open>lowcase_index\<close> of the request, which nothing initialises in a request taken from the pool. If that is
  outside 0..31, the next letter of the name is written outside \<open>lowcase_header\<close>.
\<close>

theorem header_stale_index_undefined:
  assumes "stored mem (b_pos b) [c, d]" "b_pos b + 2 \<le> b_last b" "rq_state r = 0"
    and "lowcase c = NUL" "c \<notin> {CR, LF, NUL}" "c \<noteq> CHR ''_'' \<or> allow = 0" "lowcase d \<noteq> NUL"
    and "rq_lowcase_index r < 0 \<or> 32 \<le> rq_lowcase_index r"
  shows "ngx_http_parse_header_line mem r b allow = None"
proof -
  have "hl_run mem allow (b_last b) (b_pos b) (HL_start, r, h, i) = hl_run mem allow (b_last b) (b_pos b + 1)
      (HL_name, r\<lparr>rq_header_name_start := b_pos b, rq_invalid_header := 1\<rparr>, h, i)" for h i
    using assms(1-6) by (intro hl.run_next) (auto simp: hl_step_def hl_start_def Let_def)
  also have "\<And>h. hl_run mem allow (b_last b) (b_pos b + 1)
      (HL_name, r\<lparr>rq_header_name_start := b_pos b, rq_invalid_header := 1\<rparr>, h, rq_lowcase_index r) = None"
    using assms by (intro hl.run_undefined)
      (auto simp: hl_step_def hl_name_def Let_def put_lowcase_def NGX_HTTP_LC_HEADER_LEN_def)
  finally show ?thesis using assms(3) by (simp add: ngx_http_parse_header_line_def)
qed

theorem header_stale_index_undefined_witness:
  "ngx_http_parse_header_line (mem_of 100 ''(a'') (blank_request\<lparr>rq_lowcase_index := 70\<rparr>)
     \<lparr>b_pos = 100, b_last = 102\<rparr> 1 = None"
  using header_stale_index_undefined [of "mem_of 100 ''(a''" "\<lparr>b_pos = 100, b_last = 102\<rparr>"
      "CHR ''(''" "CHR ''a''" "blank_request\<lparr>rq_lowcase_index := 70\<rparr>" 1]
    stored_mem_of [of 100 "''(a''"]
  by (simp add: blank_request_def lowcase_def lowcase_table_def nth_append crlf_defs)

end
