(* ===== verification/Parse_Request_Line.thy ===== *)
theory Parse_Request_Line
  imports Scanner
begin

text \<open>
  \<open>ngx_http_parse_request_line\<close> of ngx_http_parse.c: method, URI and protocol of a request. The
  loop's variables are the local \<open>state\<close> and the request; the states are the code's with the prefix
  \<open>RL\<close> for \<open>sw\<close>. Two states look at a character again (\<open>p--\<close>) after they have found a space
  inside the URI. The table \<open>usual\<close> is indexed with a signed character: a byte above 0x7f reads
  in front of the table, which is undefined. The makefile defines none of the macros that would select
  the unaligned comparisons or the Win32 branches.
\<close>

section \<open>Data\<close>

datatype rl_state = RL_start | RL_method | RL_spaces_before_uri | RL_schema | RL_schema_slash
  | RL_schema_slash_slash | RL_host_start | RL_host | RL_host_end | RL_host_ip_literal | RL_port
  | RL_host_http_09 | RL_after_slash_in_uri | RL_check_uri | RL_check_uri_http_09 | RL_uri
  | RL_http_09 | RL_http_H | RL_http_HT | RL_http_HTT | RL_http_HTTP | RL_first_major_digit
  | RL_major_digit | RL_first_minor_digit | RL_minor_digit | RL_spaces_after_digit | RL_almost_done

type_synonym rl_vars = "rl_state \<times> request"

type_synonym rl_verdict = "(rl_vars, exit_label) verdict"

definition rl_states :: "rl_state list" where
  "rl_states = [RL_start, RL_method, RL_spaces_before_uri, RL_schema, RL_schema_slash,
     RL_schema_slash_slash, RL_host_start, RL_host, RL_host_end, RL_host_ip_literal, RL_port,
     RL_host_http_09, RL_after_slash_in_uri, RL_check_uri, RL_check_uri_http_09, RL_uri,
     RL_http_09, RL_http_H, RL_http_HT, RL_http_HTT, RL_http_HTTP, RL_first_major_digit,
     RL_major_digit, RL_first_minor_digit, RL_minor_digit, RL_spaces_after_digit, RL_almost_done]"

primrec rl_code :: "rl_state \<Rightarrow> int" where
  "rl_code RL_start = 0"
| "rl_code RL_method = 1"
| "rl_code RL_spaces_before_uri = 2"
| "rl_code RL_schema = 3"
| "rl_code RL_schema_slash = 4"
| "rl_code RL_schema_slash_slash = 5"
| "rl_code RL_host_start = 6"
| "rl_code RL_host = 7"
| "rl_code RL_host_end = 8"
| "rl_code RL_host_ip_literal = 9"
| "rl_code RL_port = 10"
| "rl_code RL_host_http_09 = 11"
| "rl_code RL_after_slash_in_uri = 12"
| "rl_code RL_check_uri = 13"
| "rl_code RL_check_uri_http_09 = 14"
| "rl_code RL_uri = 15"
| "rl_code RL_http_09 = 16"
| "rl_code RL_http_H = 17"
| "rl_code RL_http_HT = 18"
| "rl_code RL_http_HTT = 19"
| "rl_code RL_http_HTTP = 20"
| "rl_code RL_first_major_digit = 21"
| "rl_code RL_major_digit = 22"
| "rl_code RL_first_minor_digit = 23"
| "rl_code RL_minor_digit = 24"
| "rl_code RL_spaces_after_digit = 25"
| "rl_code RL_almost_done = 26"

definition rl_state_of :: "int \<Rightarrow> rl_state option" where
  "rl_state_of n = (if 0 \<le> n then ld rl_states (nat n) else None)"

lemma rl_state_of_code [simp]: "rl_state_of (rl_code s) = Some s"
  by (cases s) (simp_all add: rl_state_of_def ld_def rl_states_def)

lemma rl_state_of_0 [simp]: "rl_state_of 0 = Some RL_start"
  by (simp add: rl_state_of_def ld_def rl_states_def)

text \<open>The table of ordinary URI characters and \<open>usual[ch >> 5] & (1 << (ch & 0x1f))\<close>.\<close>

definition usual :: "32 word list" where
  "usual = [0xffffdbfe, 0x7fff37d6, 0xffffffff, 0xffffffff, 0xffffffff, 0xffffffff, 0xffffffff,
     0xffffffff]"

definition is_usual :: "char \<Rightarrow> bool option" where
  "is_usual ch =
     (let k = schar ch div 32 in
      if 0 \<le> k then map_option (\<lambda>w. bit w (nat (schar ch mod 32))) (ld usual (nat k)) else None)"

definition NGX_HTTP_GET :: int where "NGX_HTTP_GET = 0x0002"
definition NGX_HTTP_HEAD :: int where "NGX_HTTP_HEAD = 0x0004"
definition NGX_HTTP_POST :: int where "NGX_HTTP_POST = 0x0008"
definition NGX_HTTP_PUT :: int where "NGX_HTTP_PUT = 0x0010"
definition NGX_HTTP_DELETE :: int where "NGX_HTTP_DELETE = 0x0020"
definition NGX_HTTP_MKCOL :: int where "NGX_HTTP_MKCOL = 0x0040"
definition NGX_HTTP_COPY :: int where "NGX_HTTP_COPY = 0x0080"
definition NGX_HTTP_MOVE :: int where "NGX_HTTP_MOVE = 0x0100"
definition NGX_HTTP_OPTIONS :: int where "NGX_HTTP_OPTIONS = 0x0200"
definition NGX_HTTP_PROPFIND :: int where "NGX_HTTP_PROPFIND = 0x0400"
definition NGX_HTTP_PROPPATCH :: int where "NGX_HTTP_PROPPATCH = 0x0800"
definition NGX_HTTP_LOCK :: int where "NGX_HTTP_LOCK = 0x1000"
definition NGX_HTTP_UNLOCK :: int where "NGX_HTTP_UNLOCK = 0x2000"
definition NGX_HTTP_PATCH :: int where "NGX_HTTP_PATCH = 0x4000"
definition NGX_HTTP_TRACE :: int where "NGX_HTTP_TRACE = 0x8000"

section \<open>The switch\<close>

text \<open>
  The comparisons \<open>ngx_str3_cmp\<close> to \<open>ngx_str9cmp\<close> are \<open>stored\<close>; \<open>ngx_str3Ocmp\<close> leaves the second
  character, which the code has compared before, out.
\<close>

definition ngx_str3Ocmp :: "char_mem \<Rightarrow> int \<Rightarrow> char \<Rightarrow> char \<Rightarrow> char \<Rightarrow> bool" where
  "ngx_str3Ocmp mem m c0 c2 c3 \<longleftrightarrow> mem m = c0 \<and> mem (m + 2) = c2 \<and> mem (m + 3) = c3"

text \<open>The switch over the length of the method: the request with \<open>r->method\<close> set, if it is known.\<close>

definition rl_method_table :: "char_mem \<Rightarrow> int \<Rightarrow> int \<Rightarrow> request \<Rightarrow> request" where
  "rl_method_table mem m len r =
     (if len = 3 then
        if stored mem m ''GET'' then r\<lparr>rq_method := NGX_HTTP_GET\<rparr>
        else if stored mem m ''PUT'' then r\<lparr>rq_method := NGX_HTTP_PUT\<rparr>
        else r
      else if len = 4 then
        if mem (m + 1) = CHR ''O'' then
          if ngx_str3Ocmp mem m (CHR ''P'') (CHR ''S'') (CHR ''T'') then r\<lparr>rq_method := NGX_HTTP_POST\<rparr>
          else if ngx_str3Ocmp mem m (CHR ''C'') (CHR ''P'') (CHR ''Y'') then r\<lparr>rq_method := NGX_HTTP_COPY\<rparr>
          else if ngx_str3Ocmp mem m (CHR ''M'') (CHR ''V'') (CHR ''E'') then r\<lparr>rq_method := NGX_HTTP_MOVE\<rparr>
          else if ngx_str3Ocmp mem m (CHR ''L'') (CHR ''C'') (CHR ''K'') then r\<lparr>rq_method := NGX_HTTP_LOCK\<rparr>
          else r
        else if stored mem m ''HEAD'' then r\<lparr>rq_method := NGX_HTTP_HEAD\<rparr>
        else r
      else if len = 5 then
        if stored mem m ''MKCOL'' then r\<lparr>rq_method := NGX_HTTP_MKCOL\<rparr>
        else if stored mem m ''PATCH'' then r\<lparr>rq_method := NGX_HTTP_PATCH\<rparr>
        else if stored mem m ''TRACE'' then r\<lparr>rq_method := NGX_HTTP_TRACE\<rparr>
        else r
      else if len = 6 then
        if stored mem m ''DELETE'' then r\<lparr>rq_method := NGX_HTTP_DELETE\<rparr>
        else if stored mem m ''UNLOCK'' then r\<lparr>rq_method := NGX_HTTP_UNLOCK\<rparr>
        else r
      else if len = 7 then
        if stored mem m ''OPTIONS'' then r\<lparr>rq_method := NGX_HTTP_OPTIONS\<rparr> else r
      else if len = 8 then
        if stored mem m ''PROPFIND'' then r\<lparr>rq_method := NGX_HTTP_PROPFIND\<rparr> else r
      else if len = 9 then
        if stored mem m ''PROPPATCH'' then r\<lparr>rq_method := NGX_HTTP_PROPPATCH\<rparr> else r
      else r)"

text \<open>\<open>(ch < 'A' || ch > 'Z') && ch != '_'\<close>.\<close>

definition not_method_char :: "char \<Rightarrow> bool" where
  "not_method_char ch \<longleftrightarrow>
     (schar ch < schar (CHR ''A'') \<or> schar ch > schar (CHR ''Z'')) \<and> ch \<noteq> CHR ''_''"

definition rl_start :: "char \<Rightarrow> int \<Rightarrow> request \<Rightarrow> rl_verdict" where
  "rl_start ch p r0 =
     (let r = r0\<lparr>rq_request_start := p\<rparr> in
      if ch = CR \<or> ch = LF then Next (RL_start, r)
      else if not_method_char ch then Halt (Return NGX_HTTP_PARSE_INVALID_METHOD) (RL_start, r)
      else Next (RL_method, r))"

definition rl_method :: "char_mem \<Rightarrow> char \<Rightarrow> int \<Rightarrow> request \<Rightarrow> rl_verdict" where
  "rl_method mem ch p r =
     (if ch = CHR '' '' then
        let m = rq_request_start r
        in Next (RL_spaces_before_uri, rl_method_table mem m (p - m) (r\<lparr>rq_method_end := p - 1\<rparr>))
      else if not_method_char ch then Halt (Return NGX_HTTP_PARSE_INVALID_METHOD) (RL_method, r)
      else Next (RL_method, r))"

text \<open>From the first character of the URI to \<open>http://\<close>.\<close>

definition rl_schema :: "rl_state \<Rightarrow> char \<Rightarrow> int \<Rightarrow> request \<Rightarrow> rl_verdict" where
  "rl_schema s ch p r =
     (case s of
        RL_spaces_before_uri \<Rightarrow>
          (if ch = CHR ''/'' then Next (RL_after_slash_in_uri, r\<lparr>rq_uri_start := p\<rparr>)
           else if is_letter ch then Next (RL_schema, r\<lparr>rq_schema_start := p\<rparr>)
           else if ch = CHR '' '' then Next (s, r)
           else Halt (Return NGX_HTTP_PARSE_INVALID_REQUEST) (s, r))
      | RL_schema \<Rightarrow>
          (if is_letter ch then Next (s, r)
           else if ch = CHR '':'' then Next (RL_schema_slash, r\<lparr>rq_schema_end := p\<rparr>)
           else Halt (Return NGX_HTTP_PARSE_INVALID_REQUEST) (s, r))
      | RL_schema_slash \<Rightarrow>
          (if ch = CHR ''/'' then Next (RL_schema_slash_slash, r)
           else Halt (Return NGX_HTTP_PARSE_INVALID_REQUEST) (s, r))
      | _ \<Rightarrow>
          (if ch = CHR ''/'' then Next (RL_host_start, r)
           else Halt (Return NGX_HTTP_PARSE_INVALID_REQUEST) (s, r)))"

text \<open>The host of an absolute URI; the three states that fall through call the next one.\<close>

definition rl_host_end :: "rl_state \<Rightarrow> char \<Rightarrow> int \<Rightarrow> request \<Rightarrow> rl_verdict" where
  "rl_host_end s ch p r0 =
     (let r = r0\<lparr>rq_host_end := p\<rparr> in
      if ch = CHR '':'' then Next (RL_port, r)
      else if ch = CHR ''/'' then Next (RL_after_slash_in_uri, r\<lparr>rq_uri_start := p\<rparr>)
      else if ch = CHR '' '' then
        Next (RL_host_http_09, r\<lparr>rq_uri_start := rq_schema_end r + 1, rq_uri_end := rq_schema_end r + 2\<rparr>)
      else Halt (Return NGX_HTTP_PARSE_INVALID_REQUEST) (s, r))"

definition rl_host :: "char \<Rightarrow> int \<Rightarrow> request \<Rightarrow> rl_verdict" where
  "rl_host ch p r =
     (if is_letter ch then Next (RL_host, r)
      else if is_digit ch \<or> ch = CHR ''.'' \<or> ch = CHR ''-'' then Next (RL_host, r)
      else rl_host_end RL_host ch p r)"

definition rl_host_start :: "char \<Rightarrow> int \<Rightarrow> request \<Rightarrow> rl_verdict" where
  "rl_host_start ch p r0 =
     (let r = r0\<lparr>rq_host_start := p\<rparr> in
      if ch = CHR ''['' then Next (RL_host_ip_literal, r) else rl_host ch p r)"

definition rl_host_ip_literal :: "char \<Rightarrow> int \<Rightarrow> request \<Rightarrow> rl_verdict" where
  "rl_host_ip_literal ch p r =
     (if is_digit ch then Next (RL_host_ip_literal, r)
      else if is_letter ch then Next (RL_host_ip_literal, r)
      else if ch = CHR '':'' then Next (RL_host_ip_literal, r)
      else if ch = CHR '']'' then Next (RL_host_end, r)
      else if ch \<in> set ''-._~'' then Next (RL_host_ip_literal, r)
      else if ch \<in> set ''!$&'' \<or> ch = CHR 0x27 \<or> ch \<in> set ''()*+,;='' then Next (RL_host_ip_literal, r)
      else Halt (Return NGX_HTTP_PARSE_INVALID_REQUEST) (RL_host_ip_literal, r))"

definition rl_port :: "char \<Rightarrow> int \<Rightarrow> request \<Rightarrow> rl_verdict" where
  "rl_port ch p r =
     (if is_digit ch then Next (RL_port, r)
      else if ch = CHR ''/'' then Next (RL_after_slash_in_uri, r\<lparr>rq_port_end := p, rq_uri_start := p\<rparr>)
      else if ch = CHR '' '' then
        Next (RL_host_http_09, r\<lparr>rq_port_end := p, rq_uri_start := rq_schema_end r + 1,
                                 rq_uri_end := rq_schema_end r + 2\<rparr>)
      else Halt (Return NGX_HTTP_PARSE_INVALID_REQUEST) (RL_port, r))"

text \<open>The three states that read the spaces behind the URI; they differ in what another character does.\<close>

definition rl_host_http_09 :: "char \<Rightarrow> int \<Rightarrow> request \<Rightarrow> rl_verdict" where
  "rl_host_http_09 ch p r =
     (if ch = CHR '' '' then Next (RL_host_http_09, r)
      else if ch = CR then Next (RL_almost_done, r\<lparr>rq_http_minor := 9\<rparr>)
      else if ch = LF then Halt L_done (RL_host_http_09, r\<lparr>rq_http_minor := 9\<rparr>)
      else if ch = CHR ''H'' then
        Next (RL_http_H, r\<lparr>rq_http_protocol := (rq_http_protocol r)\<lparr>str_data := p\<rparr>\<rparr>)
      else Halt (Return NGX_HTTP_PARSE_INVALID_REQUEST) (RL_host_http_09, r))"

definition rl_check_uri_http_09 :: "char \<Rightarrow> int \<Rightarrow> request \<Rightarrow> rl_verdict" where
  "rl_check_uri_http_09 ch p r =
     (if ch = CHR '' '' then Next (RL_check_uri_http_09, r)
      else if ch = CR then Next (RL_almost_done, r\<lparr>rq_http_minor := 9\<rparr>)
      else if ch = LF then Halt L_done (RL_check_uri_http_09, r\<lparr>rq_http_minor := 9\<rparr>)
      else if ch = CHR ''H'' then
        Next (RL_http_H, r\<lparr>rq_http_protocol := (rq_http_protocol r)\<lparr>str_data := p\<rparr>\<rparr>)
      else Back (RL_check_uri, r\<lparr>rq_space_in_uri := 1\<rparr>))"

definition rl_http_09 :: "char \<Rightarrow> int \<Rightarrow> request \<Rightarrow> rl_verdict" where
  "rl_http_09 ch p r =
     (if ch = CHR '' '' then Next (RL_http_09, r)
      else if ch = CR then Next (RL_almost_done, r\<lparr>rq_http_minor := 9\<rparr>)
      else if ch = LF then Halt L_done (RL_http_09, r\<lparr>rq_http_minor := 9\<rparr>)
      else if ch = CHR ''H'' then
        Next (RL_http_H, r\<lparr>rq_http_protocol := (rq_http_protocol r)\<lparr>str_data := p\<rparr>\<rparr>)
      else Back (RL_uri, r\<lparr>rq_space_in_uri := 1\<rparr>))"

text \<open>The URI. The first argument of the three parts below is the test of the table \<open>usual\<close>.\<close>

definition rl_after_slash_in_uri :: "bool \<Rightarrow> char \<Rightarrow> int \<Rightarrow> request \<Rightarrow> rl_verdict" where
  "rl_after_slash_in_uri u ch p r =
     (if u then Next (RL_check_uri, r)
      else if ch = CHR '' '' then Next (RL_check_uri_http_09, r\<lparr>rq_uri_end := p\<rparr>)
      else if ch = CR then Next (RL_almost_done, r\<lparr>rq_uri_end := p, rq_http_minor := 9\<rparr>)
      else if ch = LF then Halt L_done (RL_after_slash_in_uri, r\<lparr>rq_uri_end := p, rq_http_minor := 9\<rparr>)
      else if ch = CHR ''.'' then Next (RL_uri, r\<lparr>rq_complex_uri := 1\<rparr>)
      else if ch = CHR ''%'' then Next (RL_uri, r\<lparr>rq_quoted_uri := 1\<rparr>)
      else if ch = CHR ''/'' then Next (RL_uri, r\<lparr>rq_complex_uri := 1\<rparr>)
      else if ch = CHR ''?'' then Next (RL_uri, r\<lparr>rq_args_start := p + 1\<rparr>)
      else if ch = CHR ''#'' then Next (RL_uri, r\<lparr>rq_complex_uri := 1\<rparr>)
      else if ch = CHR ''+'' then Next (RL_after_slash_in_uri, r\<lparr>rq_plus_in_uri := 1\<rparr>)
      else if ch = NUL then Halt (Return NGX_HTTP_PARSE_INVALID_REQUEST) (RL_after_slash_in_uri, r)
      else Next (RL_check_uri, r))"

definition rl_check_uri :: "bool \<Rightarrow> char \<Rightarrow> int \<Rightarrow> request \<Rightarrow> rl_verdict" where
  "rl_check_uri u ch p r =
     (if u then Next (RL_check_uri, r)
      else if ch = CHR ''/'' then Next (RL_after_slash_in_uri, r\<lparr>rq_uri_ext := 0\<rparr>)
      else if ch = CHR ''.'' then Next (RL_check_uri, r\<lparr>rq_uri_ext := p + 1\<rparr>)
      else if ch = CHR '' '' then Next (RL_check_uri_http_09, r\<lparr>rq_uri_end := p\<rparr>)
      else if ch = CR then Next (RL_almost_done, r\<lparr>rq_uri_end := p, rq_http_minor := 9\<rparr>)
      else if ch = LF then Halt L_done (RL_check_uri, r\<lparr>rq_uri_end := p, rq_http_minor := 9\<rparr>)
      else if ch = CHR ''%'' then Next (RL_uri, r\<lparr>rq_quoted_uri := 1\<rparr>)
      else if ch = CHR ''?'' then Next (RL_uri, r\<lparr>rq_args_start := p + 1\<rparr>)
      else if ch = CHR ''#'' then Next (RL_uri, r\<lparr>rq_complex_uri := 1\<rparr>)
      else if ch = CHR ''+'' then Next (RL_check_uri, r\<lparr>rq_plus_in_uri := 1\<rparr>)
      else if ch = NUL then Halt (Return NGX_HTTP_PARSE_INVALID_REQUEST) (RL_check_uri, r)
      else Next (RL_check_uri, r))"

definition rl_uri :: "bool \<Rightarrow> char \<Rightarrow> int \<Rightarrow> request \<Rightarrow> rl_verdict" where
  "rl_uri u ch p r =
     (if u then Next (RL_uri, r)
      else if ch = CHR '' '' then Next (RL_http_09, r\<lparr>rq_uri_end := p\<rparr>)
      else if ch = CR then Next (RL_almost_done, r\<lparr>rq_uri_end := p, rq_http_minor := 9\<rparr>)
      else if ch = LF then Halt L_done (RL_uri, r\<lparr>rq_uri_end := p, rq_http_minor := 9\<rparr>)
      else if ch = CHR ''#'' then Next (RL_uri, r\<lparr>rq_complex_uri := 1\<rparr>)
      else if ch = NUL then Halt (Return NGX_HTTP_PARSE_INVALID_REQUEST) (RL_uri, r)
      else Next (RL_uri, r))"

text \<open>\<open>HTTP/\<close>, the version, and the end of the line.\<close>

definition rl_protocol :: "rl_state \<Rightarrow> char \<Rightarrow> request \<Rightarrow> rl_verdict" where
  "rl_protocol s ch r =
     (case s of
        RL_http_H \<Rightarrow>
          (if ch = CHR ''T'' then Next (RL_http_HT, r)
           else Halt (Return NGX_HTTP_PARSE_INVALID_REQUEST) (s, r))
      | RL_http_HT \<Rightarrow>
          (if ch = CHR ''T'' then Next (RL_http_HTT, r)
           else Halt (Return NGX_HTTP_PARSE_INVALID_REQUEST) (s, r))
      | RL_http_HTT \<Rightarrow>
          (if ch = CHR ''P'' then Next (RL_http_HTTP, r)
           else Halt (Return NGX_HTTP_PARSE_INVALID_REQUEST) (s, r))
      | _ \<Rightarrow>
          (if ch = CHR ''/'' then Next (RL_first_major_digit, r)
           else Halt (Return NGX_HTTP_PARSE_INVALID_REQUEST) (s, r)))"

definition rl_version :: "rl_state \<Rightarrow> char \<Rightarrow> request \<Rightarrow> rl_verdict" where
  "rl_version s ch r =
     (case s of
        RL_first_major_digit \<Rightarrow>
          (if schar ch < schar (CHR ''1'') \<or> schar ch > schar (CHR ''9'') then
             Halt (Return NGX_HTTP_PARSE_INVALID_REQUEST) (s, r)
           else Next (RL_major_digit, r\<lparr>rq_http_major := digit_acc 0 ch\<rparr>))
      | RL_major_digit \<Rightarrow>
          (if ch = CHR ''.'' then Next (RL_first_minor_digit, r)
           else if \<not> is_digit ch then Halt (Return NGX_HTTP_PARSE_INVALID_REQUEST) (s, r)
           else Next (s, r\<lparr>rq_http_major := digit_acc (rq_http_major r) ch\<rparr>))
      | RL_first_minor_digit \<Rightarrow>
          (if \<not> is_digit ch then Halt (Return NGX_HTTP_PARSE_INVALID_REQUEST) (s, r)
           else Next (RL_minor_digit, r\<lparr>rq_http_minor := digit_acc 0 ch\<rparr>))
      | RL_minor_digit \<Rightarrow>
          (if ch = CR then Next (RL_almost_done, r)
           else if ch = LF then Halt L_done (s, r)
           else if ch = CHR '' '' then Next (RL_spaces_after_digit, r)
           else if \<not> is_digit ch then Halt (Return NGX_HTTP_PARSE_INVALID_REQUEST) (s, r)
           else Next (s, r\<lparr>rq_http_minor := digit_acc (rq_http_minor r) ch\<rparr>))
      | _ \<Rightarrow>
          (if ch = CHR '' '' then Next (s, r)
           else if ch = CR then Next (RL_almost_done, r)
           else if ch = LF then Halt L_done (s, r)
           else Halt (Return NGX_HTTP_PARSE_INVALID_REQUEST) (s, r)))"

definition rl_almost_done :: "char \<Rightarrow> int \<Rightarrow> request \<Rightarrow> rl_verdict" where
  "rl_almost_done ch p r0 =
     (let r = r0\<lparr>rq_request_end := p - 1\<rparr> in
      if ch = LF then Halt L_done (RL_almost_done, r)
      else Halt (Return NGX_HTTP_PARSE_INVALID_REQUEST) (RL_almost_done, r))"

definition rl_step :: "char_mem \<Rightarrow> int \<Rightarrow> rl_vars \<Rightarrow> rl_verdict option" where
  "rl_step mem p vars =
     (case vars of (s, r) \<Rightarrow>
        (case s of
          RL_start \<Rightarrow> Some (rl_start (mem p) p r)
        | RL_method \<Rightarrow> Some (rl_method mem (mem p) p r)
        | RL_spaces_before_uri \<Rightarrow> Some (rl_schema s (mem p) p r)
        | RL_schema \<Rightarrow> Some (rl_schema s (mem p) p r)
        | RL_schema_slash \<Rightarrow> Some (rl_schema s (mem p) p r)
        | RL_schema_slash_slash \<Rightarrow> Some (rl_schema s (mem p) p r)
        | RL_host_start \<Rightarrow> Some (rl_host_start (mem p) p r)
        | RL_host \<Rightarrow> Some (rl_host (mem p) p r)
        | RL_host_end \<Rightarrow> Some (rl_host_end s (mem p) p r)
        | RL_host_ip_literal \<Rightarrow> Some (rl_host_ip_literal (mem p) p r)
        | RL_port \<Rightarrow> Some (rl_port (mem p) p r)
        | RL_host_http_09 \<Rightarrow> Some (rl_host_http_09 (mem p) p r)
        | RL_after_slash_in_uri \<Rightarrow>
            map_option (\<lambda>u. rl_after_slash_in_uri u (mem p) p r) (is_usual (mem p))
        | RL_check_uri \<Rightarrow> map_option (\<lambda>u. rl_check_uri u (mem p) p r) (is_usual (mem p))
        | RL_check_uri_http_09 \<Rightarrow> Some (rl_check_uri_http_09 (mem p) p r)
        | RL_uri \<Rightarrow> map_option (\<lambda>u. rl_uri u (mem p) p r) (is_usual (mem p))
        | RL_http_09 \<Rightarrow> Some (rl_http_09 (mem p) p r)
        | RL_http_H \<Rightarrow> Some (rl_protocol s (mem p) r)
        | RL_http_HT \<Rightarrow> Some (rl_protocol s (mem p) r)
        | RL_http_HTT \<Rightarrow> Some (rl_protocol s (mem p) r)
        | RL_http_HTTP \<Rightarrow> Some (rl_protocol s (mem p) r)
        | RL_almost_done \<Rightarrow> Some (rl_almost_done (mem p) p r)
        | _ \<Rightarrow> Some (rl_version s (mem p) r)))"

lemmas rl_defs = rl_step_def rl_start_def rl_method_def rl_schema_def rl_host_start_def rl_host_def
  rl_host_end_def rl_host_ip_literal_def rl_port_def rl_host_http_09_def rl_after_slash_in_uri_def
  rl_check_uri_def rl_check_uri_http_09_def rl_uri_def rl_http_09_def rl_protocol_def rl_version_def
  rl_almost_done_def

section \<open>The loop and the function\<close>

text \<open>Only the two states behind a URI go back, and to states that do not.\<close>

definition rl_rank :: "rl_state \<Rightarrow> nat" where
  "rl_rank s = (case s of RL_check_uri_http_09 \<Rightarrow> 1 | RL_http_09 \<Rightarrow> 1 | _ \<Rightarrow> 0)"

lemma rl_step_back_rank:
  assumes "rl_step mem p (s, r) = Some (Back (s', r'))"
  shows "rl_rank s = 1 \<and> rl_rank s' = 0"
  using assms
  by (cases s) (auto simp: rl_defs rl_rank_def Let_def split: if_splits)

lemma rl_step_back_eq:
  "rl_step mem p (s, r) = Some (Back v) \<Longrightarrow> v = (fst v, snd v) \<and> rl_rank (fst v) < rl_rank s"
  using rl_step_back_rank [of mem p s r "fst v" "snd v"] by simp

lemma rl_rank_le: "rl_rank s \<le> 1"
  by (simp add: rl_rank_def split: rl_state.split)

function rl_run :: "char_mem \<Rightarrow> int \<Rightarrow> int \<Rightarrow> rl_vars \<Rightarrow> (rl_vars, exit_label) scanned option" where
  "rl_run mem lim p vars =
     (if p < lim then
        (case rl_step mem p vars of
           None \<Rightarrow> None
         | Some (Next vars') \<Rightarrow> rl_run mem lim (p + 1) vars'
         | Some (Back vars') \<Rightarrow> rl_run mem lim (p - 1 + 1) vars'
         | Some (Halt k vars') \<Rightarrow> Some (Halted k vars' p))
      else Some (Ran_out vars p))"
  by pat_completeness auto

termination
proof (relation "measure (\<lambda>(mem, lim, p, vars). 2 * nat (lim - p) + rl_rank (fst vars))")
  fix mem :: char_mem and lim p :: int and vars vars' vars'' :: rl_vars and out
  assume "p < lim"
  then have less: "nat (lim - (p + 1)) + 1 \<le> nat (lim - p)" by simp
  show "((mem, lim, p + 1, vars'), mem, lim, p, vars)
      \<in> measure (\<lambda>(mem, lim, p, vars). 2 * nat (lim - p) + rl_rank (fst vars))"
    using less rl_rank_le [of "fst vars'"] by simp
  assume step: "rl_step mem p vars = Some out" "out = Back vars''"
  then have "rl_rank (fst vars'') < rl_rank (fst vars)"
    using rl_step_back_eq [of mem p "fst vars" "snd vars" vars''] by simp
  then show "((mem, lim, p - 1 + 1, vars''), mem, lim, p, vars)
      \<in> measure (\<lambda>(mem, lim, p, vars). 2 * nat (lim - p) + rl_rank (fst vars))"
    by simp
qed simp

declare rl_run.simps [simp del]

definition ngx_http_parse_request_line ::
  "char_mem \<Rightarrow> request \<Rightarrow> cursor \<Rightarrow> (int \<times> request \<times> cursor) option"
where
  "ngx_http_parse_request_line mem r b =
     (case rl_state_of (rq_state r) of
        None \<Rightarrow> Some (LAGAIN, r, b\<lparr>b_pos := max (b_pos b) (b_last b)\<rparr>)
      | Some s \<Rightarrow> do {
          out \<leftarrow> rl_run mem (b_last b) (b_pos b) (s, r);
          Some (case out of
            Ran_out (s', r') p \<Rightarrow> (LAGAIN, r'\<lparr>rq_state := rl_code s'\<rparr>, b\<lparr>b_pos := p\<rparr>)
          | Halted (Return rc) (s', r') p \<Rightarrow> (rc, r', b)
          | Halted _ (s', r') p \<Rightarrow>
              (let r1 = (if rq_request_end r' = 0 then r'\<lparr>rq_request_end := p\<rparr> else r');
                   r2 = r1\<lparr>rq_http_version := i32 (i32 (rq_http_major r' * 1000) + rq_http_minor r'),
                           rq_state := rl_code RL_start\<rparr>
               in (if rq_http_version r2 = 9 \<and> rq_method r2 \<noteq> NGX_HTTP_GET
                   then NGX_HTTP_PARSE_INVALID_09_METHOD else LOK,
                   r2, b\<lparr>b_pos := p + 1\<rparr>)))
        })"

interpretation rl: scanner "rl_step mem" "rl_run mem" for mem
proof
  show "rl_run mem lim p s =
      (if p < lim then
         (case rl_step mem p s of
            None \<Rightarrow> None
          | Some (Next s') \<Rightarrow> rl_run mem lim (p + 1) s'
          | Some (Back s') \<Rightarrow> rl_run mem lim p s'
          | Some (Halt k s') \<Rightarrow> Some (Halted k s' p))
       else Some (Ran_out s p))" for lim p s
    by (subst rl_run.simps) (simp split: option.split verdict.split)
  show "rl_step mem p s = Some (Back s') \<Longrightarrow> rl_step mem p s' \<noteq> Some (Back s'')" for p s s' s''
    using rl_step_back_rank [of mem p "fst s" "snd s" "fst s'" "snd s'"]
      rl_step_back_rank [of mem p "fst s'" "snd s'" "fst s''" "snd s''"] by auto
qed

section \<open>The method\<close>

text \<open>The method table as a table.\<close>

definition known_methods :: "(string \<times> int) list" where
  "known_methods = [(''GET'', NGX_HTTP_GET), (''PUT'', NGX_HTTP_PUT), (''POST'', NGX_HTTP_POST),
     (''COPY'', NGX_HTTP_COPY), (''MOVE'', NGX_HTTP_MOVE), (''LOCK'', NGX_HTTP_LOCK),
     (''HEAD'', NGX_HTTP_HEAD), (''MKCOL'', NGX_HTTP_MKCOL), (''PATCH'', NGX_HTTP_PATCH),
     (''TRACE'', NGX_HTTP_TRACE), (''DELETE'', NGX_HTTP_DELETE), (''UNLOCK'', NGX_HTTP_UNLOCK),
     (''OPTIONS'', NGX_HTTP_OPTIONS), (''PROPFIND'', NGX_HTTP_PROPFIND),
     (''PROPPATCH'', NGX_HTTP_PROPPATCH)]"

definition method_of :: "string \<Rightarrow> int \<Rightarrow> int" where
  "method_of name old = (case map_of known_methods name of Some k \<Rightarrow> k | None \<Rightarrow> old)"

lemma stored_eq:
  "stored mem m name \<Longrightarrow> length cs = length name \<Longrightarrow> stored mem m cs \<longleftrightarrow> cs = name"
proof (induction cs arbitrary: m name)
  case (Cons c cs)
  then show ?case by (cases name) auto
qed simp

lemma ngx_str3Ocmp_eq:
  assumes "stored mem m name" "length name = 4" "mem (m + 1) = CHR ''O''"
  shows "ngx_str3Ocmp mem m a b c \<longleftrightarrow> name = [a, CHR ''O'', b, c]"
proof -
  have "ngx_str3Ocmp mem m a b c \<longleftrightarrow> stored mem m [a, CHR ''O'', b, c]"
    using assms(3) by (simp add: ngx_str3Ocmp_def add.commute)
  with stored_eq [OF assms(1), of "[a, CHR ''O'', b, c]"] assms(2) show ?thesis by auto
qed


lemma map_of_known:
  assumes "\<forall>(k, v) \<in> set known_methods. length k = length name \<longrightarrow> (k, v) \<in> set xs"
    and "set xs \<subseteq> set known_methods" "distinct (map fst known_methods)"
  shows "map_of known_methods name = map_of xs name"
proof (cases "map_of xs name")
  case None
  have "map_of known_methods name = None"
  proof (rule ccontr)
    assume "map_of known_methods name \<noteq> None"
    then obtain v where "(name, v) \<in> set known_methods" by (auto dest: map_of_SomeD)
    with assms(1) have "(name, v) \<in> set xs" by auto
    with None show False by (auto simp: map_of_eq_None_iff image_iff)
  qed
  with None show ?thesis by simp
next
  case (Some v)
  then have "(name, v) \<in> set known_methods" using assms(2) by (auto dest: map_of_SomeD)
  with Some assms(3) show ?thesis by simp
qed

lemma known_distinct: "distinct (map fst known_methods)"
  by (simp add: known_methods_def)

lemma method_table_4:
  assumes "stored mem m name" and l4: "length name = 4"
  shows "rl_method_table mem m (int (length name)) r = r\<lparr>rq_method := method_of name (rq_method r)\<rparr>"
proof -
  have m: "map_of known_methods name = map_of [(''POST'', NGX_HTTP_POST), (''COPY'', NGX_HTTP_COPY),
      (''MOVE'', NGX_HTTP_MOVE), (''LOCK'', NGX_HTTP_LOCK), (''HEAD'', NGX_HTTP_HEAD)] name"
    by (rule map_of_known [OF _ _ known_distinct]) (simp_all add: known_methods_def l4)
  have O: "mem (m + 1) = name ! 1" using stored_nth [OF assms(1), of 1] l4 by simp
  show ?thesis
  proof (cases "mem (m + 1) = CHR ''O''")
    case True
    then have "name \<noteq> ''HEAD''" using O by auto
    then show ?thesis
      using l4 m True ngx_str3Ocmp_eq [OF assms(1) l4 True]
      by (simp add: rl_method_table_def method_of_def del: stored.simps)
  next
    case False
    then have "name \<noteq> ''POST''" "name \<noteq> ''COPY''" "name \<noteq> ''MOVE''" "name \<noteq> ''LOCK''" using O by auto
    then show ?thesis
      using l4 m False stored_eq [OF assms(1), of "''HEAD''"]
      by (auto simp: rl_method_table_def method_of_def simp del: stored.simps)
  qed
qed

lemma method_table_eq:
  assumes "stored mem m name"
  shows "rl_method_table mem m (int (length name)) r = r\<lparr>rq_method := method_of name (rq_method r)\<rparr>"
proof -
  have len: "length cs = length name \<Longrightarrow> stored mem m cs \<longleftrightarrow> name = cs" for cs
    using stored_eq [OF assms, of cs] by auto
  consider (l3) "length name = 3" | (l4) "length name = 4" | (l5) "length name = 5" | (l6) "length name = 6"
    | (l7) "length name = 7" | (l8) "length name = 8" | (l9) "length name = 9"
    | (other) "length name \<notin> {3,4,5,6,7,8,9}" by blast
  then show ?thesis
  proof cases
    case l3
    have "map_of known_methods name = map_of [(''GET'', NGX_HTTP_GET), (''PUT'', NGX_HTTP_PUT)] name"
      by (rule map_of_known [OF _ _ known_distinct]) (simp_all add: known_methods_def l3)
    with l3 len [of "''GET''"] len [of "''PUT''"] show ?thesis
      by (simp add: rl_method_table_def method_of_def del: stored.simps)
  next
    case l4
    then show ?thesis by (rule method_table_4 [OF assms])
  next
    case l5
    have "map_of known_methods name = map_of [(''MKCOL'', NGX_HTTP_MKCOL), (''PATCH'', NGX_HTTP_PATCH),
     (''TRACE'', NGX_HTTP_TRACE)] name"
      by (rule map_of_known [OF _ _ known_distinct]) (simp_all add: known_methods_def l5)
    with l5 len [of "''MKCOL''"] len [of "''PATCH''"] len [of "''TRACE''"] show ?thesis
      by (simp add: rl_method_table_def method_of_def del: stored.simps)
  next
    case l6
    have "map_of known_methods name = map_of [(''DELETE'', NGX_HTTP_DELETE), (''UNLOCK'', NGX_HTTP_UNLOCK)] name"
      by (rule map_of_known [OF _ _ known_distinct]) (simp_all add: known_methods_def l6)
    with l6 len [of "''DELETE''"] len [of "''UNLOCK''"] show ?thesis
      by (simp add: rl_method_table_def method_of_def del: stored.simps)
  next
    case l7
    have "map_of known_methods name = map_of [(''OPTIONS'', NGX_HTTP_OPTIONS)] name"
      by (rule map_of_known [OF _ _ known_distinct]) (simp_all add: known_methods_def l7)
    with l7 len [of "''OPTIONS''"] show ?thesis
      by (simp add: rl_method_table_def method_of_def del: stored.simps)
  next
    case l8
    have "map_of known_methods name = map_of [(''PROPFIND'', NGX_HTTP_PROPFIND)] name"
      by (rule map_of_known [OF _ _ known_distinct]) (simp_all add: known_methods_def l8)
    with l8 len [of "''PROPFIND''"] show ?thesis
      by (simp add: rl_method_table_def method_of_def del: stored.simps)
  next
    case l9
    have "map_of known_methods name = map_of [(''PROPPATCH'', NGX_HTTP_PROPPATCH)] name"
      by (rule map_of_known [OF _ _ known_distinct]) (simp_all add: known_methods_def l9)
    with l9 len [of "''PROPPATCH''"] show ?thesis
      by (simp add: rl_method_table_def method_of_def del: stored.simps)
  next
    case other
    have "map_of known_methods name = map_of [] name"
      by (rule map_of_known [OF _ _ known_distinct]) (use other in \<open>auto simp: known_methods_def\<close>)
    with other show ?thesis by (simp add: rl_method_table_def method_of_def)
  qed
qed

section \<open>Running the switch\<close>

lemma method_char_not:
  "\<not> not_method_char c \<Longrightarrow> c \<noteq> CR \<and> c \<noteq> LF \<and> c \<noteq> CHR '' ''"
  by (auto simp: not_method_char_def schar_def crlf_defs)

lemma rl_run_method:
  assumes st: "stored mem p (name @ '' '')" and lim: "p + int (length name) + 1 \<le> lim"
    and name: "name \<noteq> []" "\<forall>c\<in>set name. \<not> not_method_char c"
  shows "rl_run mem lim p (RL_start, r) = rl_run mem lim (p + int (length name) + 1)
    (RL_spaces_before_uri, r\<lparr>rq_request_start := p, rq_method_end := p + int (length name) - 1,
       rq_method := method_of name (rq_method r)\<rparr>)"
proof -
  obtain c cs where cs: "name = c # cs" using name(1) by (cases name) auto
  let ?q = "p + int (length name)" and ?r = "r\<lparr>rq_request_start := p\<rparr>"
  have st': "stored mem p name" "mem ?q = CHR '' ''" using st by (simp_all add: stored_append)
  have "mem p = c" using st by (simp add: cs)
  then have "rl_run mem lim p (RL_start, r) = rl_run mem lim (p + 1) (RL_method, ?r)"
    using lim name(2) method_char_not [of c] cs
    by (intro rl.run_next) (auto simp: rl_step_def rl_start_def Let_def)
  also have "\<dots> = rl_run mem lim ?q (RL_method, ?r)"
  proof (rule rl.run_stay)
    fix x assume x: "p + 1 \<le> x" "x < ?q"
    then have "mem x \<in> set name" using stored_in [OF st'(1), of x] by simp
    with name(2) method_char_not show "rl_step mem x (RL_method, ?r) = Some (Next (RL_method, ?r))"
      by (auto simp: rl_step_def rl_method_def)
  qed (use lim cs in auto)
  also have "\<dots> = rl_run mem lim (?q + 1) (RL_spaces_before_uri,
      r\<lparr>rq_request_start := p, rq_method_end := ?q - 1, rq_method := method_of name (rq_method r)\<rparr>)"
    using st'(2) lim method_table_eq [OF st'(1), of "?r\<lparr>rq_method_end := ?q - 1\<rparr>"]
    by (intro rl.run_next) (auto simp: rl_step_def rl_method_def)
  finally show ?thesis .
qed

text \<open>What reading a URI may change: the five remarks on its shape.\<close>

definition same_but_shape :: "request \<Rightarrow> request \<Rightarrow> bool" where
  "same_but_shape r r' \<longleftrightarrow> (\<exists>e a c q pl. r' = r\<lparr>rq_uri_ext := e, rq_args_start := a, rq_complex_uri := c,
     rq_quoted_uri := q, rq_plus_in_uri := pl\<rparr>)"

lemma same_but_shape_refl: "same_but_shape r r"
  unfolding same_but_shape_def
  by (rule exI [of _ "rq_uri_ext r"], rule exI [of _ "rq_args_start r"], rule exI [of _ "rq_complex_uri r"],
      rule exI [of _ "rq_quoted_uri r"], rule exI [of _ "rq_plus_in_uri r"]) simp

lemma same_but_shape_trans: "same_but_shape r r' \<Longrightarrow> same_but_shape r' r'' \<Longrightarrow> same_but_shape r r''"
  unfolding same_but_shape_def by (elim exE) (simp, blast)

lemma same_but_shape_upd [simp]:
  "same_but_shape r (r\<lparr>rq_uri_ext := e\<rparr>)" "same_but_shape r (r\<lparr>rq_args_start := a\<rparr>)"
  "same_but_shape r (r\<lparr>rq_complex_uri := c\<rparr>)" "same_but_shape r (r\<lparr>rq_quoted_uri := q\<rparr>)"
  "same_but_shape r (r\<lparr>rq_plus_in_uri := pl\<rparr>)" "same_but_shape r r"
proof -
  let ?s = "\<lambda>e a c q pl. r\<lparr>rq_uri_ext := e, rq_args_start := a, rq_complex_uri := c,
     rq_quoted_uri := q, rq_plus_in_uri := pl\<rparr>"
  have s: "same_but_shape r (?s e a c q pl)" for e a c q pl unfolding same_but_shape_def by blast
  show "same_but_shape r (r\<lparr>rq_uri_ext := e\<rparr>)"
    using s [where e = e and a = "rq_args_start r" and c = "rq_complex_uri r" and q = "rq_quoted_uri r" and pl = "rq_plus_in_uri r"] by simp
  show "same_but_shape r (r\<lparr>rq_args_start := a\<rparr>)"
    using s [where e = "rq_uri_ext r" and a = a and c = "rq_complex_uri r" and q = "rq_quoted_uri r" and pl = "rq_plus_in_uri r"] by simp
  show "same_but_shape r (r\<lparr>rq_complex_uri := c\<rparr>)"
    using s [where e = "rq_uri_ext r" and a = "rq_args_start r" and c = c and q = "rq_quoted_uri r" and pl = "rq_plus_in_uri r"] by simp
  show "same_but_shape r (r\<lparr>rq_quoted_uri := q\<rparr>)"
    using s [where e = "rq_uri_ext r" and a = "rq_args_start r" and c = "rq_complex_uri r" and q = q and pl = "rq_plus_in_uri r"] by simp
  show "same_but_shape r (r\<lparr>rq_plus_in_uri := pl\<rparr>)"
    using s [where e = "rq_uri_ext r" and a = "rq_args_start r" and c = "rq_complex_uri r" and q = "rq_quoted_uri r" and pl = pl] by simp
  show "same_but_shape r r" by (rule same_but_shape_refl)
qed

definition in_uri :: "rl_state \<Rightarrow> bool" where
  "in_uri s \<longleftrightarrow> s = RL_after_slash_in_uri \<or> s = RL_check_uri \<or> s = RL_uri"

definition uri_char :: "char \<Rightarrow> bool" where
  "uri_char c \<longleftrightarrow> 0 \<le> schar c \<and> c \<noteq> CHR '' '' \<and> c \<noteq> CR \<and> c \<noteq> LF \<and> c \<noteq> NUL"

lemma is_usual_defined: "0 \<le> schar c \<Longrightarrow> \<exists>u. is_usual c = Some u"
proof -
  assume "0 \<le> schar c"
  then have "0 \<le> schar c div 32" "nat (schar c div 32) < length usual"
    using schar_bounds [of c] by (auto simp: usual_def nat_less_iff)
  then show ?thesis by (simp add: is_usual_def ld_def Let_def)
qed

lemma is_usual_undefined: "schar c < 0 \<Longrightarrow> is_usual c = None"
  using div_neg_pos_less0 [of "schar c" 32] by (simp add: is_usual_def Let_def)

lemma is_usual_special [simp]:
  "is_usual (CHR '' '') = Some False" "is_usual CR = Some False" "is_usual LF = Some False" "is_usual NUL = Some False"
  "is_usual (CHR ''.'') = Some False" "is_usual (CHR ''/'') = Some False" "is_usual (CHR ''%'') = Some False"
  "is_usual (CHR ''?'') = Some False" "is_usual (CHR ''#'') = Some False" "is_usual (CHR ''+'') = Some False"
  by (simp_all add: is_usual_def schar_def crlf_defs ld_def usual_def)

text \<open>
  A URI is plain if it has no quoted character, no fragment and no empty or dotted segment; behind a question mark
  only the fragment counts. The flag says whether a segment has just begun.
\<close>

fun plain_uri :: "bool \<Rightarrow> string \<Rightarrow> bool" where
  "plain_uri slash [] = True"
| "plain_uri slash (c # cs) =
     (c \<noteq> CHR ''%'' \<and> c \<noteq> CHR ''#'' \<and> \<not> (slash \<and> (c = CHR ''/'' \<or> c = CHR ''.'')) \<and>
      (if c = CHR ''?'' then CHR ''#'' \<notin> set cs else plain_uri (c = CHR ''/'' \<or> slash \<and> c = CHR ''+'') cs))"

definition plain_from :: "rl_state \<Rightarrow> string \<Rightarrow> bool" where
  "plain_from s t \<longleftrightarrow> (if s = RL_uri then CHR ''#'' \<notin> set t else plain_uri (s = RL_after_slash_in_uri) t)"

definition same_marks :: "request \<Rightarrow> request \<Rightarrow> bool" where
  "same_marks r r' \<longleftrightarrow> rq_complex_uri r' = rq_complex_uri r \<and> rq_quoted_uri r' = rq_quoted_uri r"

lemma rl_step_uri:
  assumes "in_uri s" "uri_char (mem p)"
  shows "\<exists>s' r'. rl_step mem p (s, r) = Some (Next (s', r')) \<and> in_uri s' \<and> same_but_shape r r' \<and>
    (plain_from s (mem p # t) \<longrightarrow> plain_from s' t \<and> same_marks r r')"
proof -
  obtain u where u: "is_usual (mem p) = Some u"
    using is_usual_defined assms(2) by (auto simp: uri_char_def)
  show ?thesis
    using assms(1) [unfolded in_uri_def]
  proof (elim disjE)
    assume "s = RL_after_slash_in_uri"
    then show ?thesis
      using assms(2) u by (auto simp: rl_step_def rl_after_slash_in_uri_def uri_char_def in_uri_def plain_from_def same_marks_def)
  next
    assume "s = RL_check_uri"
    then show ?thesis
      using assms(2) u by (auto simp: rl_step_def rl_check_uri_def uri_char_def in_uri_def plain_from_def same_marks_def)
  next
    assume "s = RL_uri"
    then show ?thesis
      using assms(2) u by (auto simp: rl_step_def rl_uri_def uri_char_def in_uri_def plain_from_def same_marks_def)
  qed
qed

lemma rl_run_uri:
  assumes "stored mem p t" "p + int (length t) \<le> lim" "\<forall>c\<in>set t. uri_char c" "in_uri s"
  shows "\<exists>s' r'. rl_run mem lim p (s, r) = rl_run mem lim (p + int (length t)) (s', r') \<and>
    in_uri s' \<and> same_but_shape r r' \<and> (plain_from s t \<longrightarrow> same_marks r r')"
  using assms
proof (induction t arbitrary: p s r)
  case Nil
  then show ?case by (intro exI [of _ s] exI [of _ r]) (simp add: same_marks_def)
next
  case (Cons c t)
  obtain s1 r1 where s1: "rl_step mem p (s, r) = Some (Next (s1, r1))" "in_uri s1" "same_but_shape r r1"
      "plain_from s (c # t) \<longrightarrow> plain_from s1 t \<and> same_marks r r1"
    using rl_step_uri [of s mem p r t] Cons.prems by auto
  then have "rl_run mem lim p (s, r) = rl_run mem lim (p + 1) (s1, r1)"
    using Cons.prems by (intro rl.run_next) auto
  moreover obtain s' r' where "rl_run mem lim (p + 1) (s1, r1) = rl_run mem lim (p + 1 + int (length t)) (s', r')"
      "in_uri s'" "same_but_shape r1 r'" "plain_from s1 t \<longrightarrow> same_marks r1 r'"
    using Cons.IH [of "p + 1" s1 r1] Cons.prems s1(2) by auto
  ultimately show ?case
    using same_but_shape_trans [OF s1(3)] s1(4)
    by (intro exI [of _ s'] exI [of _ r']) (auto simp: algebra_simps same_marks_def)
qed


lemma rl_run_uri_end:
  assumes "mem q = CHR '' ''" "mem (q + 1) = CHR ''H''" "q + 2 \<le> lim" "in_uri s"
  shows "rl_run mem lim q (s, r) = rl_run mem lim (q + 2) (RL_http_H,
    r\<lparr>rq_uri_end := q, rq_http_protocol := (rq_http_protocol r)\<lparr>str_data := q + 1\<rparr>\<rparr>)"
proof -
  obtain s' where s': "rl_step mem q (s, r) = Some (Next (s', r\<lparr>rq_uri_end := q\<rparr>))"
      "s' = RL_check_uri_http_09 \<or> s' = RL_http_09"
    using assms(1,4) by (auto simp: in_uri_def rl_step_def rl_after_slash_in_uri_def rl_check_uri_def rl_uri_def)
  then have "rl_run mem lim q (s, r) = rl_run mem lim (q + 1) (s', r\<lparr>rq_uri_end := q\<rparr>)"
    using assms(3) by (intro rl.run_next) auto
  also have "\<dots> = rl_run mem lim (q + 1 + 1) (RL_http_H,
      r\<lparr>rq_uri_end := q, rq_http_protocol := (rq_http_protocol r)\<lparr>str_data := q + 1\<rparr>\<rparr>)"
    using assms(2,3) s'(2)
    by (intro rl.run_next) (auto simp: rl_step_def rl_check_uri_http_09_def rl_http_09_def crlf_defs)
  finally show ?thesis by (simp add: add.commute)
qed

lemma rl_run_round:
  "p < lim \<Longrightarrow> rl_run mem lim p (s, r) =
     (case rl_step mem p (s, r) of
        None \<Rightarrow> None
      | Some (Next v) \<Rightarrow> rl_run mem lim (p + 1) v
      | Some (Back v) \<Rightarrow> rl_run mem lim p v
      | Some (Halt k v) \<Rightarrow> Some (Halted k v p))"
  by (subst rl.run_unfold) simp

lemma rl_run_protocol:
  assumes "stored mem q ''TTP/''" "q + 4 \<le> lim"
  shows "rl_run mem lim q (RL_http_H, r) = rl_run mem lim (q + 4) (RL_first_major_digit, r)"
  using assms by (simp add: rl_run_round rl_step_def rl_protocol_def add.commute)

lemma rl_run_version:
  assumes "stored mem q [M, CHR ''.'', N, CR, LF]" "q + 5 \<le> lim"
    and "is_digit M" "49 \<le> schar M" "is_digit N"
  shows "rl_run mem lim q (RL_first_major_digit, r) = Some (Halted L_done (RL_almost_done,
     r\<lparr>rq_http_major := schar M - 48, rq_http_minor := schar N - 48, rq_request_end := q + 3\<rparr>) (q + 4))"
proof -
  have "\<not> (schar M < schar (CHR ''1'') \<or> schar M > schar (CHR ''9''))"
    using assms(3,4) by (simp add: is_digit_range) (simp add: schar_def)
  moreover have "mem (q + 3) = CR" "mem (q + 4) = LF" "mem q = M" "mem (q + 1) = CHR ''.''" "mem (q + 2) = N"
    using assms(1) by (simp_all add: add.commute)
  ultimately show ?thesis
    using assms(2-5) digit_not_sep
    by (simp add: rl_run_round rl_step_def rl_version_def rl_almost_done_def digit_acc_small add.commute Let_def)
qed

lemma rl_run_request_uri:
  assumes st: "stored mem p (name @ '' /'' @ t)" and room: "p + int (length name + length t) + 2 \<le> lim"
    and name: "name \<noteq> []" "\<forall>c\<in>set name. \<not> not_method_char c" and uri: "\<forall>c\<in>set t. uri_char c"
  shows "\<exists>s' r'. rl_run mem lim p (RL_start, r) = rl_run mem lim (p + int (length name + length t) + 2) (s', r') \<and>
    in_uri s' \<and> same_but_shape (r\<lparr>rq_request_start := p, rq_method_end := p + int (length name) - 1,
      rq_method := method_of name (rq_method r), rq_uri_start := p + int (length name) + 1\<rparr>) r' \<and>
    (plain_uri True t \<longrightarrow> same_marks r r')"
proof -
  let ?q = "p + int (length name) + 1"
  let ?r = "r\<lparr>rq_request_start := p, rq_method_end := p + int (length name) - 1,
    rq_method := method_of name (rq_method r)\<rparr>"
  have parts: "stored mem p (name @ '' '')" "mem ?q = CHR ''/''" "stored mem (?q + 1) t"
    using st by (simp_all add: stored_append algebra_simps)
  have "rl_run mem lim p (RL_start, r) = rl_run mem lim ?q (RL_spaces_before_uri, ?r)"
    using room by (intro rl_run_method [OF parts(1) _ name]) simp
  also have "\<dots> = rl_run mem lim (?q + 1) (RL_after_slash_in_uri, ?r\<lparr>rq_uri_start := ?q\<rparr>)"
    using parts(2) room by (intro rl.run_next) (auto simp: rl_step_def rl_schema_def)
  finally have "rl_run mem lim p (RL_start, r) = \<dots>" .
  moreover have "\<exists>s' r'. rl_run mem lim (?q + 1) (RL_after_slash_in_uri, ?r\<lparr>rq_uri_start := ?q\<rparr>) =
      rl_run mem lim (?q + 1 + int (length t)) (s', r') \<and> in_uri s' \<and>
      same_but_shape (?r\<lparr>rq_uri_start := ?q\<rparr>) r' \<and>
      (plain_from RL_after_slash_in_uri t \<longrightarrow> same_marks (?r\<lparr>rq_uri_start := ?q\<rparr>) r')"
    using room by (intro rl_run_uri [OF parts(3) _ uri]) (auto simp: in_uri_def)
  moreover have "?q + 1 + int (length t) = p + int (length name + length t) + 2" by simp
  moreover have "plain_from RL_after_slash_in_uri t = plain_uri True t"
    "same_marks (?r\<lparr>rq_uri_start := ?q\<rparr>) = same_marks r"
    by (simp_all add: plain_from_def same_marks_def fun_eq_iff)
  ultimately show ?thesis by (simp only:)
qed

lemma rl_run_request_protocol:
  assumes st: "stored mem e ('' HTTP/'' @ [M, CHR ''.'', N, CR, LF])" and room: "e + 11 \<le> lim"
    and digits: "is_digit M" "49 \<le> schar M" "is_digit N" and s: "in_uri s"
  shows "rl_run mem lim e (s, r) = Some (Halted L_done (RL_almost_done, r\<lparr>rq_uri_end := e,
      rq_http_protocol := (rq_http_protocol r)\<lparr>str_data := e + 1\<rparr>, rq_http_major := schar M - 48,
      rq_http_minor := schar N - 48, rq_request_end := e + 9\<rparr>) (e + 10))"
proof -
  have parts: "mem e = CHR '' ''" "mem (e + 1) = CHR ''H''" "stored mem (e + 2) ''TTP/''"
      "stored mem (e + 6) [M, CHR ''.'', N, CR, LF]"
    using st by (simp_all add: algebra_simps)
  have "rl_run mem lim e (s, r) = rl_run mem lim (e + 2) (RL_http_H,
      r\<lparr>rq_uri_end := e, rq_http_protocol := (rq_http_protocol r)\<lparr>str_data := e + 1\<rparr>\<rparr>)"
    using parts(1,2) room s by (intro rl_run_uri_end) auto
  also have "\<dots> = rl_run mem lim (e + 2 + 4) (RL_first_major_digit,
      r\<lparr>rq_uri_end := e, rq_http_protocol := (rq_http_protocol r)\<lparr>str_data := e + 1\<rparr>\<rparr>)"
    using room by (intro rl_run_protocol [OF parts(3)]) simp
  also have "\<dots> = Some (Halted L_done (RL_almost_done, r\<lparr>rq_uri_end := e,
      rq_http_protocol := (rq_http_protocol r)\<lparr>str_data := e + 1\<rparr>, rq_http_major := schar M - 48,
      rq_http_minor := schar N - 48, rq_request_end := e + 9\<rparr>) (e + 10))"
    using room rl_run_version [OF parts(4) _ digits] by (simp add: add.commute)
  finally show ?thesis .
qed

lemma request_line_ok:
  assumes line: "stored mem (b_pos b) (name @ '' /'' @ t @ '' HTTP/'' @ [M, CHR ''.'', N, CR, LF])"
    and room: "b_pos b + int (length name + length t) + 13 \<le> b_last b"
    and name: "name \<noteq> []" "\<forall>c\<in>set name. \<not> not_method_char c"
    and uri: "\<forall>c\<in>set t. uri_char c"
    and digits: "is_digit M" "M \<noteq> CHR ''0''" "is_digit N"
    and fresh: "rq_state r = 0" "0 < b_pos b"
  shows "\<exists>r'. ngx_http_parse_request_line mem r b =
      Some (LOK, r', b\<lparr>b_pos := b_pos b + int (length name + length t) + 13\<rparr>) \<and>
    same_but_shape (r\<lparr>rq_request_start := b_pos b, rq_method_end := b_pos b + int (length name) - 1,
       rq_method := method_of name (rq_method r),
       rq_uri_start := b_pos b + int (length name) + 1,
       rq_uri_end := b_pos b + int (length name + length t) + 2,
       rq_http_protocol := (rq_http_protocol r)\<lparr>str_data := b_pos b + int (length name + length t) + 3\<rparr>,
       rq_http_major := schar M - 48, rq_http_minor := schar N - 48,
       rq_http_version := (schar M - 48) * 1000 + (schar N - 48),
       rq_request_end := b_pos b + int (length name + length t) + 11\<rparr>) r' \<and>
    (plain_uri True t \<longrightarrow> rq_complex_uri r' = rq_complex_uri r \<and> rq_quoted_uri r' = rq_quoted_uri r)"
proof -
  let ?e = "b_pos b + int (length name + length t) + 2"
  have m: "49 \<le> schar M"
    using digits(1,2) schar_eq [of M "CHR ''0''"] by (simp add: is_digit_range schar_0)
  have parts: "stored mem (b_pos b) (name @ '' /'' @ t)"
      "stored mem ?e ('' HTTP/'' @ [M, CHR ''.'', N, CR, LF])"
    using line by (simp_all add: stored_append algebra_simps)
  have "b_pos b + int (length name + length t) + 2 \<le> b_last b" "?e + 11 \<le> b_last b" using room by simp_all
  from rl_run_request_uri [OF parts(1) this(1) name uri, of r]
    rl_run_request_protocol [OF parts(2) this(2) digits(1) m digits(3)]
  obtain r2 where run: "rl_run mem (b_last b) (b_pos b) (RL_start, r) = Some (Halted L_done (RL_almost_done,
        r2\<lparr>rq_uri_end := ?e, rq_http_protocol := (rq_http_protocol r2)\<lparr>str_data := ?e + 1\<rparr>,
          rq_http_major := schar M - 48, rq_http_minor := schar N - 48, rq_request_end := ?e + 9\<rparr>) (?e + 10))"
      and shape: "same_but_shape (r\<lparr>rq_request_start := b_pos b, rq_method_end := b_pos b + int (length name) - 1,
      rq_method := method_of name (rq_method r), rq_uri_start := b_pos b + int (length name) + 1\<rparr>) r2"
      and marks: "plain_uri True t \<longrightarrow> same_marks r r2"
    by metis
  have v: "i32 (i32 ((schar M - 48) * 1000) + (schar N - 48)) = (schar M - 48) * 1000 + (schar N - 48)"
      "(schar M - 48) * 1000 + (schar N - 48) \<noteq> 9"
    using digits(1,3) m by (simp_all add: is_digit_range i32_id)
  from shape obtain e a c q pl where r2: "r2 = r\<lparr>rq_request_start := b_pos b,
      rq_method_end := b_pos b + int (length name) - 1, rq_method := method_of name (rq_method r),
      rq_uri_start := b_pos b + int (length name) + 1, rq_uri_ext := e, rq_args_start := a,
      rq_complex_uri := c, rq_quoted_uri := q, rq_plus_in_uri := pl\<rparr>"
    unfolding same_but_shape_def by auto
  have pos: "b_pos b + int (length name + length t) + 13 = ?e + 10 + 1"
      "b_pos b + int (length name + length t) + 3 = ?e + 1"
      "b_pos b + int (length name + length t) + 11 = ?e + 9" by simp_all
  let ?r3 = "r2\<lparr>rq_uri_end := ?e, rq_http_protocol := (rq_http_protocol r2)\<lparr>str_data := ?e + 1\<rparr>,
    rq_http_major := schar M - 48, rq_http_minor := schar N - 48, rq_request_end := ?e + 9,
    rq_http_version := (schar M - 48) * 1000 + (schar N - 48), rq_state := 0\<rparr>"
  have "?e + 9 \<noteq> 0" using fresh(2) by simp
  then have "ngx_http_parse_request_line mem r b = Some (LOK, ?r3, b\<lparr>b_pos := ?e + 10 + 1\<rparr>)"
    using fresh(1) run v by (simp add: ngx_http_parse_request_line_def Let_def)
  moreover have "same_but_shape (r\<lparr>rq_request_start := b_pos b, rq_method_end := b_pos b + int (length name) - 1,
       rq_method := method_of name (rq_method r), rq_uri_start := b_pos b + int (length name) + 1,
       rq_uri_end := ?e, rq_http_protocol := (rq_http_protocol r)\<lparr>str_data := ?e + 1\<rparr>,
       rq_http_major := schar M - 48, rq_http_minor := schar N - 48,
       rq_http_version := (schar M - 48) * 1000 + (schar N - 48), rq_request_end := ?e + 9\<rparr>) ?r3"
    unfolding same_but_shape_def
    by (rule exI [of _ e], rule exI [of _ a], rule exI [of _ c], rule exI [of _ q], rule exI [of _ pl],
        rule request_header.equality) (simp_all add: r2 fresh(1))
  moreover have "plain_uri True t \<longrightarrow> rq_complex_uri ?r3 = rq_complex_uri r \<and> rq_quoted_uri ?r3 = rq_quoted_uri r"
    using marks by (simp add: same_marks_def)
  ultimately show ?thesis unfolding pos by blast
qed

text \<open>
  Claim C10: a request line \<open>METHOD /uri HTTP/M.N CR LF\<close>, with any method name of capitals and
  underscores and any URI of 7-bit characters other than space, CR, LF and NUL, is \<open>LOK\<close>: method, URI, protocol,
  version and line end are delimited exactly, the method is the table's entry for the whole name, and besides them only the
  five remarks on the URI's shape may change; a URI without quoted characters, fragment and empty or dotted segments is
  marked neither complex nor quoted. A name the table does not have leaves \<open>r->method\<close> as it was.
\<close>

theorem request_line_parsed:
  assumes line: "stored mem (b_pos b) (name @ '' /'' @ t @ '' HTTP/'' @ [M, CHR ''.'', N, CR, LF])"
    and room: "b_pos b + int (length name + length t) + 13 \<le> b_last b"
    and name: "name \<noteq> []" "\<forall>c\<in>set name. \<not> not_method_char c"
    and uri: "\<forall>c\<in>set t. uri_char c"
    and digits: "is_digit M" "M \<noteq> CHR ''0''" "is_digit N"
    and fresh: "rq_state r = 0" "0 < b_pos b"
  shows "\<exists>r'. ngx_http_parse_request_line mem r b =
      Some (LOK, r', b\<lparr>b_pos := b_pos b + int (length name + length t) + 13\<rparr>) \<and>
    same_but_shape (r\<lparr>rq_request_start := b_pos b, rq_method_end := b_pos b + int (length name) - 1,
       rq_method := method_of name (rq_method r),
       rq_uri_start := b_pos b + int (length name) + 1,
       rq_uri_end := b_pos b + int (length name + length t) + 2,
       rq_http_protocol := (rq_http_protocol r)\<lparr>str_data := b_pos b + int (length name + length t) + 3\<rparr>,
       rq_http_major := schar M - 48, rq_http_minor := schar N - 48,
       rq_http_version := (schar M - 48) * 1000 + (schar N - 48),
       rq_request_end := b_pos b + int (length name + length t) + 11\<rparr>) r' \<and>
    (plain_uri True t \<longrightarrow> rq_complex_uri r' = rq_complex_uri r \<and> rq_quoted_uri r' = rq_quoted_uri r)"
  using assms by (rule request_line_ok)

theorem request_line_parsed_witness:
  "\<exists>r'. ngx_http_parse_request_line (mem_of 100 (''LOCK /a//b?c HTTP/1.1'' @ [CR, LF])) blank_request
      \<lparr>b_pos = 100, b_last = 123\<rparr> = Some (LOK, r', \<lparr>b_pos = 123, b_last = 123\<rparr>) \<and>
    rq_method r' = NGX_HTTP_LOCK \<and> rq_uri_start r' = 105 \<and> rq_uri_end r' = 112 \<and>
    rq_http_version r' = 1001 \<and> rq_request_end r' = 121"
  using request_line_parsed [where mem = "mem_of 100 (''LOCK /a//b?c HTTP/1.1'' @ [CR, LF])"
      and b = "\<lparr>b_pos = 100, b_last = 123\<rparr>" and name = "''LOCK''" and t = "''a//b?c''"
      and M = "CHR ''1''" and N = "CHR ''1''" and r = blank_request]
    stored_mem_of [of 100 "''LOCK /a//b?c HTTP/1.1'' @ [CR, LF]"]
  by (auto simp: same_but_shape_def blank_request_def crlf_defs not_method_char_def uri_char_def is_digit_def
      schar_def method_of_def known_methods_def)

section \<open>What every call keeps\<close>

lemma rl_step_halt:
  assumes "rl_step mem p vars = Some (Halt k v)"
  shows "k = Return NGX_HTTP_PARSE_INVALID_METHOD \<or> k = Return NGX_HTTP_PARSE_INVALID_REQUEST \<or>
    k = L_done \<and> mem p = LF"
proof -
  obtain s r where v: "vars = (s, r)" by (cases vars)
  show ?thesis
    using assms by (cases s) (auto simp: v rl_defs Let_def split: if_splits)
qed

lemma rl_step_defined:
  assumes "0 \<le> schar (mem p)"
  shows "rl_step mem p vars \<noteq> None"
proof -
  obtain s r where v: "vars = (s, r)" by (cases vars)
  show ?thesis
    using is_usual_defined [OF assms] by (cases s) (auto simp: v rl_step_def)
qed

lemma rl_run_cases:
  obtains (undefined) "rl_run mem lim p vars = None" "\<exists>q. p \<le> q \<and> q < lim \<and> schar (mem q) < 0"
    | (again) s' r' where "rl_run mem lim p vars = Some (Ran_out (s', r') (max p lim))"
    | (error) rc s' r' q where "rl_run mem lim p vars = Some (Halted (Return rc) (s', r') q)"
        "rc = NGX_HTTP_PARSE_INVALID_METHOD \<or> rc = NGX_HTTP_PARSE_INVALID_REQUEST"
    | (end_line) s' r' q where "rl_run mem lim p vars = Some (Halted L_done (s', r') q)"
        "p \<le> q" "q < lim" "mem q = LF"
proof (cases "rl_run mem lim p vars")
  case None
  have "\<exists>q. p \<le> q \<and> q < lim \<and> schar (mem q) < 0"
  proof (rule ccontr)
    assume no: "\<not> ?thesis"
    have "rl_run mem lim p vars \<noteq> None"
    proof (rule rl.run_defined [of "\<lambda>q _. p \<le> q"])
      fix q s assume "p \<le> q" "q < lim"
      then have "0 \<le> schar (mem q)" using no by force
      then show "rl_step mem q s \<noteq> None" by (rule rl_step_defined)
    qed auto
    with None show False by blast
  qed
  with None undefined show ?thesis by blast
next
  case (Some out)
  show ?thesis
  proof (cases out)
    case (Ran_out v q)
    then show ?thesis using Some rl.run_out_range again by (cases v) auto
  next
    case (Halted k v q)
    obtain s' r' where v: "v = (s', r')" by (cases v)
    from Some Halted have step: "p \<le> q" "q < lim" "\<exists>s0. rl_step mem q s0 = Some (Halt k v)"
      using rl.run_halted_step by auto
    then show ?thesis
      using rl_step_halt Some Halted v error end_line by metis
  qed
qed

definition rl_at :: "int \<Rightarrow> rl_vars \<Rightarrow> rl_vars" where
  "rl_at n = (\<lambda>(s, r). (s, r\<lparr>rq_state := n\<rparr>))"

lemma rl_at_simp [simp]: "rl_at n (s, r) = (s, r\<lparr>rq_state := n\<rparr>)"
  by (simp add: rl_at_def)

text \<open>The update of \<open>r->state\<close>, moved under the others.\<close>

lemma state_inner:
  "r\<lparr>rq_request_start := x, rq_state := n\<rparr> = r\<lparr>rq_state := n, rq_request_start := x\<rparr>"
  "r\<lparr>rq_method_end := x, rq_state := n\<rparr> = r\<lparr>rq_state := n, rq_method_end := x\<rparr>"
  "r\<lparr>rq_method := x, rq_state := n\<rparr> = r\<lparr>rq_state := n, rq_method := x\<rparr>"
  "r\<lparr>rq_uri_start := x, rq_state := n\<rparr> = r\<lparr>rq_state := n, rq_uri_start := x\<rparr>"
  "r\<lparr>rq_uri_end := x, rq_state := n\<rparr> = r\<lparr>rq_state := n, rq_uri_end := x\<rparr>"
  "r\<lparr>rq_uri_ext := x, rq_state := n\<rparr> = r\<lparr>rq_state := n, rq_uri_ext := x\<rparr>"
  "r\<lparr>rq_schema_start := x, rq_state := n\<rparr> = r\<lparr>rq_state := n, rq_schema_start := x\<rparr>"
  "r\<lparr>rq_schema_end := x, rq_state := n\<rparr> = r\<lparr>rq_state := n, rq_schema_end := x\<rparr>"
  "r\<lparr>rq_host_start := x, rq_state := n\<rparr> = r\<lparr>rq_state := n, rq_host_start := x\<rparr>"
  "r\<lparr>rq_host_end := x, rq_state := n\<rparr> = r\<lparr>rq_state := n, rq_host_end := x\<rparr>"
  "r\<lparr>rq_port_end := x, rq_state := n\<rparr> = r\<lparr>rq_state := n, rq_port_end := x\<rparr>"
  "r\<lparr>rq_http_minor := x, rq_state := n\<rparr> = r\<lparr>rq_state := n, rq_http_minor := x\<rparr>"
  "r\<lparr>rq_http_major := x, rq_state := n\<rparr> = r\<lparr>rq_state := n, rq_http_major := x\<rparr>"
  "r\<lparr>rq_http_protocol := y, rq_state := n\<rparr> = r\<lparr>rq_state := n, rq_http_protocol := y\<rparr>"
  "r\<lparr>rq_complex_uri := x, rq_state := n\<rparr> = r\<lparr>rq_state := n, rq_complex_uri := x\<rparr>"
  "r\<lparr>rq_quoted_uri := x, rq_state := n\<rparr> = r\<lparr>rq_state := n, rq_quoted_uri := x\<rparr>"
  "r\<lparr>rq_plus_in_uri := x, rq_state := n\<rparr> = r\<lparr>rq_state := n, rq_plus_in_uri := x\<rparr>"
  "r\<lparr>rq_args_start := x, rq_state := n\<rparr> = r\<lparr>rq_state := n, rq_args_start := x\<rparr>"
  "r\<lparr>rq_space_in_uri := x, rq_state := n\<rparr> = r\<lparr>rq_state := n, rq_space_in_uri := x\<rparr>"
  "r\<lparr>rq_request_end := x, rq_state := n\<rparr> = r\<lparr>rq_state := n, rq_request_end := x\<rparr>"
  by simp_all

lemma rl_method_table_at:
  "rl_method_table mem m len (r\<lparr>rq_state := n\<rparr>) = (rl_method_table mem m len r)\<lparr>rq_state := n\<rparr>"
  by (simp add: rl_method_table_def if_distrib [of "rq_state_update _"] state_inner
      del: stored.simps cong: if_cong split del: if_split)

lemma rl_step_at: "rl_step mem p (rl_at n vars) = map_option (map_verdict (rl_at n) id) (rl_step mem p vars)"
proof -
  obtain s r where v: "vars = (s, r)" by (cases vars)
  show ?thesis
    by (cases s) (simp_all add: v rl_defs rl_method_table_at [symmetric] state_inner Let_def option.map_comp comp_def
        if_distrib [of "map_verdict (rl_at n) id"] cong: if_cong split del: if_split)
qed

lemma rl_run_at:
  "rl_run mem lim p (s, r\<lparr>rq_state := n\<rparr>) =
    map_option (map_scanned (rl_at n) id) (rl_run mem lim p (s, r))"
proof -
  have "rl_run mem lim p (rl_at n (s, r)) = map_option (map_scanned (rl_at n) id) (rl_run mem lim p (s, r))"
    by (rule rl.run_map) (rule rl_step_at)
  then show ?thesis by simp
qed


section \<open>Properties of every call\<close>



definition rl_result :: "(int \<times> request \<times> cursor) option \<Rightarrow> (int \<times> request \<times> cursor) option" where
  "rl_result = map_option (\<lambda>(rc, r, b). (rc, up_to_call rc r b))"

lemma rl_result_simps [simp]:
  "rl_result None = None" "rl_result (Some (rc, r, b)) = Some (rc, up_to_call rc r b)"
  by (simp_all add: rl_result_def)

text \<open>
  Claim C13: the request line parser can be fed in pieces. If the first piece ends in \<open>LAGAIN\<close>, the
  call that continues gives what one call on the whole input gives; any other end of the first call, undefined behaviour
  included, is that of the call on the whole.
\<close>

theorem request_line_resumes:
  assumes "b_pos b \<le> mid" "mid \<le> b_last b"
  shows "case ngx_http_parse_request_line mem r (b\<lparr>b_last := mid\<rparr>) of
    None \<Rightarrow> ngx_http_parse_request_line mem r b = None
  | Some (rc, r1, b1) \<Rightarrow>
      if rc = LAGAIN then
        rl_result (ngx_http_parse_request_line mem r1 (b1\<lparr>b_last := b_last b\<rparr>)) =
        rl_result (ngx_http_parse_request_line mem r b)
      else ngx_http_parse_request_line mem r b = Some (rc, r1, b1\<lparr>b_last := b_last b\<rparr>)"
proof (cases "rl_state_of (rq_state r)")
  case None
  then show ?thesis using assms by (simp add: ngx_http_parse_request_line_def max_def)
next
  case (Some s)
  have whole: "rl_run mem (b_last b) (b_pos b) (s, r) =
    (case rl_run mem mid (b_pos b) (s, r) of
       Some (Ran_out v q) \<Rightarrow> rl_run mem (b_last b) mid v | out \<Rightarrow> out)"
    using assms by (intro rl.run_resume)
  show ?thesis
  proof (cases rule: rl_run_cases [where mem = mem and lim = mid and p = "b_pos b" and vars = "(s, r)"])
    case undefined
    with Some whole show ?thesis by (simp add: ngx_http_parse_request_line_def)
  next
    case (again s' r')
    note at = rl_run_at [where mem = mem and lim = "b_last b" and p = mid and s = s' and r = r'
        and n = "rl_code s'"]
    show ?thesis
      by (cases rule: rl_run_cases [where mem = mem and lim = "b_last b" and p = mid and vars = "(s', r')"])
         (use again Some assms whole at in
           \<open>auto simp: ngx_http_parse_request_line_def Let_def max_def simp del: not_None_eq\<close>)
  next
    case (error rc s' r' q)
    with Some whole show ?thesis by (auto simp: ngx_http_parse_request_line_def)
  next
    case (end_line s' r' q)
    with Some whole show ?thesis by (auto simp: ngx_http_parse_request_line_def Let_def)
  qed
qed

theorem request_line_resumes_witness:
  "case ngx_http_parse_request_line (mem_of 100 (''GET / HTTP/1.1'' @ [CR, LF])) blank_request
       \<lparr>b_pos = 100, b_last = 102\<rparr> of
     None \<Rightarrow> False
   | Some (rc, r1, b1) \<Rightarrow> rc = LAGAIN \<and> rq_state r1 = rl_code RL_method \<and>
       rl_result (ngx_http_parse_request_line (mem_of 100 (''GET / HTTP/1.1'' @ [CR, LF])) r1 (b1\<lparr>b_last := 116\<rparr>)) =
       rl_result (ngx_http_parse_request_line (mem_of 100 (''GET / HTTP/1.1'' @ [CR, LF])) blank_request
         \<lparr>b_pos = 100, b_last = 116\<rparr>)"
proof -
  let ?mem = "mem_of 100 (''GET / HTTP/1.1'' @ [CR, LF])"
  have "?mem 100 = CHR ''G''" "?mem 101 = CHR ''E''" by (simp_all add: mem_of_def)
  then obtain r1 b1 where "ngx_http_parse_request_line ?mem blank_request \<lparr>b_pos = 100, b_last = 102\<rparr> =
      Some (LAGAIN, r1, b1)" "rq_state r1 = rl_code RL_method"
    by (simp add: ngx_http_parse_request_line_def rl_run_round rl_step_def rl_start_def rl_method_def
        not_method_char_def schar_def crlf_defs rl.run_end blank_request_def Let_def)
  then show ?thesis
    using request_line_resumes [where b = "\<lparr>b_pos = 100, b_last = 116\<rparr>" and mid = 102 and mem = ?mem
        and r = blank_request] by simp
qed

text \<open>
  Claim C35: one byte above 0x7f in the URI makes the parser undefined: \<open>ch\<close> is a signed
  character, so \<open>usual[ch >> 5]\<close> reads in front of the table.
\<close>

theorem request_high_byte_undefined:
  assumes line: "stored mem (b_pos b) (name @ '' /'' @ t @ [c])"
    and room: "b_pos b + int (length name + length t) + 3 \<le> b_last b"
    and name: "name \<noteq> []" "\<forall>c\<in>set name. \<not> not_method_char c"
    and uri: "\<forall>c\<in>set t. uri_char c" and high: "schar c < 0"
    and fresh: "rq_state r = 0"
  shows "ngx_http_parse_request_line mem r b = None"
proof -
  let ?e = "b_pos b + int (length name + length t) + 2"
  have parts: "stored mem (b_pos b) (name @ '' /'' @ t)" "mem ?e = c"
    using line by (simp_all add: stored_append algebra_simps)
  have "?e \<le> b_last b" using room by simp
  from rl_run_request_uri [OF parts(1) this name uri, of r] obtain s' r' where
    run: "rl_run mem (b_last b) (b_pos b) (RL_start, r) = rl_run mem (b_last b) ?e (s', r')" "in_uri s'"
    by blast
  have "rl_run mem (b_last b) ?e (s', r') = None"
    using parts(2) room run(2) is_usual_undefined [OF high]
    by (intro rl.run_undefined) (auto simp: rl_step_def in_uri_def)
  with run(1) fresh show ?thesis by (simp add: ngx_http_parse_request_line_def)
qed

theorem request_high_byte_undefined_witness:
  "ngx_http_parse_request_line (mem_of 100 (''GET /a'' @ [CHR 0xC3])) blank_request
     \<lparr>b_pos = 100, b_last = 107\<rparr> = None"
  using request_high_byte_undefined [where mem = "mem_of 100 (''GET /a'' @ [CHR 0xC3])"
      and b = "\<lparr>b_pos = 100, b_last = 107\<rparr>" and name = "''GET''" and t = "''a''" and c = "CHR 0xC3"
      and r = blank_request]
    stored_mem_of [of 100 "''GET /a'' @ [CHR 0xC3]"]
  by (simp add: blank_request_def crlf_defs not_method_char_def uri_char_def schar_def)

text \<open>
  A line without a protocol is HTTP/0.9, if the request's \<open>http_major\<close> is 0: \<open>LOK\<close> for GET and
  \<open>INVALID_09_METHOD\<close> for any other method, with the cursor behind the line in both cases.
\<close>

theorem request_09_needs_get:
  assumes line: "stored mem (b_pos b) (name @ '' /'' @ t @ [CR, LF])"
    and room: "b_pos b + int (length name + length t) + 4 \<le> b_last b"
    and name: "name \<noteq> []" "\<forall>c\<in>set name. \<not> not_method_char c"
    and uri: "\<forall>c\<in>set t. uri_char c"
    and fresh: "rq_state r = 0" "rq_http_major r = 0" "0 < b_pos b"
  shows "\<exists>r'. ngx_http_parse_request_line mem r b =
      Some (if method_of name (rq_method r) = NGX_HTTP_GET then LOK else NGX_HTTP_PARSE_INVALID_09_METHOD,
        r', b\<lparr>b_pos := b_pos b + int (length name + length t) + 4\<rparr>) \<and>
    rq_http_version r' = 9 \<and> rq_uri_end r' = b_pos b + int (length name + length t) + 2 \<and>
    rq_request_end r' = b_pos b + int (length name + length t) + 2"
proof -
  let ?e = "b_pos b + int (length name + length t) + 2"
  have parts: "stored mem (b_pos b) (name @ '' /'' @ t)" "mem ?e = CR" "mem (?e + 1) = LF"
    using line by (simp_all add: stored_append algebra_simps)
  have "?e \<le> b_last b" using room by simp
  from rl_run_request_uri [OF parts(1) this name uri, of r] obtain s' r' where
    run: "rl_run mem (b_last b) (b_pos b) (RL_start, r) = rl_run mem (b_last b) ?e (s', r')" "in_uri s'"
      "rq_method r' = method_of name (rq_method r)" "rq_http_major r' = 0"
    using fresh(2) by (auto simp: same_but_shape_def)
  have "rl_run mem (b_last b) ?e (s', r') = rl_run mem (b_last b) (?e + 1)
      (RL_almost_done, r'\<lparr>rq_uri_end := ?e, rq_http_minor := 9\<rparr>)"
    using parts(2) room run(2)
    by (intro rl.run_next) (auto simp: in_uri_def rl_step_def rl_after_slash_in_uri_def rl_check_uri_def rl_uri_def)
  also have "\<dots> = Some (Halted L_done (RL_almost_done,
      r'\<lparr>rq_uri_end := ?e, rq_http_minor := 9, rq_request_end := ?e + 1 - 1\<rparr>) (?e + 1))"
    using parts(3) room by (intro rl.run_halt) (auto simp: rl_step_def rl_almost_done_def)
  finally have "rl_run mem (b_last b) (b_pos b) (RL_start, r) = \<dots>" using run(1) by simp
  then show ?thesis
    using fresh(1,3) run(3,4) by (simp add: ngx_http_parse_request_line_def Let_def i32_id)
qed

theorem request_09_needs_get_witness:
  "\<exists>r'. ngx_http_parse_request_line (mem_of 100 (''POST /a'' @ [CR, LF])) blank_request
      \<lparr>b_pos = 100, b_last = 109\<rparr> =
      Some (NGX_HTTP_PARSE_INVALID_09_METHOD, r', \<lparr>b_pos = 109, b_last = 109\<rparr>)"
  using request_09_needs_get [where mem = "mem_of 100 (''POST /a'' @ [CR, LF])"
      and b = "\<lparr>b_pos = 100, b_last = 109\<rparr>" and name = "''POST''" and t = "''a''" and r = blank_request]
    stored_mem_of [of 100 "''POST /a'' @ [CR, LF]"]
  by (auto simp: blank_request_def crlf_defs not_method_char_def uri_char_def schar_def
      method_of_def known_methods_def NGX_HTTP_POST_def NGX_HTTP_GET_def)

end
