(* ===== verification/Http_Host.thy ===== *)
theory Http_Host
  imports Parse_Header_Line
begin

text \<open>
  The host of a request: \<open>http_process_host\<close> of http_parse.c, with \<open>lowcase_key_copy_from_origin\<close> and
  \<open>BKDRhash\<close> of http.c. \<open>size_t\<close> variables are 64-bit words. \<open>tolower\<close> is that of the C locale, whose
  table leaves every byte but the capitals alone.
\<close>

section \<open>Operations\<close>

definition tolower :: "char \<Rightarrow> char" where
  "tolower c = (if 65 \<le> (of_char c :: int) \<and> (of_char c :: int) \<le> 90 then char_of (of_char c + 32 :: int) else c)"

text \<open>The loop \<open>low->data[i] = tolower(origin->data[i])\<close>, for \<open>k\<close> more characters.\<close>

fun low_loop :: "char_mem \<Rightarrow> int \<Rightarrow> int \<Rightarrow> int \<Rightarrow> nat \<Rightarrow> char_mem" where
  "low_loop mem lo og i 0 = mem"
| "low_loop mem lo og i (Suc k) = low_loop (mem(lo + i := tolower (mem (og + i)))) lo og (i + 1) k"

definition lowcase_key_copy_from_origin ::
  "char_mem \<Rightarrow> lt_string \<Rightarrow> lt_string \<Rightarrow> lt_string \<times> char_mem" where
  "lowcase_key_copy_from_origin mem low origin =
     (low\<lparr>str_data := str_data origin, str_length := str_length origin\<rparr>,
      low_loop mem (str_data origin) (str_data origin) 0 (nat (str_length origin)))"

fun bkdr_loop :: "char_mem \<Rightarrow> int \<Rightarrow> nat \<Rightarrow> 32 word \<Rightarrow> 32 word" where
  "bkdr_loop mem p 0 hash = hash"
| "bkdr_loop mem p (Suc k) hash = bkdr_loop mem (p + 1) k (hash * 31 + word_of_int (schar (mem p)))"

definition BKDRhash :: "char_mem \<Rightarrow> int \<Rightarrow> int \<Rightarrow> 32 word" where
  "BKDRhash mem str len = bkdr_loop mem str (nat len) 0"

datatype host_state = sw_usual | sw_literal | sw_rest

text \<open>
  The loop over \<open>h[i]\<close>, \<open>k\<close> characters to go: \<^const>\<open>None\<close> is \<open>return LERROR\<close>.
\<close>

fun host_loop ::
  "char_mem \<Rightarrow> int \<Rightarrow> int \<Rightarrow> nat \<Rightarrow> host_state \<Rightarrow> 64 word \<Rightarrow> 64 word \<Rightarrow> (host_state \<times> 64 word \<times> 64 word) option"
where
  "host_loop mem h i 0 state dot_pos host_len = Some (state, dot_pos, host_len)"
| "host_loop mem h i (Suc k) state dot_pos host_len =
     (let ch = mem (h + i) in
      if ch = CHR ''.'' then
        if dot_pos = word_of_int (i - 1) then None
        else host_loop mem h (i + 1) k state (word_of_int i) host_len
      else if ch = CHR '':'' then
        if state = sw_usual then host_loop mem h (i + 1) k sw_rest dot_pos (word_of_int i)
        else host_loop mem h (i + 1) k state dot_pos host_len
      else if ch = CHR ''['' then
        if i = 0 then host_loop mem h (i + 1) k sw_literal dot_pos host_len
        else host_loop mem h (i + 1) k state dot_pos host_len
      else if ch = CHR '']'' then
        if state = sw_literal then host_loop mem h (i + 1) k sw_rest dot_pos (word_of_int (i + 1))
        else host_loop mem h (i + 1) k state dot_pos host_len
      else if ch = NUL then None
      else if ch = CHR ''/'' then None
      else host_loop mem h (i + 1) k state dot_pos host_len)"

text \<open>The result of the function is the code, the host string and the memory.\<close>

definition http_process_host :: "char_mem \<Rightarrow> lt_string \<Rightarrow> int \<times> lt_string \<times> char_mem" where
  "http_process_host mem host =
     (case host_loop mem (str_data host) 0 (nat (str_length host)) sw_usual
             (word_of_int (str_length host)) (word_of_int (str_length host)) of
        None \<Rightarrow> (LERROR, host, mem)
      | Some (_, dot_pos, host_len0) \<Rightarrow>
          let host_len = (if dot_pos = host_len0 - 1 then host_len0 - 1 else host_len0) in
          if host_len = 0 then (LERROR, host, mem)
          else
            let (host1, mem1) = lowcase_key_copy_from_origin mem host host
            in (LOK, host1\<lparr>str_length := i32 (uint host_len)\<rparr>, mem1))"

section \<open>Reference\<close>

text \<open>What the host of a header value is: the characters it must not have, and where it ends.\<close>

fun double_dot :: "string \<Rightarrow> bool" where
  "double_dot (a # b # cs) = (a = CHR ''.'' \<and> b = CHR ''.'' \<or> double_dot (b # cs))"
| "double_dot cs = False"

definition host_refused :: "string \<Rightarrow> bool" where
  "host_refused h \<longleftrightarrow> NUL \<in> set h \<or> CHR ''/'' \<in> set h \<or> double_dot h"

definition host_end :: "string \<Rightarrow> nat" where
  "host_end h =
     (if h \<noteq> [] \<and> hd h = CHR ''['' then
        let n = length (takeWhile (\<lambda>c. c \<noteq> CHR '']'') h) in if n < length h then n + 1 else length h
      else length (takeWhile (\<lambda>c. c \<noteq> CHR '':'') h))"

text \<open>The position of the last dot, and the host without a dot at its end.\<close>

fun last_dot :: "int \<Rightarrow> int \<Rightarrow> string \<Rightarrow> int" where
  "last_dot d i [] = d"
| "last_dot d i (c # cs) = last_dot (if c = CHR ''.'' then i else d) (i + 1) cs"

definition host_length :: "string \<Rightarrow> nat" where
  "host_length h =
     (let n = host_end h in if 0 < n \<and> last_dot (int (length h)) 0 h = int n - 1 then n - 1 else n)"

section \<open>The loop against the reference\<close>

definition len_step :: "host_state \<Rightarrow> int \<Rightarrow> int \<Rightarrow> char \<Rightarrow> host_state \<times> int" where
  "len_step s n i c =
     (if c = CHR '':'' \<and> s = sw_usual then (sw_rest, i)
      else if c = CHR ''['' \<and> i = 0 then (sw_literal, n)
      else if c = CHR '']'' \<and> s = sw_literal then (sw_rest, i + 1)
      else (s, n))"

fun len_scan :: "host_state \<Rightarrow> int \<Rightarrow> int \<Rightarrow> string \<Rightarrow> host_state \<times> int" where
  "len_scan s n i [] = (s, n)"
| "len_scan s n i (c # cs) = (case len_step s n i c of (s', n') \<Rightarrow> len_scan s' n' (i + 1) cs)"

lemma word_pos_eq:
  assumes "0 \<le> d" "d < 4294967296" "- 1 \<le> j" "j < 4294967296"
  shows "(word_of_int d :: 64 word) = word_of_int j \<longleftrightarrow> d = j"
proof
  assume "(word_of_int d :: 64 word) = word_of_int j"
  then have "d mod 2 ^ 64 = j mod 2 ^ 64"
    by (simp add: word_of_int_eq_iff take_bit_eq_mod)
  then have "(d - j) mod 2 ^ 64 = 0" by (simp add: mod_eq_dvd_iff)
  then have "(2 ^ 64 :: int) dvd d - j" by presburger
  moreover have "\<bar>d - j\<bar> < 2 ^ 64" using assms by simp
  ultimately have "d - j = 0" using dvd_imp_le_int [of "d - j" "2 ^ 64"] by fastforce
  then show "d = j" by simp
qed simp

definition bad_from :: "int \<Rightarrow> int \<Rightarrow> string \<Rightarrow> bool" where
  "bad_from d i t \<longleftrightarrow> NUL \<in> set t \<or> CHR ''/'' \<in> set t \<or> double_dot ((if d = i - 1 then ''.'' else []) @ t)"

lemma double_dot_Cons:
  "double_dot (c # cs) \<longleftrightarrow> (c = CHR ''.'' \<and> cs \<noteq> [] \<and> hd cs = CHR ''.'') \<or> double_dot cs"
  by (cases cs) auto

lemma bad_from_Cons:
  assumes "d < i"
  shows "bad_from d i (c # cs) \<longleftrightarrow> c = NUL \<or> c = CHR ''/'' \<or> c = CHR ''.'' \<and> d = i - 1 \<or>
    bad_from (if c = CHR ''.'' then i else d) (i + 1) cs"
  using assms by (auto simp: bad_from_def double_dot_Cons)

lemma host_loop_scan:
  assumes "stored mem (h + i) t" "0 \<le> i" "i + int (length t) < 2147483648"
    and "d < i \<or> d = D" "0 \<le> d" "d < 2147483648" "i + int (length t) \<le> D"
  shows "host_loop mem h i (length t) s (word_of_int d) (word_of_int n) =
    (if bad_from d i t then None
     else Some (fst (len_scan s n i t), word_of_int (last_dot d i t), word_of_int (snd (len_scan s n i t))))"
  using assms
proof (induction t arbitrary: i s d n)
  case Nil
  then show ?case by (simp add: bad_from_def)
next
  case (Cons c t)
  have dot: "(word_of_int d :: 64 word) = word_of_int (i - 1) \<longleftrightarrow> d = i - 1"
    using Cons.prems by (intro word_pos_eq) auto
  have bad: "bad_from d i (c # t) \<longleftrightarrow> c = NUL \<or> c = CHR ''/'' \<or> c = CHR ''.'' \<and> d = i - 1 \<or>
      bad_from (if c = CHR ''.'' then i else d) (i + 1) t"
    using Cons.prems(4,7) by (auto simp: bad_from_def double_dot_Cons)
  have IH: "host_loop mem h (i + 1) (length t) s' (word_of_int d') (word_of_int n') =
    (if bad_from d' (i + 1) t then None
     else Some (fst (len_scan s' n' (i + 1) t), word_of_int (last_dot d' (i + 1) t),
       word_of_int (snd (len_scan s' n' (i + 1) t))))" if "d' = i \<or> d' = d" for s' d' n'
    using Cons.prems that by (intro Cons.IH) (auto simp: algebra_simps)
  have c: "mem (h + i) = c" using Cons.prems(1) by simp
  note loop = host_loop.simps(2) [of mem h i "length t" s "word_of_int d" "word_of_int n", unfolded Let_def c dot]
  have step: "host_loop mem h i (Suc (length t)) s (word_of_int d) (word_of_int n) =
     (if c = NUL \<or> c = CHR ''/'' \<or> c = CHR ''.'' \<and> d = i - 1 then None
      else case len_step s n i c of (s', n') \<Rightarrow>
        host_loop mem h (i + 1) (length t) s' (word_of_int (if c = CHR ''.'' then i else d)) (word_of_int n'))"
    unfolding loop len_step_def
    by (cases "c = CHR ''.''"; cases "c = CHR '':''"; cases "c = CHR ''[''"; cases "c = CHR '']''"; simp add: NUL_def)
  show ?case
    unfolding list.size(4) add_Suc_right add_0_right step bad by (cases "len_step s n i c") (simp add: IH)
qed

lemma len_scan_rest: "snd (len_scan sw_rest n i t) = n" if "0 < i"
  using that by (induction t arbitrary: i) (auto simp: len_step_def)

lemma len_scan_literal:
  "0 < i \<Longrightarrow> snd (len_scan sw_literal n i t) =
    (if CHR '']'' \<in> set t then i + int (length (takeWhile (\<lambda>c. c \<noteq> CHR '']'') t)) + 1 else n)"
  by (induction t arbitrary: i) (auto simp: len_step_def len_scan_rest)

lemma len_scan_usual:
  "0 < i \<Longrightarrow> snd (len_scan sw_usual n i t) =
    (if CHR '':'' \<in> set t then i + int (length (takeWhile (\<lambda>c. c \<noteq> CHR '':'') t)) else n)"
  by (induction t arbitrary: i) (auto simp: len_step_def len_scan_rest)

lemma takeWhile_in: "length (takeWhile (\<lambda>x. x \<noteq> c) t) < length t \<longleftrightarrow> c \<in> set t"
  by (induction t) auto

lemma len_scan_host_end: "snd (len_scan sw_usual (int (length t)) 0 t) = int (host_end t)"
proof (cases t)
  case (Cons c cs)
  show ?thesis
  proof (cases "c = CHR ''[''")
    case True
    then show ?thesis
      using takeWhile_in [of "CHR '']''" t] by (auto simp: Cons len_step_def host_end_def len_scan_literal Let_def)
  next
    case False
    have "length (takeWhile (\<lambda>c. c \<noteq> CHR '':'') cs) = length cs" if "CHR '':'' \<notin> set cs"
      using that takeWhile_in [of "CHR '':''" cs] length_takeWhile_le [of "\<lambda>c. c \<noteq> CHR '':''" cs] by linarith
    with False show ?thesis
      by (cases "CHR '':'' \<in> set cs"; cases "c = CHR '':''")
        (simp_all add: Cons len_step_def host_end_def len_scan_usual len_scan_rest)
  qed
qed (simp add: host_end_def)

lemma host_end_le: "host_end h \<le> length h"
  by (auto simp: host_end_def Let_def length_takeWhile_le)

lemma last_dot_cases: "last_dot d i h = d \<or> i \<le> last_dot d i h \<and> last_dot d i h < i + int (length h)"
proof (induction h arbitrary: d i)
  case (Cons c h)
  show ?case using Cons.IH [of i "i + 1"] Cons.IH [of d "i + 1"] by auto
qed simp

lemma low_loop_bytes:
  "low_loop mem p p i k = (\<lambda>a. if p + i \<le> a \<and> a < p + i + int k then tolower (mem a) else mem a)"
  by (induction k arbitrary: mem i) (auto simp: fun_eq_iff)

text \<open>
  Claim C29: \<open>http_process_host\<close> refuses a value exactly when it has a NUL byte, a slash
  or two dots in a row, or when nothing is left of it; otherwise it answers \<open>LOK\<close>, the string is cut to
  the host without port and without the dot at the end, and every byte of the value, not only of the
  host, is lower case in the request buffer then; no other byte changes.
\<close>

theorem host_processed:
  assumes "stored mem (str_data host) h" "str_length host = int (length h)" "length h < 2147483648"
  shows "http_process_host mem host =
    (if host_refused h \<or> host_length h = 0 then (LERROR, host, mem)
     else (LOK, host\<lparr>str_length := int (host_length h)\<rparr>,
       \<lambda>a. if str_data host \<le> a \<and> a < str_data host + int (length h) then tolower (mem a) else mem a))"
proof -
  let ?d = "last_dot (int (length h)) 0 h" and ?n = "int (host_end h)"
  have d: "0 \<le> ?d" "?d \<le> int (length h)" using last_dot_cases [of "int (length h)" 0 h] by auto
  have n: "?n \<le> int (length h)" using host_end_le [of h] by simp
  have loop: "host_loop mem (str_data host) 0 (length h) sw_usual (word_of_int (int (length h)))
      (word_of_int (int (length h))) =
    (if host_refused h then None
     else Some (fst (len_scan sw_usual (int (length h)) 0 h), word_of_int ?d, word_of_int ?n))"
    using host_loop_scan [of mem "str_data host" 0 h "int (length h)" "int (length h)" sw_usual "int (length h)"] assms
    by (simp add: bad_from_def host_refused_def len_scan_host_end)
  have dot: "(word_of_int ?d :: 64 word) = word_of_int ?n - 1 \<longleftrightarrow> ?d = ?n - 1"
    using word_pos_eq [of ?d "?n - 1"] d n assms by simp
  have len: "(if ?d = ?n - 1 then word_of_int ?n - 1 else word_of_int ?n :: 64 word) = word_of_int (int (host_length h))"
    using d by (auto simp: host_length_def Let_def of_nat_diff)
  have hl: "int (host_length h) < 2147483648"
    using n assms by (auto simp: host_length_def Let_def)
  have zero: "(word_of_int (int (host_length h)) :: 64 word) = 0 \<longleftrightarrow> host_length h = 0"
    using word_pos_eq [of "int (host_length h)" 0] hl by simp
  have u: "i32 (uint (word_of_int (int (host_length h)) :: 64 word)) = int (host_length h)"
    using hl by (simp only: uint_word_of_int) (simp add: i32_def)
  show ?thesis
  proof (cases "host_refused h")
    case True
    then show ?thesis unfolding http_process_host_def assms(2) nat_int loop by simp
  next
    case False
    then show ?thesis
      unfolding http_process_host_def assms(2) nat_int loop if_not_P [OF False] option.case prod.case Let_def dot len zero
      by (simp only: u lowcase_key_copy_from_origin_def assms(2) low_loop_bytes nat_int prod.case False simp_thms add_0_right)
        simp
  qed
qed

theorem host_processed_witness:
  "http_process_host (mem_of 100 ''Example.org.:80'') \<lparr>str_length = 15, str_data = 100, str_hash = 0\<rparr> =
   (LOK, \<lparr>str_length = 11, str_data = 100, str_hash = 0\<rparr>,
    \<lambda>a. if 100 \<le> a \<and> a < 115 then tolower (mem_of 100 ''Example.org.:80'' a) else mem_of 100 ''Example.org.:80'' a)"
  using host_processed [of "mem_of 100 ''Example.org.:80''" "\<lparr>str_length = 15, str_data = 100, str_hash = 0\<rparr>" "''Example.org.:80''"]
    stored_mem_of [of 100 "''Example.org.:80''"]
  by (simp add: host_refused_def host_length_def host_end_def Let_def NUL_def)

end
