(* ===== verification/Buffer_Ops.thy ===== *)
theory Buffer_Ops
  imports Event_Loop Http_Data
begin

text \<open>
  The buffers and chains of buffer_op_lea.c: buffers of 16384 bytes from a pool, linked by \<open>next\<close>;
  chains of \<open>iovec\<close>s that are sent with one \<open>writev\<close>; reading a socket dry into a list of buffers; and
  accepting connections.

  The state extends the one of the event loop by the memory these functions share: the pool managers
  by their addresses, the characters, the buffers and the chains. Pool elements are live as long as
  they lie inside their block. Of the sockets the state keeps what has been written (descriptor and bytes,
  in order) and what will be read: for each descriptor the results of the next \<open>recv\<close> calls, where an
  empty list is a socket with nothing to read; and for each listening descriptor the results of the next
  \<open>accept4\<close> calls. What the kernel decides is an argument (\<open>sys\<close>).
\<close>

section \<open>Data\<close>

record lt_buffer =
  bf_pos :: int
  bf_last :: int
  bf_end :: int
  bf_head :: int
  bf_written :: int
  bf_next :: u64
  bf_pool :: u64

record lt_chain =
  ch_iov_base :: int
  ch_iov_len :: u64
  ch_next :: u64
  ch_pool :: u64
  ch_chain_len :: int

text \<open>What a socket delivers: bytes, the end of the stream, or an error number.\<close>

datatype rx = Data string | Eof | Err int

record bufs = lea +
  w_mgr :: "u64 \<rightharpoonup> lt_memory_pool_manager"
  w_mem :: char_mem
  w_buf :: "u64 \<rightharpoonup> lt_buffer"
  w_chain :: "u64 \<rightharpoonup> lt_chain"
  w_out :: "(int \<times> string) list"
  w_in :: "int \<Rightarrow> rx list"
  w_pending :: "int \<Rightarrow> (int \<times> int) list"

text \<open>
  The outside: the allocators, epoll and the clock, what fresh memory happens to hold, and \<open>writev\<close>, which sees
  the earlier writes, the descriptor and the bytes and returns a value and an error number.
\<close>

record sys =
  sy_os :: os
  sy_now :: lt_time
  sy_junk_buf :: lt_buffer
  sy_junk_chain :: lt_chain
  sy_writev :: "(int \<times> string) list \<Rightarrow> int \<Rightarrow> string list \<Rightarrow> int \<times> int"

text \<open>Linux error numbers.\<close>

definition EAGAIN :: int where "EAGAIN = 11"
definition EPIPE :: int where "EPIPE = 32"
definition ECONNABORTED :: int where "ECONNABORTED = 103"

lemmas errno_defs = EAGAIN_def EPIPE_def ECONNABORTED_def

definition DEFAULT_BUF_SIZE :: int where "DEFAULT_BUF_SIZE = 16384"

text \<open>\<open>sizeof(lt_buffer_t)\<close> on LP64: the bytes, three pointers, two \<open>int\<close>s, two pointers.\<close>

definition sizeof_buffer :: u64 where "sizeof_buffer = 16432"

section \<open>Memory\<close>

definition bytes :: "char_mem \<Rightarrow> int \<Rightarrow> nat \<Rightarrow> string" where
  "bytes mem p n = map (\<lambda>i. mem (p + int i)) [0..<n]"

definition poke :: "char_mem \<Rightarrow> int \<Rightarrow> string \<Rightarrow> char_mem" where
  "poke mem p cs = (\<lambda>a. if p \<le> a \<and> a < p + int (length cs) then cs ! nat (a - p) else mem a)"

definition buf_at :: "'a bufs_scheme \<Rightarrow> u64 \<Rightarrow> lt_buffer option" where
  "buf_at w a = (if a = 0 then None else w_buf w a)"

definition buf_set :: "u64 \<Rightarrow> (lt_buffer \<Rightarrow> lt_buffer) \<Rightarrow> 'a bufs_scheme \<Rightarrow> 'a bufs_scheme option" where
  "buf_set a f w = map_option (\<lambda>b. w\<lparr>w_buf := (w_buf w)(a \<mapsto> f b)\<rparr>) (buf_at w a)"

definition chain_at :: "'a bufs_scheme \<Rightarrow> u64 \<Rightarrow> lt_chain option" where
  "chain_at w a = (if a = 0 then None else w_chain w a)"

definition chain_set :: "u64 \<Rightarrow> (lt_chain \<Rightarrow> lt_chain) \<Rightarrow> 'a bufs_scheme \<Rightarrow> 'a bufs_scheme option" where
  "chain_set a f w = map_option (\<lambda>c. w\<lparr>w_chain := (w_chain w)(a \<mapsto> f c)\<rparr>) (chain_at w a)"

text \<open>
  \<open>lt_alloc(manager)\<close>, with whether the element lies inside the block it was taken from.
\<close>

definition mgr_alloc :: "sys \<Rightarrow> u64 \<Rightarrow> 'a bufs_scheme \<Rightarrow> (u64 \<times> bool \<times> 'a bufs_scheme) option" where
  "mgr_alloc sy ma w =
     (if ma = 0 then None
      else do {
        mg \<leftarrow> w_mgr w ma;
        blk \<leftarrow> pool_at (w_pool w) (pm_tail mg);
        (a, mg', pm) \<leftarrow> lt_alloc (os_aligned_alloc (sy_os sy)) ma mg (w_pool w);
        Some (a, unat a + unat (pm_one_element_size mg) \<le> unat (mp_end blk),
              w\<lparr>w_mgr := (w_mgr w)(ma \<mapsto> mg'), w_pool := pm\<rparr>)
      })"

text \<open>\<open>lt_new_memory_pool_manager(manager, size, count)\<close> on a manager inside another object.\<close>

definition mgr_new :: "sys \<Rightarrow> u64 \<Rightarrow> u64 \<Rightarrow> u64 \<Rightarrow> 'a bufs_scheme \<Rightarrow> 'a bufs_scheme option" where
  "mgr_new sy ma esize ecount w = do {
     (_, mg, pm) \<leftarrow> lt_new_memory_pool_manager (os_aligned_alloc (sy_os sy)) 0 ma
                       (case w_mgr w ma of None \<Rightarrow> zero_manager | Some mg \<Rightarrow> mg) esize ecount (w_pool w);
     Some (w\<lparr>w_mgr := (w_mgr w)(ma \<mapsto> mg), w_pool := pm\<rparr>)
   }"

definition chain_alloc :: "sys \<Rightarrow> u64 \<Rightarrow> 'a bufs_scheme \<Rightarrow> (u64 \<times> 'a bufs_scheme) option" where
  "chain_alloc sy ma w = do {
     (a, inside, w1) \<leftarrow> mgr_alloc sy ma w;
     Some (a, if inside then w1\<lparr>w_chain := (w_chain w1)(a \<mapsto> sy_junk_chain sy)\<rparr> else w1)
   }"

section \<open>Buffers\<close>

text \<open>The array \<open>start\<close> is the first member, so it lies at the buffer's own address.\<close>

definition lt_new_buffer :: "sys \<Rightarrow> u64 \<Rightarrow> 'a bufs_scheme \<Rightarrow> (u64 \<times> 'a bufs_scheme) option" where
  "lt_new_buffer sy manager w = do {
     (buf, inside, w1) \<leftarrow> mgr_alloc sy manager w;
     if buf = 0 then Some (0, w1)
     else do {
       let w2 = (if inside then w1\<lparr>w_buf := (w_buf w1)(buf \<mapsto> sy_junk_buf sy)\<rparr> else w1);
       w3 \<leftarrow> buf_set buf (\<lambda>b. b\<lparr>bf_end := uint buf + DEFAULT_BUF_SIZE, bf_pos := uint buf,
                bf_last := uint buf, bf_pool := manager, bf_next := 0, bf_head := 0, bf_written := 0\<rparr>) w2;
       Some (buf, w3)
     }
   }"

text \<open>
  The loop \<open>while (now < size)\<close>. \<open>now\<close> is a \<open>size_t\<close>, so for the last sizes before $2^{64}$ it wraps
  and the loop does not end; \<^const>\<open>None\<close> is a loop that does not return, \<open>Some None\<close> undefined behaviour.
\<close>

partial_function (option) buffer_chain_loop ::
  "sys \<Rightarrow> u64 \<Rightarrow> u64 \<Rightarrow> u64 \<Rightarrow> u64 \<Rightarrow> 'a bufs_scheme \<Rightarrow> 'a bufs_scheme option option"
where
  "buffer_chain_loop sy manager sz now old_buf w =
     (if now < sz then
        (case lt_new_buffer sy manager w of
           None \<Rightarrow> Some None
         | Some (new_buf, w1) \<Rightarrow>
             (case buf_set old_buf (bf_next_update (\<lambda>_. new_buf)) w1 of
                None \<Rightarrow> Some None
              | Some w2 \<Rightarrow> buffer_chain_loop sy manager sz (now + 16384) new_buf w2))
      else Some (Some w))"

definition lt_new_buffer_chain ::
  "sys \<Rightarrow> u64 \<Rightarrow> u64 \<Rightarrow> 'a bufs_scheme \<Rightarrow> (u64 \<times> 'a bufs_scheme) option option" where
  "lt_new_buffer_chain sy manager sz w =
     (case lt_new_buffer sy manager w of
        None \<Rightarrow> Some None
      | Some (buf, w1) \<Rightarrow>
          if buf = 0 then Some (Some (0, w1))
          else
            (case buf_set buf (bf_head_update (\<lambda>_. 1)) w1 of
               None \<Rightarrow> Some None
             | Some w2 \<Rightarrow>
                 if sz > 16384
                 then map_option (map_option (Pair buf)) (buffer_chain_loop sy manager sz 16384 buf w2)
                 else Some (Some (buf, w2))))"

section \<open>Sending\<close>

text \<open>\<open>writev\<close>: the bytes it takes are appended to what has been written.\<close>

definition lt_writev ::
  "sys \<Rightarrow> 'a bufs_scheme \<Rightarrow> int \<Rightarrow> (int \<times> u64) list \<Rightarrow> int \<times> int \<times> 'a bufs_scheme" where
  "lt_writev sy w fd vec =
     (let bs = map (\<lambda>(base, len). bytes (w_mem w) base (unat len)) vec;
          (rv, errno) = sy_writev sy (w_out w) fd bs
      in (rv, errno, if rv > 0 then w\<lparr>w_out := w_out w @ [(fd, take (nat rv) (concat bs))]\<rparr> else w))"

text \<open>The first loop of \<open>send_chains\<close>: the vector, and where \<open>cur_chain\<close> stands after it.\<close>

fun chains_vector :: "'a bufs_scheme \<Rightarrow> nat \<Rightarrow> u64 \<Rightarrow> ((int \<times> u64) list \<times> u64) option" where
  "chains_vector w 0 cur = Some ([], cur)"
| "chains_vector w (Suc k) cur = do {
     c \<leftarrow> chain_at w cur;
     (vec, end_chain) \<leftarrow> chains_vector w k (ch_next c);
     Some ((ch_iov_base c, ch_iov_len c) # vec, end_chain)
   }"

text \<open>
  The second loop, which takes the \<open>rv\<close> written bytes off the chains: the code returned, or undefined
  behaviour, or (following \<open>next\<close> in a circle) no return.
\<close>

partial_function (option) chains_advance ::
  "u64 \<Rightarrow> u64 \<Rightarrow> int \<Rightarrow> int \<Rightarrow> 'a bufs_scheme \<Rightarrow> (int \<times> 'a bufs_scheme) option option"
where
  "chains_advance cur_chain cur rv chain_len w =
     (if cur = 0 then Some (Some (LOK, w))
      else
        case chain_at w cur of
          None \<Rightarrow> Some None
        | Some c \<Rightarrow>
            let iov_len = i32 (uint (ch_iov_len c)) in
            if rv > iov_len then
              chains_advance cur_chain (ch_next c) (rv - iov_len) (chain_len - 1)
                (w\<lparr>w_chain := (w_chain w)(cur \<mapsto> c\<lparr>ch_iov_len := ch_iov_len c - word_of_int iov_len\<rparr>)\<rparr>)
            else
              let w1 = w\<lparr>w_chain := (w_chain w)(cur \<mapsto> c\<lparr>ch_iov_base := ch_iov_base c + iov_len,
                              ch_iov_len := ch_iov_len c - word_of_int rv\<rparr>)\<rparr>
              in
                if rv = iov_len then chains_advance cur_chain (ch_next c) (rv - iov_len) (chain_len - 1) w1
                else Some (map_option (Pair LAGAIN) (chain_set cur_chain (ch_chain_len_update (\<lambda>_. chain_len)) w1)))"

text \<open>The result: the code, the new value of \<open>*out_chain\<close>, and the state.\<close>

definition send_chains ::
  "sys \<Rightarrow> int \<Rightarrow> u64 \<Rightarrow> 'a bufs_scheme \<Rightarrow> (int \<times> u64 \<times> 'a bufs_scheme) option option" where
  "send_chains sy fd out_chain w =
     (case chain_at w out_chain of
        None \<Rightarrow> Some None
      | Some c \<Rightarrow>
          if ch_chain_len c \<le> 0 then Some None
          else
            (case chains_vector w (nat (ch_chain_len c)) out_chain of
               None \<Rightarrow> Some None
             | Some (out_vec, cur_chain) \<Rightarrow>
                 (case lt_writev sy w fd out_vec of
                    (rv, errno, w1) \<Rightarrow>
                      if rv = - 1 then
                        if errno = EAGAIN then Some (Some (LAGAIN, cur_chain, w1))
                        else if errno = EPIPE then Some (Some (LCLOSE, out_chain, w1))
                        else Some (Some (LERROR, out_chain, w1))
                      else if rv = 0 then Some (Some (LCLOSE, out_chain, w1))
                      else
                        map_option (map_option
                            (\<lambda>(rc, w2). (rc, if rc = LAGAIN then cur_chain else out_chain, w2)))
                          (chains_advance cur_chain out_chain rv (ch_chain_len c) w1))))"


text \<open>The count loop of \<open>send_buffers\<close>: how many buffers there are.\<close>

partial_function (option) buffers_count :: "'a bufs_scheme \<Rightarrow> int \<Rightarrow> u64 \<Rightarrow> int option option" where
  "buffers_count w iov_i out_buf =
     (if out_buf = 0 then Some (Some iov_i)
      else
        case buf_at w out_buf of
          None \<Rightarrow> Some None
        | Some b \<Rightarrow> buffers_count w (iov_i + 1) (bf_next b))"

fun buffers_vector :: "'a bufs_scheme \<Rightarrow> nat \<Rightarrow> u64 \<Rightarrow> (int \<times> u64) list option" where
  "buffers_vector w 0 buf = Some []"
| "buffers_vector w (Suc k) buf = do {
     b \<leftarrow> buf_at w buf;
     vec \<leftarrow> buffers_vector w k (bf_next b);
     Some ((bf_pos b, word_of_int (bf_last b - bf_pos b)) # vec)
   }"

text \<open>
  The loop over the written bytes. \<open>cur_buf\<close> is set to \<open>iov_base\<close>, a pointer into the bytes: it points to
  a buffer only when it is the address of one. It starts uninitialised, which is \<^const>\<open>None\<close> here. Leaving the loop at
  the end of the vector reaches \<open>__builtin_unreachable\<close>.
\<close>

fun buffers_advance ::
  "(int \<times> u64) list \<Rightarrow> int \<Rightarrow> u64 option \<Rightarrow> 'a bufs_scheme \<Rightarrow> (int \<times> 'a bufs_scheme) option"
where
  "buffers_advance [] remain cur_buf w = None"
| "buffers_advance ((iov_base, len) # vec) remain cur_buf w =
     (let iov_len = i32 (uint len) in
      if remain > iov_len then do {
        let cur = word_of_int iov_base;
        w1 \<leftarrow> buf_set cur (\<lambda>b. b\<lparr>bf_pos := bf_pos b + iov_len\<rparr>) w;
        buffers_advance vec (remain - iov_len) (Some cur) w1
      }
      else if remain < iov_len then do {
        cur \<leftarrow> cur_buf;
        w1 \<leftarrow> buf_set cur (\<lambda>b. b\<lparr>bf_pos := bf_pos b + remain\<rparr>) w;
        Some (LAGAIN, w1)
      }
      else Some (LOK, w))"

definition send_buffers :: "sys \<Rightarrow> int \<Rightarrow> u64 \<Rightarrow> 'a bufs_scheme \<Rightarrow> (int \<times> 'a bufs_scheme) option option" where
  "send_buffers sy fd out_buf w =
     (if out_buf = 0 then Some (Some (0, w))
      else
        case buf_at w out_buf of
          None \<Rightarrow> Some None
        | Some b \<Rightarrow>
            if bf_pos b = bf_last b then Some (Some (0, w))
            else
              (case buffers_count w 0 out_buf of
                 None \<Rightarrow> None
               | Some None \<Rightarrow> Some None
               | Some (Some iov_i) \<Rightarrow>
                   (case buffers_vector w (nat iov_i) out_buf of
                      None \<Rightarrow> Some None
                    | Some out_vector \<Rightarrow>
                        (case lt_writev sy w fd out_vector of
                           (n, errno, w1) \<Rightarrow>
                             if n = - 1 then
                               Some (Some (if errno = EAGAIN then LAGAIN
                                           else if errno = EPIPE then LCLOSE else LERROR, w1))
                             else if n > 0 then Some (buffers_advance out_vector (i32 n) None w1)
                             else if n = 0 then Some (Some (LCLOSE, w1))
                             else Some None))))"

section \<open>Receiving\<close>

text \<open>
  \<open>recv(fd, p, length, 0)\<close> on what the descriptor will deliver: at most \<open>length\<close> of the bytes at the front, the
  others stay; the end of the stream and errors are delivered once.
\<close>

definition lt_recv_call :: "rx list \<Rightarrow> int \<Rightarrow> int \<times> int \<times> string \<times> rx list" where
  "lt_recv_call q len =
     (case q of
        [] \<Rightarrow> (- 1, EAGAIN, [], [])
      | Eof # q' \<Rightarrow> (0, 0, [], q')
      | Err e # q' \<Rightarrow> (- 1, e, [], q')
      | Data ds # q' \<Rightarrow>
          let got = take (nat len) ds; left = drop (nat len) ds
          in (int (length got), 0, got, if left = [] then q' else Data left # q'))"

fun rx_size :: "rx \<Rightarrow> nat" where
  "rx_size (Data ds) = Suc (length ds)"
| "rx_size Eof = 1"
| "rx_size (Err e) = 1"

lemma recv_call_shrinks:
  assumes "lt_recv_call q len = (n, errno, got, q')" "n > 0"
  shows "sum_list (map rx_size q') < sum_list (map rx_size q)"
proof (cases q)
  case (Cons r q0)
  then show ?thesis
    using assms by (cases r) (auto simp: lt_recv_call_def Let_def split: if_splits)
qed (use assms in \<open>simp add: lt_recv_call_def\<close>)

text \<open>The loop of \<open>lt_recv\<close>.\<close>

function recv_loop ::
  "sys \<Rightarrow> int \<Rightarrow> rx list \<Rightarrow> u64 \<Rightarrow> int \<Rightarrow> 'a bufs_scheme \<Rightarrow> (int \<times> rx list \<times> 'a bufs_scheme) option"
where
  "recv_loop sy fd q lt_buf recv_len w =
     (case buf_at w lt_buf of
        None \<Rightarrow> None
      | Some b \<Rightarrow>
          let len = bf_end b - bf_last b in
          (case lt_recv_call q len of
             (n, errno, got, q') \<Rightarrow>
               if n = 0 then Some (LCLOSE, q', w)
               else if n > 0 then
                 let w1 = w\<lparr>w_mem := poke (w_mem w) (bf_last b) got,
                            w_buf := (w_buf w)(lt_buf \<mapsto> b\<lparr>bf_last := bf_last b + n\<rparr>)\<rparr>
                 in
                   if n < len then recv_loop sy fd q' lt_buf (recv_len + n) w1
                   else
                     (case lt_new_buffer sy (bf_pool b) w1 of
                        None \<Rightarrow> None
                      | Some (new_buf, w2) \<Rightarrow>
                          (case buf_set lt_buf (bf_next_update (\<lambda>_. new_buf)) w2 of
                             None \<Rightarrow> None
                           | Some w3 \<Rightarrow> recv_loop sy fd q' new_buf (recv_len + n) w3))
               else if errno = EAGAIN then Some (if recv_len > 0 then recv_len else LAGAIN, q', w)
               else Some (LERROR, q', w)))"
  by pat_completeness auto
termination
  by (relation "measure (\<lambda>(sy, fd, q, _). sum_list (map rx_size q))")
    (auto dest: recv_call_shrinks [OF sym])

declare recv_loop.simps [simp del]

definition lt_recv :: "sys \<Rightarrow> int \<Rightarrow> u64 \<Rightarrow> 'a bufs_scheme \<Rightarrow> (int \<times> 'a bufs_scheme) option" where
  "lt_recv sy fd lt_buf w =
     map_option (\<lambda>(rv, q, w1). (rv, w1\<lparr>w_in := (w_in w1)(fd := q)\<rparr>)) (recv_loop sy fd (w_in w fd) lt_buf 0 w)"

section \<open>Accepting\<close>

definition lt_accept :: "int \<Rightarrow> 'a bufs_scheme \<Rightarrow> int \<times> 'a bufs_scheme" where
  "lt_accept fd w =
     (let (conn_fd, errno) = (case w_pending w fd of [] \<Rightarrow> (- 1, EAGAIN) | r # _ \<Rightarrow> r);
          w1 = w\<lparr>w_pending := (w_pending w)(fd := tl (w_pending w fd))\<rparr>
      in if conn_fd = - 1 then
           (if errno = EAGAIN then LAGAIN else if errno = ECONNABORTED then LABORT else LERROR, w1)
         else (conn_fd, w1))"

section \<open>Room in a manager\<close>

text \<open>
  \<open>mgr_room w ma e j\<close>: the manager at \<open>ma\<close> hands out elements of \<open>e\<close> bytes and its tail block has room for at least
  \<open>j\<close> more; \<open>mgr_next\<close> is where the next one starts.
\<close>

definition mgr_room :: "'a bufs_scheme \<Rightarrow> u64 \<Rightarrow> nat \<Rightarrow> nat \<Rightarrow> bool" where
  "mgr_room w ma e j \<longleftrightarrow> ma \<noteq> 0 \<and>
     (case w_mgr w ma of
        None \<Rightarrow> False
      | Some mg \<Rightarrow> (\<exists>i \<ge> j. pool_room mg (mg, w_pool w) i) \<and> unat (pm_one_element_size mg) = e)"

definition mgr_next :: "'a bufs_scheme \<Rightarrow> u64 \<Rightarrow> nat" where
  "mgr_next w ma = (case w_mgr w ma of None \<Rightarrow> 0 | Some mg \<Rightarrow> tail_next mg (w_pool w))"

definition mgr_tail :: "'a bufs_scheme \<Rightarrow> u64 \<Rightarrow> u64" where
  "mgr_tail w ma = (case w_mgr w ma of None \<Rightarrow> 0 | Some mg \<Rightarrow> pm_tail mg)"

lemma mgr_frame [simp]:
  "mgr_room (w\<lparr>w_buf := f\<rparr>) = mgr_room w" "mgr_next (w\<lparr>w_buf := f\<rparr>) = mgr_next w"
  "mgr_room (w\<lparr>w_chain := c\<rparr>) = mgr_room w" "mgr_next (w\<lparr>w_chain := c\<rparr>) = mgr_next w"
  "mgr_room (w\<lparr>w_mem := m\<rparr>) = mgr_room w" "mgr_next (w\<lparr>w_mem := m\<rparr>) = mgr_next w"
  "mgr_room (w\<lparr>w_out := out\<rparr>) = mgr_room w" "mgr_next (w\<lparr>w_out := out\<rparr>) = mgr_next w"
  by (simp_all add: fun_eq_iff mgr_room_def mgr_next_def split: option.split)

lemma mgr_alloc_ok:
  assumes "mgr_room w ma e (Suc j)"
  shows "\<exists>pm. mgr_alloc sy ma w = Some (word_of_nat (mgr_next w ma), True, w\<lparr>w_pool := pm\<rparr>) \<and>
    mgr_room (w\<lparr>w_pool := pm\<rparr>) ma e j \<and> mgr_next (w\<lparr>w_pool := pm\<rparr>) ma = mgr_next w ma + e \<and>
    40 \<le> mgr_next w ma \<and> mgr_next w ma + Suc j * e < 2 ^ 64 \<and>
    (\<forall>t. t \<noteq> mgr_tail w ma \<longrightarrow> pm t = w_pool w t) \<and> pool_kept (mgr_tail w ma) (w_pool w) pm"
proof -
  obtain mg i' where mg': "w_mgr w ma = Some mg" "ma \<noteq> 0" "pool_room mg (mg, w_pool w) i'"
      "unat (pm_one_element_size mg) = e" "Suc j \<le> i'"
    using assms by (auto simp: mgr_room_def split: option.splits)
  obtain i where i: "i' = Suc i" using mg'(5) by (cases i') auto
  note mg = mg'(1,2) mg'(3) [unfolded i] mg'(4) mg'(5) [unfolded i Suc_le_mono]
  from lp.alloc_room [OF mg(3), of "os_aligned_alloc (sy_os sy)" ma] obtain mg' pm where
    al: "lt_alloc (os_aligned_alloc (sy_os sy)) ma mg (w_pool w) = Some (word_of_nat (tail_next mg (w_pool w)), mg', pm)"
      "pool_room mg (mg', pm) i" "tail_next mg' pm = tail_next mg (w_pool w) + e"
    by (auto simp: pool_alloc_def mg(4))
  have [simp]: "mg' = mg" using al(2) by (simp add: pool_room_def)
  obtain blk where blk: "pool_at (w_pool w) (pm_tail mg) = Some blk"
      "tail_limit mg (w_pool w) = unat (mp_end blk)" "40 \<le> tail_next mg (w_pool w)"
    using mg(3) by (auto simp: pool_room_def tail_used_def tail_limit_def tail_next_def)
  have "Suc j * e \<le> Suc i * e" using mg(5) by (intro mult_le_mono1) simp
  with lp.room_limit [OF mg(3)] lp.limit_word [OF mg(3)]
  have lim: "tail_next mg (w_pool w) + Suc j * e \<le> tail_limit mg (w_pool w)" "tail_limit mg (w_pool w) < 2 ^ 64"
    unfolding mg(4) fst_conv snd_conv by linarith+
  then have "unat (word_of_nat (tail_next mg (w_pool w)) :: u64) = tail_next mg (w_pool w)"
    by (intro unat_of_nat64) simp
  moreover have kept: "pool_kept (pm_tail mg) (w_pool w) pm"
    using alloc_kept [OF _ _ _ al(1), of "unat (pm_element_count mg) - Suc i"] mg(3)
    by (auto simp: pool_room_def)
  moreover have "pm t = w_pool w t" if "t \<noteq> pm_tail mg" for t
    using kept that by (simp add: pool_kept_def)
  moreover have "(w_mgr w)(ma \<mapsto> mg) = w_mgr w" using mg(1) by auto
  ultimately show ?thesis
    using mg al blk lim
    by (intro exI [of _ pm])
      (auto simp: mgr_alloc_def mgr_room_def mgr_next_def mgr_tail_def)
qed

section \<open>New buffers\<close>

definition fresh_buffer :: "u64 \<Rightarrow> u64 \<Rightarrow> lt_buffer" where
  "fresh_buffer a manager = \<lparr>bf_pos = uint a, bf_last = uint a, bf_end = uint a + DEFAULT_BUF_SIZE, bf_head = 0,
     bf_written = 0, bf_next = 0, bf_pool = manager\<rparr>"

lemma fresh_buffer_all:
  "b\<lparr>bf_end := uint a + DEFAULT_BUF_SIZE, bf_pos := uint a, bf_last := uint a, bf_pool := ma, bf_next := 0,
     bf_head := 0, bf_written := 0\<rparr> = fresh_buffer a ma"
  by (cases b) (simp add: fresh_buffer_def)

lemma lt_new_buffer_ok:
  assumes "mgr_room w ma 16432 (Suc j)"
  shows "\<exists>pm. let a = word_of_nat (mgr_next w ma);
      w' = w\<lparr>w_pool := pm, w_buf := (w_buf w)(a \<mapsto> fresh_buffer a ma)\<rparr> in
    lt_new_buffer sy ma w = Some (a, w') \<and> mgr_room w' ma 16432 j \<and>
    mgr_next w' ma = mgr_next w ma + 16432 \<and> unat a = mgr_next w ma \<and> a \<noteq> 0 \<and>
    mgr_next w ma + Suc j * 16432 < 2 ^ 64"
proof -
  let ?a = "word_of_nat (mgr_next w ma) :: u64"
  obtain pm where pm: "mgr_alloc sy ma w = Some (?a, True, w\<lparr>w_pool := pm\<rparr>)"
      "mgr_room (w\<lparr>w_pool := pm\<rparr>) ma 16432 j" "mgr_next (w\<lparr>w_pool := pm\<rparr>) ma = mgr_next w ma + 16432"
      "40 \<le> mgr_next w ma" "mgr_next w ma + Suc j * 16432 < 2 ^ 64"
    using mgr_alloc_ok [OF assms] by blast
  have a: "unat ?a = mgr_next w ma" using pm(5) by (intro unat_of_nat64) simp
  then have "?a \<noteq> 0" using pm(4) by (metis not_numeral_le_zero unat_0)
  then show ?thesis
    using pm a by (intro exI [of _ pm])
      (simp add: Let_def lt_new_buffer_def buf_set_def buf_at_def fresh_buffer_all)
qed

text \<open>The buffers \<open>as\<close>, linked by \<open>next\<close> from \<open>a\<close>, the last one with a null pointer.\<close>

fun buf_list :: "(u64 \<rightharpoonup> lt_buffer) \<Rightarrow> u64 \<Rightarrow> u64 list \<Rightarrow> bool" where
  "buf_list m a [] \<longleftrightarrow> a = 0"
| "buf_list m a (x # xs) \<longleftrightarrow> a = x \<and> x \<noteq> 0 \<and> (\<exists>b. m x = Some b \<and> buf_list m (bf_next b) xs)"

lemma buf_list_unique: "buf_list m a xs \<Longrightarrow> buf_list m a ys \<Longrightarrow> xs = ys"
proof (induction xs arbitrary: a ys)
  case Nil
  then show ?case by (cases ys) auto
next
  case (Cons x xs)
  then show ?case by (cases ys) auto
qed

lemma buf_list_append: "buf_list m a (xs @ y # ys) \<Longrightarrow> buf_list m y (y # ys)"
  by (induction xs arbitrary: a) auto

lemma buf_list_distinct: "buf_list m a xs \<Longrightarrow> distinct xs"
proof (induction xs arbitrary: a)
  case (Cons x xs)
  then obtain b where b: "m x = Some b" "buf_list m (bf_next b) xs" "x \<noteq> 0" by auto
  have "x \<notin> set xs"
  proof
    assume "x \<in> set xs"
    then obtain us vs where xs: "xs = us @ x # vs" by (auto simp: in_set_conv_decomp)
    with b(2) have "buf_list m x (x # vs)" using buf_list_append by blast
    then have "vs = xs" using b(1,2) buf_list_unique by fastforce
    then have "length vs = length (us @ x # vs)" using xs by simp
    then show False by simp
  qed
  with Cons.IH b(2) show ?case by simp
qed simp

text \<open>The pool's next \<open>k\<close> elements of \<open>e\<close> bytes.\<close>

fun slots :: "nat \<Rightarrow> nat \<Rightarrow> nat \<Rightarrow> u64 list" where
  "slots p e 0 = []"
| "slots p e (Suc k) = word_of_nat p # slots (p + e) e k"

lemma slots_length [simp]: "length (slots p e k) = k"
  by (induction k arbitrary: p) auto

lemma slots_above: "x \<in> set (slots p e k) \<Longrightarrow> p + k * e < 2 ^ 64 \<Longrightarrow> p \<le> unat x"
proof (induction k arbitrary: p)
  case (Suc k)
  then have "unat (word_of_nat p :: u64) = p" by (intro unat_of_nat64) simp
  then show ?case using Suc.prems Suc.IH [of "p + e"] by (auto simp: algebra_simps)
qed simp

lemma buffer_chain_loop_ok:
  assumes "mgr_room w ma 16432 k" "unat sz \<le> unat now + k * 16384" "k = 0 \<or> unat now + (k - 1) * 16384 < unat sz"
    and "unat sz \<le> 2 ^ 63" "w_buf w old = Some b" "bf_next b = 0" "old \<noteq> 0" "unat old < mgr_next w ma"
  shows "\<exists>w'. buffer_chain_loop sy ma sz now old w = Some (Some w') \<and>
    buf_list (w_buf w') old (old # slots (mgr_next w ma) 16432 k) \<and>
    (\<exists>nx. w_buf w' old = Some (b\<lparr>bf_next := nx\<rparr>)) \<and>
    (\<forall>x \<in> set (slots (mgr_next w ma) 16432 k). \<exists>nx. w_buf w' x = Some (fresh_buffer x ma\<lparr>bf_next := nx\<rparr>)) \<and>
    (\<forall>x. x \<noteq> old \<and> unat x < mgr_next w ma \<longrightarrow> w_buf w' x = w_buf w x)"
  using assms
proof (induction k arbitrary: w now old b)
  case 0
  then have "\<not> now < sz" by (simp add: word_less_nat_alt)
  then have "buffer_chain_loop sy ma sz now old w = Some (Some w)"
    by (simp add: buffer_chain_loop.simps)
  moreover have "b = b\<lparr>bf_next := 0\<rparr>" using 0 by simp
  ultimately show ?case using 0 by (intro exI [of _ w]) (auto intro!: exI [of _ 0])
next
  case (Suc k)
  let ?a = "word_of_nat (mgr_next w ma) :: u64"
  obtain pm where pm: "lt_new_buffer sy ma w = Some (?a, w\<lparr>w_pool := pm, w_buf := (w_buf w)(?a \<mapsto> fresh_buffer ?a ma)\<rparr>)"
    "mgr_room (w\<lparr>w_pool := pm, w_buf := (w_buf w)(?a \<mapsto> fresh_buffer ?a ma)\<rparr>) ma 16432 k"
    "mgr_next (w\<lparr>w_pool := pm, w_buf := (w_buf w)(?a \<mapsto> fresh_buffer ?a ma)\<rparr>) ma = mgr_next w ma + 16432"
    "unat ?a = mgr_next w ma" "?a \<noteq> 0" "mgr_next w ma + Suc k * 16432 < 2 ^ 64"
    using lt_new_buffer_ok [OF Suc.prems(1), of sy] unfolding Let_def by blast
  have ne: "?a \<noteq> old" using pm(4) Suc.prems(8) by auto
  define w2 where "w2 = w\<lparr>w_pool := pm, w_buf := (w_buf w)(?a \<mapsto> fresh_buffer ?a ma, old \<mapsto> b\<lparr>bf_next := ?a\<rparr>)\<rparr>"
  have lt: "now < sz" using Suc.prems(3) by (simp add: word_less_nat_alt)
  have now: "unat (now + 16384) = unat now + 16384"
    using Suc.prems(3,4) by (simp add: unat_word_ariths)
  have step: "buffer_chain_loop sy ma sz now old w = buffer_chain_loop sy ma sz (now + 16384) ?a w2"
    using lt pm(1) Suc.prems(5,7) ne
    by (subst buffer_chain_loop.simps) (simp add: buf_set_def buf_at_def w2_def)
  have room: "mgr_room w2 ma 16432 k" "mgr_next w2 ma = mgr_next w ma + 16432"
    using pm(2,3) by (simp_all add: w2_def mgr_room_def mgr_next_def)
  have pre: "unat sz \<le> unat (now + 16384) + k * 16384"
      "k = 0 \<or> unat (now + 16384) + (k - 1) * 16384 < unat sz"
    using Suc.prems(2,3) unfolding now by (auto simp: gr0_conv_Suc)
  have at: "w_buf w2 ?a = Some (fresh_buffer ?a ma)" "bf_next (fresh_buffer ?a ma) = 0"
    using ne by (simp_all add: w2_def fresh_buffer_def)
  obtain w' where w': "buffer_chain_loop sy ma sz (now + 16384) ?a w2 = Some (Some w')"
    "buf_list (w_buf w') ?a (?a # slots (mgr_next w ma + 16432) 16432 k)"
    "\<exists>nx. w_buf w' ?a = Some (fresh_buffer ?a ma\<lparr>bf_next := nx\<rparr>)"
    "\<forall>x \<in> set (slots (mgr_next w ma + 16432) 16432 k). \<exists>nx. w_buf w' x = Some (fresh_buffer x ma\<lparr>bf_next := nx\<rparr>)"
    "\<forall>x. x \<noteq> ?a \<and> unat x < mgr_next w ma + 16432 \<longrightarrow> w_buf w' x = w_buf w2 x"
    using Suc.IH [OF room(1) pre Suc.prems(4) at pm(5)] pm(4) unfolding room(2) by auto
  have old: "w_buf w' old = Some (b\<lparr>bf_next := ?a\<rparr>)"
    using w'(5) ne Suc.prems(8) by (auto simp: w2_def)
  have "w_buf w' x = w_buf w x" if "x \<noteq> old" "unat x < mgr_next w ma" for x
  proof -
    have "x \<noteq> ?a" using that(2) pm(4) by auto
    then show ?thesis using w'(5) that by (simp add: w2_def)
  qed
  moreover have "\<exists>nx. w_buf w' old = Some (b\<lparr>bf_next := nx\<rparr>)" using old by blast
  ultimately show ?case
    using w' old step Suc.prems(7) by (intro exI [of _ w']) simp
qed


section \<open>Receiving\<close>

lemma bytes_length [simp]: "length (bytes mem p n) = n"
  by (simp add: bytes_def)

lemma bytes_add: "bytes mem p (m + n) = bytes mem p m @ bytes mem (p + int m) n"
  by (rule nth_equalityI) (auto simp: bytes_def nth_append algebra_simps)

lemma bytes_poke: "bytes (poke mem p cs) p (length cs) = cs"
  by (rule nth_equalityI) (auto simp: bytes_def poke_def)

lemma bytes_frame: "(\<And>a. p \<le> a \<Longrightarrow> a < p + int n \<Longrightarrow> mem' a = mem a) \<Longrightarrow> bytes mem' p n = bytes mem p n"
  by (auto simp: bytes_def)

lemma poke_below: "a < p \<Longrightarrow> poke mem p cs a = mem a"
  by (simp add: poke_def)

text \<open>The bytes received into a buffer.\<close>

definition content :: "'a bufs_scheme \<Rightarrow> u64 \<Rightarrow> string" where
  "content w x = (case w_buf w x of None \<Rightarrow> [] | Some b \<Rightarrow> bytes (w_mem w) (uint x) (nat (bf_last b - uint x)))"

text \<open>What \<open>lt_recv\<close> returns after \<open>n\<close> bytes, given the result that ends the loop.\<close>

fun recv_code :: "int \<Rightarrow> rx list \<Rightarrow> int" where
  "recv_code n [] = (if n > 0 then n else LAGAIN)"
| "recv_code n (Err e # _) = (if e = EAGAIN then if n > 0 then n else LAGAIN else LERROR)"
| "recv_code n _ = LCLOSE"

fun no_data :: "rx list \<Rightarrow> bool" where
  "no_data (Data ds # _) = False"
| "no_data _ = True"

lemma recv_stop:
  assumes "no_data rest" "buf_at w x = Some b" "0 \<le> n"
  shows "recv_loop sy fd rest x n w = Some (recv_code n rest, tl rest, w)"
proof (cases rest)
  case Nil
  then show ?thesis using assms by (subst recv_loop.simps) (simp add: lt_recv_call_def)
next
  case (Cons r q)
  then show ?thesis using assms by (subst recv_loop.simps) (cases r; simp add: lt_recv_call_def)
qed

text \<open>A buffer with room left, older than the pool's free elements.\<close>

definition open_buffer :: "'a bufs_scheme \<Rightarrow> u64 \<Rightarrow> u64 \<Rightarrow> lt_buffer \<Rightarrow> bool" where
  "open_buffer w ma x b \<longleftrightarrow> x \<noteq> 0 \<and> w_buf w x = Some b \<and> bf_pool b = ma \<and> bf_next b = 0 \<and>
     bf_end b = uint x + 16384 \<and> uint x \<le> bf_last b \<and> bf_last b < bf_end b \<and> unat x + 16432 \<le> mgr_next w ma"

definition used :: "u64 \<Rightarrow> lt_buffer \<Rightarrow> nat" where
  "used x b = nat (bf_last b - uint x)"

definition received :: "sys \<Rightarrow> int \<Rightarrow> rx list \<Rightarrow> rx list \<Rightarrow> string \<Rightarrow> u64 \<Rightarrow> int \<Rightarrow> 'a bufs_scheme \<Rightarrow> bool" where
  "received sy fd q rest ds x n w \<longleftrightarrow> (\<exists>w' as.
     recv_loop sy fd q x n w = Some (recv_code (n + int (length ds)) rest, tl rest, w') \<and>
     buf_list (w_buf w') x (x # as) \<and>
     concat (map (content w') (x # as)) = content w x @ ds \<and>
     (\<forall>a < uint x. w_mem w' a = w_mem w a) \<and> (\<forall>y. unat y < unat x \<longrightarrow> w_buf w' y = w_buf w y))"

text \<open>One \<open>recv\<close> that leaves room in the buffer.\<close>

lemma received_part:
  assumes ob: "open_buffer w ma x b" and ds: "ds \<noteq> []" "used x b + length ds < 16384"
    and b1: "b1 = b\<lparr>bf_last := bf_last b + int (length ds)\<rparr>"
    and w1: "w1 = w\<lparr>w_mem := poke (w_mem w) (bf_last b) ds, w_buf := (w_buf w)(x \<mapsto> b1)\<rparr>"
  shows "open_buffer w1 ma x b1" "used x b1 = used x b + length ds" "content w1 x = content w x @ ds"
    "recv_loop sy fd (Data ds # q) x n w = recv_loop sy fd q x (n + int (length ds)) w1"
proof -
  have len: "int (length ds) < bf_end b - bf_last b"
    using ob ds(2) by (simp add: open_buffer_def used_def)
  show "open_buffer w1 ma x b1" using ob len by (simp add: open_buffer_def b1 w1)
  show u: "used x b1 = used x b + length ds"
    using ob nat_add_distrib [of "bf_last b - uint x" "int (length ds)"]
    by (simp add: open_buffer_def used_def b1 algebra_simps)
  have m: "nat (bf_last b1 - uint x) = used x b + length ds" "int (used x b) = bf_last b - uint x"
    using ob u by (simp_all add: used_def open_buffer_def)
  have "bytes (poke (w_mem w) (bf_last b) ds) (uint x) (used x b) = bytes (w_mem w) (uint x) (used x b)"
    using m(2) by (intro bytes_frame poke_below) simp
  moreover have "bytes (poke (w_mem w) (bf_last b) ds) (uint x + int (used x b)) (length ds) = ds"
    using bytes_poke [of "w_mem w" "bf_last b" ds] m(2) by simp
  ultimately show "content w1 x = content w x @ ds"
    using ob m(1) unfolding content_def w1 by (simp add: bytes_add open_buffer_def used_def)
  have "lt_recv_call (Data ds # q) (bf_end b - bf_last b) = (int (length ds), 0, ds, q)"
    using len by (simp add: lt_recv_call_def)
  then show "recv_loop sy fd (Data ds # q) x n w = recv_loop sy fd q x (n + int (length ds)) w1"
    using ob ds(1) len by (subst recv_loop.simps) (simp add: open_buffer_def buf_at_def w1 b1)
qed


text \<open>One \<open>recv\<close> that fills the buffer.\<close>

lemma received_full:
  assumes ob: "open_buffer w ma x b" and room: "mgr_room w ma 16432 (Suc j)"
    and ds: "16384 \<le> used x b + length ds" and k: "k = 16384 - used x b"
    and q1: "q1 = (if drop k ds = [] then q else Data (drop k ds) # q)"
  shows "\<exists>w3 y. recv_loop sy fd (Data ds # q) x n w = recv_loop sy fd q1 y (n + int k) w3 \<and>
    open_buffer w3 ma y (fresh_buffer y ma) \<and> mgr_room w3 ma 16432 j \<and> content w3 y = [] \<and>
    content w3 x = content w x @ take k ds \<and> unat x + 16432 \<le> unat y \<and>
    (\<exists>b3. w_buf w3 x = Some b3 \<and> bf_next b3 = y \<and> bf_last b3 \<le> uint y) \<and>
    (\<forall>a < uint x. w_mem w3 a = w_mem w a) \<and> (\<forall>z. unat z < unat x \<longrightarrow> w_buf w3 z = w_buf w z)"
proof -
  let ?y = "word_of_nat (mgr_next w ma) :: u64" and ?got = "take k ds"
  have u: "int (used x b) = bf_last b - uint x" "used x b < 16384" "0 < k"
    using ob k by (simp_all add: used_def open_buffer_def nat_less_iff)
  have len: "bf_end b - bf_last b = int k" "length ?got = k"
    using ob ds u k by (simp_all add: open_buffer_def of_nat_diff)
  define w1 where "w1 = w\<lparr>w_mem := poke (w_mem w) (bf_last b) ?got,
    w_buf := (w_buf w)(x \<mapsto> b\<lparr>bf_last := bf_last b + int k\<rparr>)\<rparr>"
  have r1: "mgr_room w1 ma 16432 (Suc j)" "mgr_next w1 ma = mgr_next w ma"
    using room by (simp_all add: w1_def)
  obtain pm where pm: "lt_new_buffer sy ma w1 = Some (?y, w1\<lparr>w_pool := pm, w_buf := (w_buf w1)(?y \<mapsto> fresh_buffer ?y ma)\<rparr>)"
      "mgr_room (w1\<lparr>w_pool := pm\<rparr>) ma 16432 j" "mgr_next (w1\<lparr>w_pool := pm\<rparr>) ma = mgr_next w ma + 16432"
      "unat ?y = mgr_next w ma" "?y \<noteq> 0"
    using lt_new_buffer_ok [OF r1(1), of sy] unfolding Let_def r1(2) mgr_frame by blast
  have xy: "unat x + 16432 \<le> unat ?y" "?y \<noteq> x" using ob pm(4) by (auto simp: open_buffer_def)
  define w3 where "w3 = w1\<lparr>w_pool := pm, w_buf := (w_buf w1)(?y \<mapsto> fresh_buffer ?y ma,
    x \<mapsto> b\<lparr>bf_last := bf_last b + int k, bf_next := ?y\<rparr>)\<rparr>"
  have "lt_recv_call (Data ds # q) (bf_end b - bf_last b) = (int k, 0, ?got, q1)"
    using len by (simp add: lt_recv_call_def q1 Let_def)
  then have "recv_loop sy fd (Data ds # q) x n w = recv_loop sy fd q1 ?y (n + int k) w3"
    using ob len(1) u(3) pm(1) xy(2)
    by (subst recv_loop.simps) (simp add: Let_def open_buffer_def buf_at_def buf_set_def w1_def w3_def)
  moreover have "uint x + 16432 \<le> uint ?y"
    using xy(1) unfolding uint_nat by linarith
  moreover have "open_buffer w3 ma ?y (fresh_buffer ?y ma)" "mgr_room w3 ma 16432 j"
    using pm xy(2) by (simp_all add: w3_def open_buffer_def fresh_buffer_def DEFAULT_BUF_SIZE_def)
  moreover have "content w3 ?y = []" using xy(2) by (simp add: content_def w3_def fresh_buffer_def bytes_def)
  moreover have "content w3 x = content w x @ ?got"
  proof -
    have "bytes (poke (w_mem w) (bf_last b) ?got) (uint x) (used x b) = bytes (w_mem w) (uint x) (used x b)"
      using u(1) by (intro bytes_frame poke_below) simp
    moreover have "bytes (poke (w_mem w) (bf_last b) ?got) (uint x + int (used x b)) k = ?got"
      using bytes_poke [of "w_mem w" "bf_last b" ?got] u(1) len(2) by simp
    moreover have "nat (bf_last b + int k - uint x) = used x b + k" using u(1) by simp
    ultimately show ?thesis
      using ob by (simp add: content_def w3_def w1_def bytes_add open_buffer_def used_def)
  qed
  moreover have "w_mem w3 a = w_mem w a" if "a < uint x" for a
    using that ob by (simp add: w3_def w1_def open_buffer_def poke_below)
  moreover have "w_buf w3 z = w_buf w z" if "unat z < unat x" for z
  proof -
    have "z \<noteq> x" "z \<noteq> ?y" using that xy(1) by auto
    then show ?thesis by (simp add: w3_def w1_def)
  qed
  moreover have "w_buf w3 x = Some (b\<lparr>bf_last := bf_last b + int k, bf_next := ?y\<rparr>)" by (simp add: w3_def)
  ultimately show ?thesis
    using xy(1) len(1) ob by (intro exI [of _ w3] exI [of _ ?y]) (simp add: open_buffer_def)
qed


lemma recv_loop_collects:
  assumes "q = map Data dss @ rest" "\<forall>ds \<in> set dss. ds \<noteq> []" "no_data rest" "0 \<le> n"
    and "open_buffer w ma x b" "mgr_room w ma 16432 j" "(used x b + length (concat dss)) div 16384 \<le> j"
  shows "received sy fd q rest (concat dss) x n w"
  using assms
proof (induction "sum_list (map rx_size q)" arbitrary: q dss n w x b j rule: less_induct)
  case less
  note ob = less.prems(5)
  show ?case
  proof (cases dss)
    case Nil
    then have "recv_loop sy fd q x n w = Some (recv_code n rest, tl rest, w)"
      using recv_stop [of rest w x b n sy fd] less.prems by (simp add: open_buffer_def buf_at_def)
    moreover have "buf_list (w_buf w) x [x]" using ob by (auto simp: open_buffer_def)
    ultimately show ?thesis
      unfolding received_def by (intro exI [of _ w] exI [of _ "[]"]) (simp add: Nil)
  next
    case (Cons ds dss')
    have q: "q = Data ds # (map Data dss' @ rest)" and ne: "ds \<noteq> []" using less.prems(1,2) Cons by simp_all
    show ?thesis
    proof (cases "used x b + length ds < 16384")
      case True
      define b1 where "b1 = b\<lparr>bf_last := bf_last b + int (length ds)\<rparr>"
      define w1 where "w1 = w\<lparr>w_mem := poke (w_mem w) (bf_last b) ds, w_buf := (w_buf w)(x \<mapsto> b1)\<rparr>"
      note part = received_part [OF ob ne True b1_def w1_def]
      have "received sy fd (map Data dss' @ rest) rest (concat dss') x (n + int (length ds)) w1"
        using less.prems part(1,2) Cons q by (intro less.hyps [of _ dss' _ w1 x b1 j]) (auto simp: w1_def)
      moreover have "w_mem w1 a = w_mem w a" if "a < uint x" for a
        using that ob by (simp add: w1_def open_buffer_def poke_below)
      moreover have "w_buf w1 y = w_buf w y" if "unat y < unat x" for y
        using that by (auto simp: w1_def)
      ultimately show ?thesis
        unfolding received_def q part(3,4) Cons by (simp add: algebra_simps)
    next
      case False
      define k where "k = 16384 - used x b"
      define q1 where "q1 = (if drop k ds = [] then map Data dss' @ rest else Data (drop k ds) # map Data dss' @ rest)"
      define dss1 where "dss1 = (if drop k ds = [] then dss' else drop k ds # dss')"
      have u: "used x b < 16384" "k \<le> length ds" "0 < k"
        using ob False by (simp_all add: used_def open_buffer_def k_def nat_less_iff)
      have cat: "concat dss1 = drop k ds @ concat dss'" by (simp add: dss1_def)
      then have l: "length (concat dss) = k + length (concat dss1)" using u(2) Cons by simp
      then have big: "used x b + length (concat dss) = 16384 + length (concat dss1)" using u by (simp add: k_def)
      then obtain j' where j: "j = Suc j'" "length (concat dss1) div 16384 \<le> j'"
        using less.prems(7) by (cases j) auto
      obtain w3 y b3 where f: "recv_loop sy fd q x n w = recv_loop sy fd q1 y (n + int k) w3"
        "open_buffer w3 ma y (fresh_buffer y ma)" "mgr_room w3 ma 16432 j'" "content w3 y = []"
        "content w3 x = content w x @ take k ds" "unat x + 16432 \<le> unat y"
        "w_buf w3 x = Some b3" "bf_next b3 = y" "bf_last b3 \<le> uint y"
        "\<forall>a < uint x. w_mem w3 a = w_mem w a" "\<forall>z. unat z < unat x \<longrightarrow> w_buf w3 z = w_buf w z"
        using received_full [OF ob less.prems(6) [unfolded j(1)] _ k_def q1_def, of sy fd n] False q by auto
      have "received sy fd q1 rest (concat dss1) y (n + int k) w3"
      proof (rule less.hyps [OF _ _ _ less.prems(3) _ f(2,3)])
        show "sum_list (map rx_size q1) < sum_list (map rx_size q)" using u(2,3) by (auto simp: q1_def q)
        show "q1 = map Data dss1 @ rest" by (simp add: q1_def dss1_def)
        show "\<forall>ds \<in> set dss1. ds \<noteq> []" using less.prems(2) Cons by (simp add: dss1_def)
        show "0 \<le> n + int k" using less.prems(4) by simp
        show "(used y (fresh_buffer y ma) + length (concat dss1)) div 16384 \<le> j'"
          using j(2) by (simp add: used_def fresh_buffer_def)
      qed
      then obtain w' as where r: "recv_loop sy fd q1 y (n + int k) w3 =
            Some (recv_code (n + int k + int (length (concat dss1))) rest, tl rest, w')"
          "buf_list (w_buf w') y (y # as)" "concat (map (content w') (y # as)) = concat dss1"
          "\<forall>a < uint y. w_mem w' a = w_mem w3 a" "\<forall>z. unat z < unat y \<longrightarrow> w_buf w' z = w_buf w3 z"
        using f(4) by (auto simp: received_def)
      have xy: "unat x < unat y" using f(6) by simp
      have xy2: "uint x < uint y" using f(6) unfolding uint_nat by linarith
      have bx: "w_buf w' x = Some b3" using r(5) xy f(7) by simp
      have "content w' x = content w3 x"
        unfolding content_def bx f(7) using r(4) f(9) by (auto intro!: bytes_frame split: if_splits)
      then have "concat (map (content w') (x # y # as)) = content w x @ concat dss"
        using r(3) f(5) cat Cons by simp
      moreover have "buf_list (w_buf w') x (x # y # as)"
        using r(2) bx f(8) ob by (auto simp: open_buffer_def)
      moreover have "\<forall>a < uint x. w_mem w' a = w_mem w a" "\<forall>z. unat z < unat x \<longrightarrow> w_buf w' z = w_buf w z"
        using r(4,5) f(10,11) xy xy2 by auto
      ultimately show ?thesis
        unfolding received_def f(1) r(1) l by (intro exI [of _ w'] exI [of _ "y # as"]) (simp add: algebra_simps)
    qed
  qed
qed


section \<open>Properties: buffers\<close>

text \<open>A state with one buffer taken from a pool of 64, for closed examples.\<close>

definition demo_bufs :: bufs where
  "demo_bufs = lea.extend (demo_lea\<lparr>w_pool := (w_pool demo_lea)(1048576 \<mapsto> \<lparr>mp_start = 1048576, mp_end = 2100272,
       mp_pos = 1065048, mp_next = 0, mp_manager = 304\<rparr>)\<rparr>)
     (bufs.fields [304 \<mapsto> \<lparr>pm_cur = 1048576, pm_one_element_size = 16432, pm_element_count = 64, pm_head = 1048576,
         pm_tail = 1048576, pm_heterogeneous_next = 0\<rparr>]
       (\<lambda>_. NUL) [1048616 \<mapsto> fresh_buffer 1048616 304] Map.empty [] (\<lambda>_. []) (\<lambda>_. []))"

definition demo_sys :: "int \<times> int \<Rightarrow> sys" where
  "demo_sys r = \<lparr>sy_os = demo_os, sy_now = \<lparr>tv_sec = 0, tv_nsec = 0\<rparr>, sy_junk_buf = fresh_buffer 0 0,
     sy_junk_chain = \<lparr>ch_iov_base = 7, ch_iov_len = 7, ch_next = 0, ch_pool = 7, ch_chain_len = 7\<rparr>,
     sy_writev = \<lambda>_ _ bs. if fst r = - 1 then r else (min (fst r) (int (length (concat bs))), 0)\<rparr>"

lemmas demo_bufs_defs = demo_bufs_def demo_lea_def lea.defs bufs.defs

lemma demo_bufs_room: "j \<le> 63 \<Longrightarrow> mgr_room demo_bufs 304 16432 j" "mgr_next demo_bufs 304 = 1065048"
  by (simp_all add: demo_bufs_defs mgr_room_def mgr_next_def pool_room_def well_sized_def tail_used_def pool_at_def
      tail_next_def exI [of _ "63::nat"])

lemma new_buffer_chain_ok:
  assumes room: "mgr_room w ma 16432 k" and k: "k = max 1 ((unat sz + 16383) div 16384)" and sz: "unat sz \<le> 2 ^ 63"
  shows "\<exists>w'. lt_new_buffer_chain sy ma sz w = Some (Some (word_of_nat (mgr_next w ma), w')) \<and>
    buf_list (w_buf w') (word_of_nat (mgr_next w ma)) (slots (mgr_next w ma) 16432 k) \<and> unat sz \<le> k * 16384 \<and>
    (\<forall>x \<in> set (slots (mgr_next w ma) 16432 k). \<exists>nx. w_buf w' x = Some (fresh_buffer x ma\<lparr>bf_next := nx,
       bf_head := (if x = word_of_nat (mgr_next w ma) then 1 else 0)\<rparr>)) \<and>
    (\<forall>x. unat x < mgr_next w ma \<longrightarrow> w_buf w' x = w_buf w x)"
proof -
  obtain j where j: "k = Suc j" using k not0_implies_Suc [of k] by auto
  let ?a = "word_of_nat (mgr_next w ma) :: u64"
  define b where "b = fresh_buffer ?a ma\<lparr>bf_head := 1\<rparr>"
  obtain pm where pm: "lt_new_buffer sy ma w = Some (?a, w\<lparr>w_pool := pm, w_buf := (w_buf w)(?a \<mapsto> fresh_buffer ?a ma)\<rparr>)"
    "mgr_room (w\<lparr>w_pool := pm, w_buf := (w_buf w)(?a \<mapsto> fresh_buffer ?a ma)\<rparr>) ma 16432 j"
    "mgr_next (w\<lparr>w_pool := pm, w_buf := (w_buf w)(?a \<mapsto> fresh_buffer ?a ma)\<rparr>) ma = mgr_next w ma + 16432"
    "unat ?a = mgr_next w ma" "?a \<noteq> 0" "mgr_next w ma + Suc j * 16432 < 2 ^ 64"
    using lt_new_buffer_ok [OF room [unfolded j], of sy] unfolding Let_def by blast
  define w2 where "w2 = w\<lparr>w_pool := pm, w_buf := (w_buf w)(?a \<mapsto> b)\<rparr>"
  have r2: "mgr_room w2 ma 16432 j" "mgr_next w2 ma = mgr_next w ma + 16432"
    using pm(2,3) by (simp_all add: w2_def)
  have cap: "unat sz \<le> k * 16384" using k by (simp add: max_def split: if_splits)
  have set: "buf_set ?a (bf_head_update (\<lambda>_. 1)) (w\<lparr>w_pool := pm, w_buf := (w_buf w)(?a \<mapsto> fresh_buffer ?a ma)\<rparr>) = Some w2"
    using pm(5) by (simp add: buf_set_def buf_at_def w2_def b_def fresh_buffer_def)
  have pre: "unat sz \<le> unat (16384::u64) + j * 16384" "j = 0 \<or> unat (16384::u64) + (j - 1) * 16384 < unat sz"
    using cap k j by (auto simp: max_def gr0_conv_Suc split: if_splits)
  have b0: "bf_next b = 0" "w_buf w2 ?a = Some b" by (simp_all add: b_def fresh_buffer_def w2_def)
  obtain w' where w': "buffer_chain_loop sy ma sz 16384 ?a w2 = Some (Some w')"
    "buf_list (w_buf w') ?a (?a # slots (mgr_next w ma + 16432) 16432 j)"
    "\<exists>nx. w_buf w' ?a = Some (b\<lparr>bf_next := nx\<rparr>)"
    "\<forall>x \<in> set (slots (mgr_next w ma + 16432) 16432 j). \<exists>nx. w_buf w' x = Some (fresh_buffer x ma\<lparr>bf_next := nx\<rparr>)"
    "\<forall>x. x \<noteq> ?a \<and> unat x < mgr_next w ma + 16432 \<longrightarrow> w_buf w' x = w_buf w2 x"
    using buffer_chain_loop_ok [OF r2(1) pre sz b0(2,1) pm(5), of sy] pm(4) unfolding r2(2) by auto
  have "buffer_chain_loop sy ma sz 16384 ?a w2 = Some (Some w2)" if "\<not> 16384 < sz"
    using that by (simp add: buffer_chain_loop.simps)
  then have "lt_new_buffer_chain sy ma sz w = Some (Some (?a, w'))"
    using pm(1,5) set w'(1) by (auto simp: lt_new_buffer_chain_def)
  moreover have "w_buf w' x = w_buf w x" if "unat x < mgr_next w ma" for x
  proof -
    have "x \<noteq> ?a" using that pm(4) by auto
    then show ?thesis using w'(5) that by (simp add: w2_def)
  qed
  moreover have "\<exists>nx. w_buf w' x = Some (fresh_buffer x ma\<lparr>bf_next := nx, bf_head := (if x = ?a then 1 else 0)\<rparr>)"
    if "x \<in> set (slots (mgr_next w ma) 16432 k)" for x :: u64
  proof (cases "x = ?a")
    case True
    then show ?thesis using w'(3) by (auto simp: b_def fresh_buffer_def)
  next
    case False
    then have x: "x \<in> set (slots (mgr_next w ma + 16432) 16432 j)" using that j by simp
    then show ?thesis using w'(4) False by (auto simp: fresh_buffer_def)
  qed
  moreover have "buf_list (w_buf w') ?a (slots (mgr_next w ma) 16432 k)" using w'(2) unfolding j slots.simps .
  ultimately show ?thesis using cap by blast
qed

text \<open>
  Claim C26: \<open>lt_new_buffer_chain\<close>, while the pool has room, returns a list of empty buffers, as many as hold
  \<open>size\<close> bytes and at least one, linked in the order of their addresses, the first one marked as head; no older buffer changes.
\<close>

theorem buffer_chain_capacity:
  assumes room: "mgr_room w ma 16432 k" and k: "k = max 1 ((unat sz + 16383) div 16384)" and sz: "unat sz \<le> 2 ^ 63"
  shows "\<exists>w'. lt_new_buffer_chain sy ma sz w = Some (Some (word_of_nat (mgr_next w ma), w')) \<and>
    buf_list (w_buf w') (word_of_nat (mgr_next w ma)) (slots (mgr_next w ma) 16432 k) \<and> unat sz \<le> k * 16384 \<and>
    (\<forall>x \<in> set (slots (mgr_next w ma) 16432 k). \<exists>nx. w_buf w' x = Some (fresh_buffer x ma\<lparr>bf_next := nx,
       bf_head := (if x = word_of_nat (mgr_next w ma) then 1 else 0)\<rparr>)) \<and>
    (\<forall>x. unat x < mgr_next w ma \<longrightarrow> w_buf w' x = w_buf w x)"
  using assms by (rule new_buffer_chain_ok)

theorem buffer_chain_capacity_witness:
  "\<exists>w'. lt_new_buffer_chain (demo_sys (0, 0)) 304 40000 demo_bufs = Some (Some (1065048, w')) \<and>
    buf_list (w_buf w') 1065048 [1065048, 1081480, 1097912] \<and> 40000 \<le> (3::nat) * 16384"
proof -
  have room: "mgr_room demo_bufs 304 16432 3" by (rule demo_bufs_room) simp
  have k: "(3::nat) = max 1 ((unat (40000::u64) + 16383) div 16384)" and sz: "unat (40000::u64) \<le> 2 ^ 63" by simp_all
  have sl: "slots 1065048 16432 3 = [1065048, 1081480, 1097912]" by (simp add: numeral_3_eq_3)
  show ?thesis
    using buffer_chain_capacity [OF room k sz, of "demo_sys (0, 0)"] unfolding demo_bufs_room(2) sl
    by (elim exE conjE) (rule exI, intro conjI, simp_all)
qed

lemma lt_recv_ok:
  assumes "open_buffer w ma x b" "mgr_room w ma 16432 j" "(used x b + length (concat dss)) div 16384 \<le> j"
    and "w_in w fd = map Data dss @ rest" "\<forall>ds \<in> set dss. ds \<noteq> []" "no_data rest"
  shows "\<exists>w' as. lt_recv sy fd x w = Some (recv_code (int (length (concat dss))) rest, w') \<and>
    buf_list (w_buf w') x (x # as) \<and> concat (map (content w') (x # as)) = content w x @ concat dss \<and>
    w_in w' fd = tl rest \<and> (\<forall>a < uint x. w_mem w' a = w_mem w a)"
proof -
  obtain w' as where r: "recv_loop sy fd (w_in w fd) x 0 w = Some (recv_code (int (length (concat dss))) rest, tl rest, w')"
      "buf_list (w_buf w') x (x # as)" "concat (map (content w') (x # as)) = content w x @ concat dss"
      "\<forall>a < uint x. w_mem w' a = w_mem w a"
    using recv_loop_collects [OF assms(4,5,6) _ assms(1,2,3), of 0 sy fd] by (auto simp: received_def)
  have "content (w'\<lparr>w_in := q\<rparr>) = content w'" for q
    by (simp add: fun_eq_iff content_def split: option.split)
  with r show ?thesis
    by (intro exI [of _ "w'\<lparr>w_in := (w_in w')(fd := tl rest)\<rparr>"] exI [of _ as]) (simp add: lt_recv_def)
qed

text \<open>
  Claim C24: \<open>lt_recv\<close> reads everything the socket has to give, in pieces of any sizes, into the buffer and as many
  new ones behind it as are needed, in order and without loss, and leaves everything below the buffer alone. It returns the number of bytes when the
  socket has no more; after an error or the end of the stream it returns only that code, however much has been read.
\<close>

theorem recv_collects:
  assumes "open_buffer w ma x b" "mgr_room w ma 16432 j" "(used x b + length (concat dss)) div 16384 \<le> j"
    and "w_in w fd = map Data dss @ rest" "\<forall>ds \<in> set dss. ds \<noteq> []" "no_data rest"
  shows "\<exists>w' as. lt_recv sy fd x w = Some (recv_code (int (length (concat dss))) rest, w') \<and>
    buf_list (w_buf w') x (x # as) \<and> concat (map (content w') (x # as)) = content w x @ concat dss \<and>
    w_in w' fd = tl rest \<and> (\<forall>a < uint x. w_mem w' a = w_mem w a)"
  using assms by (rule lt_recv_ok)

theorem recv_collects_witness:
  "\<exists>w' as. lt_recv (demo_sys (0, 0)) 9 1048616 (demo_bufs\<lparr>w_in := \<lambda>_. [Data ''GET '', Data ''/'']\<rparr>) = Some (5, w') \<and>
    buf_list (w_buf w') 1048616 (1048616 # as) \<and> concat (map (content w') (1048616 # as)) = ''GET /''"
proof -
  let ?w = "demo_bufs\<lparr>w_in := \<lambda>_. [Data ''GET '', Data ''/'']\<rparr>"
  have "mgr_room ?w 304 16432 63" "mgr_next ?w 304 = 1065048"
    using demo_bufs_room(1) [of 63] demo_bufs_room(2) by (simp_all add: mgr_room_def mgr_next_def split: option.splits)
  then show ?thesis
    using recv_collects [of ?w 304 1048616 "fresh_buffer 1048616 304" 63 "[''GET '', ''/'']" 9 "[]" "demo_sys (0, 0)"]
    by (auto simp: open_buffer_def demo_bufs_defs fresh_buffer_def used_def content_def bytes_def DEFAULT_BUF_SIZE_def)
qed


section \<open>Chains\<close>

text \<open>The chains \<open>cs\<close> with their addresses, linked by \<open>next\<close> from \<open>a\<close> to \<open>e\<close>.\<close>

fun chain_path :: "(u64 \<rightharpoonup> lt_chain) \<Rightarrow> u64 \<Rightarrow> (u64 \<times> lt_chain) list \<Rightarrow> u64 \<Rightarrow> bool" where
  "chain_path m a [] e \<longleftrightarrow> a = e"
| "chain_path m a ((x, c) # cs) e \<longleftrightarrow> a = x \<and> x \<noteq> 0 \<and> m x = Some c \<and> chain_path m (ch_next c) cs e"

definition chain_iov :: "u64 \<times> lt_chain \<Rightarrow> int \<times> u64" where
  "chain_iov xc = (ch_iov_base (snd xc), ch_iov_len (snd xc))"

definition iov_bytes :: "char_mem \<Rightarrow> int \<times> u64 \<Rightarrow> string" where
  "iov_bytes mem v = bytes mem (fst v) (unat (snd v))"

definition chain_bytes :: "char_mem \<Rightarrow> (u64 \<times> lt_chain) list \<Rightarrow> string" where
  "chain_bytes mem cs = concat (map (iov_bytes mem \<circ> chain_iov) cs)"

lemma chain_path_update: "x \<notin> fst ` set cs \<Longrightarrow> chain_path (m(x := y)) a cs e = chain_path m a cs e"
  by (induction cs arbitrary: a) auto

lemma chains_vector_path:
  "chain_path (w_chain w) a cs e \<Longrightarrow> chains_vector w (length cs) a = Some (map chain_iov cs, e)"
  by (induction cs arbitrary: a) (auto simp: chain_at_def chain_iov_def)

lemma iov_len_i32: "unat l < 2147483648 \<Longrightarrow> i32 (uint (l :: u64)) = int (unat l)"
  unfolding uint_nat by (rule i32_id) linarith+

lemma chain_bytes_Cons: "chain_bytes mem ((x, c) # cs) = bytes mem (ch_iov_base c) (unat (ch_iov_len c)) @ chain_bytes mem cs"
  by (simp add: chain_bytes_def iov_bytes_def chain_iov_def)

text \<open>When all bytes are written, the loop goes over all chains and leaves none to send.\<close>

lemma chains_advance_all:
  assumes "chain_path (w_chain w) a cs 0" "distinct (map fst cs)" "\<forall>(x, c) \<in> set cs. unat (ch_iov_len c) < 2147483648"
    and "rv = int (length (chain_bytes mem cs))"
  shows "\<exists>m'. chains_advance e a rv n w = Some (Some (LOK, w\<lparr>w_chain := m'\<rparr>)) \<and>
    (\<forall>y. y \<notin> fst ` set cs \<longrightarrow> m' y = w_chain w y) \<and> (\<forall>x \<in> fst ` set cs. \<exists>c. m' x = Some c \<and> ch_iov_len c = 0)"
  using assms
proof (induction cs arbitrary: a rv n w)
  case Nil
  then show ?case by (intro exI [of _ "w_chain w"]) (simp add: chains_advance.simps)
next
  case (Cons xc cs)
  obtain x c where xc [simp]: "xc = (x, c)" by (cases xc)
  have x: "a = x" "x \<noteq> 0" "w_chain w x = Some c" "chain_path (w_chain w) (ch_next c) cs 0" "x \<notin> fst ` set cs"
    using Cons.prems(1,2) by auto
  define l where "l = i32 (uint (ch_iov_len c))"
  have l: "l = int (unat (ch_iov_len c))" "ch_iov_len c = word_of_int l"
    using Cons.prems(3) iov_len_i32 [of "ch_iov_len c"] by (simp_all add: l_def)
  define rest where "rest = int (length (chain_bytes mem cs))"
  have rv: "rv = l + rest" "0 \<le> rest" using Cons.prems(4) l(1) by (simp_all add: chain_bytes_Cons rest_def)
  define c1 where "c1 = (if rest = 0 then c\<lparr>ch_iov_base := ch_iov_base c + l, ch_iov_len := ch_iov_len c - word_of_int l\<rparr>
    else c\<lparr>ch_iov_len := ch_iov_len c - word_of_int l\<rparr>)"
  define w1 where "w1 = w\<lparr>w_chain := (w_chain w)(x \<mapsto> c1)\<rparr>"
  have zero: "ch_iov_len c - word_of_int l = 0" unfolding l(2) by simp
  have step: "chains_advance e a rv n w = chains_advance e (ch_next c) rest (n - 1) w1"
    using x rv by (subst chains_advance.simps) (simp add: chain_at_def Let_def l_def [symmetric] c1_def w1_def)
  have "\<exists>m'. chains_advance e (ch_next c) rest (n - 1) w1 = Some (Some (LOK, w1\<lparr>w_chain := m'\<rparr>)) \<and>
      (\<forall>y. y \<notin> fst ` set cs \<longrightarrow> m' y = w_chain w1 y) \<and> (\<forall>x \<in> fst ` set cs. \<exists>c. m' x = Some c \<and> ch_iov_len c = 0)"
  proof (rule Cons.IH)
    show "chain_path (w_chain w1) (ch_next c) cs 0"
      using x(4) chain_path_update [OF x(5)] by (simp add: w1_def)
  qed (use Cons.prems(2,3) rest_def in auto)
  then obtain m' where m': "chains_advance e (ch_next c) rest (n - 1) w1 = Some (Some (LOK, w1\<lparr>w_chain := m'\<rparr>))"
      "\<forall>y. y \<notin> fst ` set cs \<longrightarrow> m' y = w_chain w1 y" "\<forall>x \<in> fst ` set cs. \<exists>c. m' x = Some c \<and> ch_iov_len c = 0"
    by blast
  have "m' x = Some c1" using m'(2) x(5) by (simp add: w1_def)
  moreover have "ch_iov_len c1 = ch_iov_len c - word_of_int l" by (simp add: c1_def)
  then have "ch_iov_len c1 = 0" unfolding zero .
  ultimately show ?case
    using m' step by (intro exI [of _ m']) (simp add: w1_def)
qed

text \<open>When some are left, the code writes to the chain behind the last one.\<close>

lemma chains_advance_part:
  assumes "chain_path (w_chain w) a cs 0" "distinct (map fst cs)" "\<forall>(x, c) \<in> set cs. unat (ch_iov_len c) < 2147483648"
    and "0 \<le> rv" "rv < int (length (chain_bytes mem cs))"
  shows "chains_advance 0 a rv n w = Some None"
  using assms
proof (induction cs arbitrary: a rv n w)
  case Nil
  then show ?case by (simp add: chain_bytes_def)
next
  case (Cons xc cs)
  obtain x c where xc [simp]: "xc = (x, c)" by (cases xc)
  have x: "a = x" "x \<noteq> 0" "w_chain w x = Some c" "chain_path (w_chain w) (ch_next c) cs 0" "x \<notin> fst ` set cs"
    using Cons.prems(1,2) by auto
  define l where "l = i32 (uint (ch_iov_len c))"
  have l: "l = int (unat (ch_iov_len c))"
    using Cons.prems(3) iov_len_i32 [of "ch_iov_len c"] by (simp_all add: l_def)
  have rest: "rv < l + int (length (chain_bytes mem cs))" using Cons.prems(5) l by (simp add: chain_bytes_Cons)
  have IH: "chains_advance 0 (ch_next c) (rv - l) (n - 1) (w\<lparr>w_chain := (w_chain w)(x \<mapsto> c1)\<rparr>) = Some None" if "l \<le> rv" for c1
  proof (rule Cons.IH)
    show "chain_path (w_chain (w\<lparr>w_chain := (w_chain w)(x \<mapsto> c1)\<rparr>)) (ch_next c) cs 0"
      using x(4) chain_path_update [OF x(5)] by simp
  qed (use Cons.prems(2,3) that rest in auto)
  show ?case
    using x IH by (subst chains_advance.simps)
      (auto simp: chain_at_def Let_def l_def [symmetric] chain_set_def)
qed


section \<open>Properties: sending\<close>

text \<open>
  A chain as the program builds it: the chains \<open>cs\<close> from \<open>out\<close> to a null pointer, their number in \<open>chain_len\<close> of the
  first, with lengths an \<open>int\<close> can hold.
\<close>

definition sendable :: "'a bufs_scheme \<Rightarrow> u64 \<Rightarrow> (u64 \<times> lt_chain) list \<Rightarrow> bool" where
  "sendable w out cs \<longleftrightarrow> chain_path (w_chain w) out cs 0 \<and> distinct (map fst cs) \<and>
     (\<forall>(x, c) \<in> set cs. unat (ch_iov_len c) < 2147483648) \<and> cs \<noteq> [] \<and> ch_chain_len (snd (hd cs)) = int (length cs)"

lemma send_chains_sendable:
  assumes "sendable w out cs" and wv: "sy_writev sy (w_out w) fd (map (iov_bytes (w_mem w) \<circ> chain_iov) cs) = (rv, errno)"
    and "0 < rv"
  shows "send_chains sy fd out w = map_option (map_option (\<lambda>(rc, w2). (rc, if rc = LAGAIN then 0 else out, w2)))
    (chains_advance 0 out rv (int (length cs)) (w\<lparr>w_out := w_out w @ [(fd, take (nat rv) (chain_bytes (w_mem w) cs))]\<rparr>))"
proof -
  obtain x c cs' where cs: "cs = (x, c) # cs'" using assms(1) by (cases cs) (auto simp: sendable_def)
  have c: "chain_at w out = Some c" "ch_chain_len c = int (length cs)" "chain_path (w_chain w) out cs 0"
    using assms(1) cs by (auto simp: sendable_def chain_at_def)
  have ne: "cs \<noteq> []" using cs by simp
  have "(\<lambda>(base, len). bytes (w_mem w) base (unat len)) = iov_bytes (w_mem w)"
    by (auto simp: iov_bytes_def)
  then have "lt_writev sy w fd (map chain_iov cs) =
      (rv, errno, w\<lparr>w_out := w_out w @ [(fd, take (nat rv) (chain_bytes (w_mem w) cs))]\<rparr>)"
    using wv assms(3) by (simp add: lt_writev_def chain_bytes_def Let_def)
  then show ?thesis
    using c(1,2) chains_vector_path [OF c(3)] assms(3) ne by (simp add: send_chains_def)
qed

lemma send_chains_all:
  assumes "sendable w out cs"
    and "sy_writev sy (w_out w) fd (map (iov_bytes (w_mem w) \<circ> chain_iov) cs) = (int (length (chain_bytes (w_mem w) cs)), errno)"
    and "chain_bytes (w_mem w) cs \<noteq> []"
  shows "\<exists>m'. send_chains sy fd out w =
      Some (Some (LOK, out, w\<lparr>w_out := w_out w @ [(fd, chain_bytes (w_mem w) cs)], w_chain := m'\<rparr>)) \<and>
    (\<forall>y. y \<notin> fst ` set cs \<longrightarrow> m' y = w_chain w y) \<and> (\<forall>x \<in> fst ` set cs. \<exists>c. m' x = Some c \<and> ch_iov_len c = 0)"
proof -
  let ?w = "w\<lparr>w_out := w_out w @ [(fd, chain_bytes (w_mem w) cs)]\<rparr>"
  obtain m' where m': "chains_advance 0 out (int (length (chain_bytes (w_mem w) cs))) (int (length cs)) ?w =
        Some (Some (LOK, ?w\<lparr>w_chain := m'\<rparr>))"
      "\<forall>y. y \<notin> fst ` set cs \<longrightarrow> m' y = w_chain w y" "\<forall>x \<in> fst ` set cs. \<exists>c. m' x = Some c \<and> ch_iov_len c = 0"
    using chains_advance_all [of ?w out cs _ "w_mem w" 0 "int (length cs)"] assms(1) by (auto simp: sendable_def)
  with send_chains_sendable [OF assms(1,2)] assms(3) show ?thesis
    by (intro exI [of _ m']) simp
qed

text \<open>Two chains that send \<open>AB\<close> and \<open>C\<close>.\<close>

definition demo_chains :: "(u64 \<times> lt_chain) list" where
  "demo_chains = [(64, \<lparr>ch_iov_base = 10, ch_iov_len = 2, ch_next = 128, ch_pool = 0, ch_chain_len = 2\<rparr>),
     (128, \<lparr>ch_iov_base = 20, ch_iov_len = 1, ch_next = 0, ch_pool = 0, ch_chain_len = 0\<rparr>)]"

definition demo_send :: bufs where
  "demo_send = demo_bufs\<lparr>w_mem := (\<lambda>_. NUL)(10 := CHR ''A'', 11 := CHR ''B'', 20 := CHR ''C''), w_chain := map_of demo_chains\<rparr>"

lemma demo_send_facts:
  "sendable demo_send 64 demo_chains" "chain_bytes (w_mem demo_send) demo_chains = ''ABC''" "w_out demo_send = []"
  by (simp_all add: sendable_def demo_send_def demo_chains_def chain_bytes_def iov_bytes_def chain_iov_def bytes_def
      demo_bufs_defs upt_rec)

lemma demo_sys_writev:
  "sy_writev (demo_sys (n, 0)) out fd (map (iov_bytes mem \<circ> chain_iov) cs) = (min n (int (length (chain_bytes mem cs))), 0)" if "n \<noteq> - 1"
  using that by (simp add: demo_sys_def chain_bytes_def)

text \<open>
  Claim C25: when \<open>writev\<close> takes all bytes of the chains, \<open>send_chains\<close> returns \<open>LOK\<close>, the bytes of the chains
  have gone out on the descriptor in the order of the chains and once, no chain has anything left to send, and nothing else has changed.
\<close>

theorem send_chains_complete:
  assumes "sendable w out cs"
    and "sy_writev sy (w_out w) fd (map (iov_bytes (w_mem w) \<circ> chain_iov) cs) = (int (length (chain_bytes (w_mem w) cs)), errno)"
    and "chain_bytes (w_mem w) cs \<noteq> []"
  shows "\<exists>m'. send_chains sy fd out w =
      Some (Some (LOK, out, w\<lparr>w_out := w_out w @ [(fd, chain_bytes (w_mem w) cs)], w_chain := m'\<rparr>)) \<and>
    (\<forall>y. y \<notin> fst ` set cs \<longrightarrow> m' y = w_chain w y) \<and> (\<forall>x \<in> fst ` set cs. \<exists>c. m' x = Some c \<and> ch_iov_len c = 0)"
  using assms by (rule send_chains_all)

theorem send_chains_complete_witness:
  "\<exists>m'. send_chains (demo_sys (3, 0)) 7 64 demo_send =
      Some (Some (LOK, 64, demo_send\<lparr>w_out := [(7, ''ABC'')], w_chain := m'\<rparr>))"
  using send_chains_complete [OF demo_send_facts(1), of "demo_sys (3, 0)" 7 0] demo_send_facts(2,3)
  by (auto simp: demo_sys_writev)

text \<open>
  Claim C38: when \<open>writev\<close> takes only a part of the bytes, as it may on a non-blocking socket,
  \<open>send_chains\<close> writes the count of the remaining chains through \<open>cur_chain\<close>, which stands behind the last chain: a null pointer.
\<close>

theorem send_chains_partial_undefined:
  assumes "sendable w out cs"
    and "sy_writev sy (w_out w) fd (map (iov_bytes (w_mem w) \<circ> chain_iov) cs) = (rv, errno)"
    and "0 < rv" "rv < int (length (chain_bytes (w_mem w) cs))"
  shows "send_chains sy fd out w = Some None"
  using send_chains_sendable [OF assms(1-3)] chains_advance_part [of "w\<lparr>w_out := _\<rparr>" out cs rv "w_mem w"] assms
  by (simp add: sendable_def)

theorem send_chains_partial_undefined_witness: "send_chains (demo_sys (1, 0)) 7 64 demo_send = Some None"
  using send_chains_partial_undefined [OF demo_send_facts(1), of "demo_sys (1, 0)" 7 1 0] demo_send_facts(2)
  by (simp add: demo_sys_writev)

lemma buffers_single_ok:
  assumes b: "buf_at w a = Some b" "bf_next b = 0" and len: "bf_last b - bf_pos b = int n" "0 < n" "n < 2147483648"
    and wv: "sy_writev sy (w_out w) fd [bytes (w_mem w) (bf_pos b) n] = (rv, errno)" "0 < rv" "rv \<le> int n"
  shows "send_buffers sy fd a w =
    (if rv = int n then Some (Some (LOK, w\<lparr>w_out := w_out w @ [(fd, bytes (w_mem w) (bf_pos b) n)]\<rparr>)) else Some None)"
proof -
  let ?l = "word_of_int (bf_last b - bf_pos b) :: u64"
  have l: "unat ?l = n" "i32 (uint ?l) = int n"
    using len iov_len_i32 [of ?l] by (simp_all add: unat_of_nat64)
  have a: "a \<noteq> 0" using b(1) by (auto simp: buf_at_def)
  have count: "buffers_count w 0 a = Some (Some 1)"
    using a b by (subst buffers_count.simps) (simp add: buffers_count.simps)
  have vec: "buffers_vector w (nat 1) a = Some [(bf_pos b, ?l)]"
    using b by (simp add: numeral_nat)
  have "lt_writev sy w fd [(bf_pos b, ?l)] =
      (rv, errno, w\<lparr>w_out := w_out w @ [(fd, take (nat rv) (bytes (w_mem w) (bf_pos b) n))]\<rparr>)"
    using wv l(1) by (simp add: lt_writev_def)
  moreover have "i32 rv = rv" using wv(2,3) len(3) by (intro i32_id) auto
  moreover have "bf_pos b \<noteq> bf_last b" using len by auto
  ultimately show ?thesis
    using a b(1) count vec wv(2,3) l(2) by (auto simp: send_buffers_def)
qed

text \<open>
  \<open>send_buffers\<close> of one buffer sends the bytes between \<open>pos\<close> and \<open>last\<close> and returns \<open>LOK\<close> when \<open>writev\<close> takes
  them all; when it takes fewer, the code advances \<open>pos\<close> through a pointer it has not set.
\<close>

theorem send_buffers_single:
  assumes b: "buf_at w a = Some b" "bf_next b = 0" and len: "bf_last b - bf_pos b = int n" "0 < n" "n < 2147483648"
    and wv: "sy_writev sy (w_out w) fd [bytes (w_mem w) (bf_pos b) n] = (rv, errno)" "0 < rv" "rv \<le> int n"
  shows "send_buffers sy fd a w =
    (if rv = int n then Some (Some (LOK, w\<lparr>w_out := w_out w @ [(fd, bytes (w_mem w) (bf_pos b) n)]\<rparr>)) else Some None)"
  using assms by (rule buffers_single_ok)

theorem send_buffers_single_witness:
  "send_buffers (demo_sys (3, 0)) 7 1048616 (demo_bufs\<lparr>w_mem := mem_of 1048616 ''abc'',
      w_buf := [1048616 \<mapsto> fresh_buffer 1048616 304\<lparr>bf_last := 1048619\<rparr>]\<rparr>) =
    Some (Some (LOK, demo_bufs\<lparr>w_mem := mem_of 1048616 ''abc'', w_buf := [1048616 \<mapsto> fresh_buffer 1048616 304\<lparr>bf_last := 1048619\<rparr>],
      w_out := [(7, ''abc'')]\<rparr>))"
proof -
  let ?w = "demo_bufs\<lparr>w_mem := mem_of 1048616 ''abc'', w_buf := [1048616 \<mapsto> fresh_buffer 1048616 304\<lparr>bf_last := 1048619\<rparr>]\<rparr>"
  have bs: "bytes (mem_of 1048616 ''abc'') 1048616 3 = ''abc''" by (simp add: bytes_def mem_of_def upt_rec)
  have out: "w_out demo_bufs = []" by (simp add: demo_bufs_defs)
  show ?thesis
    using send_buffers_single [of ?w 1048616 "fresh_buffer 1048616 304\<lparr>bf_last := 1048619\<rparr>" 3 "demo_sys (3, 0)" 7 3 0]
    by (simp add: buf_at_def fresh_buffer_def bs out demo_sys_def [of "(3, 0)"])
qed

end
