(* ===== verification/Http_Request.thy ===== *)
theory Http_Request
  imports Buffer_Ops Http_Host Parse_Request_Line Parse_Status_Line
begin

text \<open>
  Requests in http.c: creating one for a connection, what follows a parsed request line, and the loop that
  parses header lines into a list of header elements. A response is parsed into the same structure.

  The state extends the one of the buffers by the connections, requests and header elements in use. A
  pool manager that is a member of another structure lies at its offset there (LP64).
\<close>

section \<open>Data\<close>

record http_header_element =
  he_hash :: int
  he_length :: int
  he_key :: lt_string
  he_value :: lt_string
  he_lowcase_key :: lt_string
  he_next :: u64

text \<open>\<open>request_t\<close>: the fields the parsers use, and the pointers.\<close>

record http_request =
  hr_req :: request
  hr_header_in :: u64
  hr_element_head :: u64
  hr_element_tail :: u64
  hr_conn :: u64
  hr_out_chain :: u64
  hr_next :: u64

text \<open>\<open>connection_t\<close>; the upstream address is the family, the port and the text given to \<open>inet_pton\<close>.\<close>

record connection =
  cn_fd :: int
  cn_peer_addr_in :: "int \<times> int \<times> string"
  cn_peer_addr_c :: string
  cn_ev :: u64
  cn_request_free_head :: u64
  cn_request_free_tail :: u64
  cn_buf :: u64
  cn_buf_pool :: u64
  cn_buf_pool_manager :: u64
  cn_status :: int
  cn_pair :: u64
  cn_timeout :: int
  cn_close :: int

text \<open>The state: \<open>w_http\<close> is the address of the \<open>http_t\<close>, followed by the members of it that are used.\<close>

record web = bufs +
  w_conn :: "u64 \<rightharpoonup> connection"
  w_req :: "u64 \<rightharpoonup> http_request"
  w_elem :: "u64 \<rightharpoonup> http_header_element"
  w_http :: u64
  w_listen_fd :: int
  w_listen_ev :: u64
  w_HostHash :: "32 word"

text \<open>
  The outside, with what fresh memory holds, the system calls of the proxy, and the constant \<open>SOMAXCONN\<close>: \<open>socket\<close> for the
  connection at an address, \<open>connect\<close> of a descriptor with its error number, and \<open>getsockopt\<close> with the error it reads.
\<close>

record net =
  nt_sys :: sys
  nt_junk_conn :: connection
  nt_junk_req :: http_request
  nt_junk_elem :: http_header_element
  nt_socket :: "u64 \<Rightarrow> int"
  nt_connect :: "int \<Rightarrow> int \<times> int"
  nt_getsockopt :: "int \<Rightarrow> int \<times> int"
  nt_somaxconn :: nat

definition sizeof_request :: u64 where "sizeof_request = 552"
definition sizeof_element :: u64 where "sizeof_element = 88"
definition DEFAULT_HEADER_ELEMENT_COUNT :: u64 where "DEFAULT_HEADER_ELEMENT_COUNT = 16"

definition request_pool :: "u64 \<Rightarrow> u64" where "request_pool conn = conn + 152"
definition header_pool :: "u64 \<Rightarrow> u64" where "header_pool req = req + 432"

definition conn_at :: "'a web_scheme \<Rightarrow> u64 \<Rightarrow> connection option" where
  "conn_at w a = (if a = 0 then None else w_conn w a)"

definition conn_set :: "u64 \<Rightarrow> (connection \<Rightarrow> connection) \<Rightarrow> 'a web_scheme \<Rightarrow> 'a web_scheme option" where
  "conn_set a f w = map_option (\<lambda>c. w\<lparr>w_conn := (w_conn w)(a \<mapsto> f c)\<rparr>) (conn_at w a)"

definition req_at :: "'a web_scheme \<Rightarrow> u64 \<Rightarrow> http_request option" where
  "req_at w a = (if a = 0 then None else w_req w a)"

definition req_set :: "u64 \<Rightarrow> (http_request \<Rightarrow> http_request) \<Rightarrow> 'a web_scheme \<Rightarrow> 'a web_scheme option" where
  "req_set a f w = map_option (\<lambda>r. w\<lparr>w_req := (w_req w)(a \<mapsto> f r)\<rparr>) (req_at w a)"

definition elem_at :: "'a web_scheme \<Rightarrow> u64 \<Rightarrow> http_header_element option" where
  "elem_at w a = (if a = 0 then None else w_elem w a)"

definition elem_set ::
  "u64 \<Rightarrow> (http_header_element \<Rightarrow> http_header_element) \<Rightarrow> 'a web_scheme \<Rightarrow> 'a web_scheme option" where
  "elem_set a f w = map_option (\<lambda>e. w\<lparr>w_elem := (w_elem w)(a \<mapsto> f e)\<rparr>) (elem_at w a)"

definition req_alloc :: "net \<Rightarrow> u64 \<Rightarrow> 'a web_scheme \<Rightarrow> (u64 \<times> 'a web_scheme) option" where
  "req_alloc nt ma w = do {
     (a, inside, w1) \<leftarrow> mgr_alloc (nt_sys nt) ma w;
     Some (a, if inside then w1\<lparr>w_req := (w_req w1)(a \<mapsto> nt_junk_req nt)\<rparr> else w1)
   }"

definition elem_alloc :: "net \<Rightarrow> u64 \<Rightarrow> 'a web_scheme \<Rightarrow> (u64 \<times> 'a web_scheme) option" where
  "elem_alloc nt ma w = do {
     (a, inside, w1) \<leftarrow> mgr_alloc (nt_sys nt) ma w;
     Some (a, if inside then w1\<lparr>w_elem := (w_elem w1)(a \<mapsto> nt_junk_elem nt)\<rparr> else w1)
   }"

section \<open>Requests\<close>

definition http_create_request :: "net \<Rightarrow> u64 \<Rightarrow> 'a web_scheme \<Rightarrow> (u64 \<times> 'a web_scheme) option" where
  "http_create_request nt conn w = do {
     c \<leftarrow> conn_at w conn;
     (req, w1) \<leftarrow>
       (if cn_request_free_head c \<noteq> 0 then do {
          r \<leftarrow> req_at w (cn_request_free_head c);
          w' \<leftarrow> conn_set conn (cn_request_free_head_update (\<lambda>_. hr_next r)) w;
          Some (cn_request_free_head c, w')
        } else req_alloc nt (request_pool conn) w);
     w2 \<leftarrow> req_set req (\<lambda>r. r\<lparr>hr_conn := conn, hr_header_in := cn_buf c, hr_req := (hr_req r)\<lparr>rq_state := 0\<rparr>\<rparr>) w1;
     w3 \<leftarrow> mgr_new (nt_sys nt) (header_pool req) sizeof_element DEFAULT_HEADER_ELEMENT_COUNT w2;
     Some (req, w3)
   }"

text \<open>
  \<open>http_request_line_parsed\<close> on the fields of the request, \<open>pos\<close> being the position of the buffer. Differences of pointers are
  kept in an \<open>int\<close>.
\<close>

definition http_request_line_parsed :: "request \<Rightarrow> int \<Rightarrow> request" where
  "http_request_line_parsed r pos =
     (let r1 = r\<lparr>rq_request_line := (rq_request_line r)\<lparr>str_length := i32 (rq_request_end r - rq_request_start r),
                    str_data := rq_request_start r\<rparr>,
                 rq_request_length := i32 (pos - rq_request_start r),
                 rq_method_name := (rq_method_name r)\<lparr>str_length := i32 (rq_method_end r - rq_request_start r + 1),
                    str_data := rq_request_start r\<rparr>,
                 rq_http_protocol := (rq_http_protocol r)\<lparr>str_length :=
                    i32 (rq_request_end r - str_data (rq_http_protocol r))\<rparr>,
                 rq_uri := (rq_uri r)\<lparr>str_length := i32 (rq_uri_end r - rq_uri_start r)\<rparr>\<rparr>;
          r2 = (if rq_complex_uri r1 \<noteq> 0 \<or> rq_quoted_uri r1 \<noteq> 0 then r1
                else r1\<lparr>rq_uri := (rq_uri r1)\<lparr>str_data := rq_uri_start r1\<rparr>\<rparr>)
      in r2\<lparr>rq_unparsed_uri := (rq_unparsed_uri r2)\<lparr>str_length := i32 (rq_uri_end r2 - rq_uri_start r2),
                str_data := rq_uri_start r2\<rparr>,
            rq_valid_unparsed_uri := (if rq_space_in_uri r2 \<noteq> 0 then 0 else 1)\<rparr>)"

text \<open>\<open>http_process_element\<close>: \<open>element->hash == HostHash\<close> compares an \<open>int\<close> with an \<open>unsigned\<close>. \<open>http_find_host\<close> is \<open>LOK\<close>.\<close>

definition http_process_element :: "u64 \<Rightarrow> u64 \<Rightarrow> 'a web_scheme \<Rightarrow> (int \<times> 'a web_scheme) option" where
  "http_process_element req element w = do {
     r \<leftarrow> req_at w req;
     w1 \<leftarrow> elem_set element (he_length_update (\<lambda>_. rq_header_length (hr_req r))) w;
     e \<leftarrow> elem_at w1 element;
     if (word_of_int (he_hash e) :: 32 word) = w_HostHash w1 then do {
       let (_, value, mem) = http_process_host (w_mem w1) (he_value e);
       w2 \<leftarrow> elem_set element (he_value_update (\<lambda>_. value)) (w1\<lparr>w_mem := mem\<rparr>);
       Some (LOK, w2)
     } else Some (LOK, w1)
   }"

definition lt_string_assign_new :: "lt_string \<Rightarrow> int \<Rightarrow> int \<Rightarrow> lt_string" where
  "lt_string_assign_new p len data = p\<lparr>str_data := data, str_length := len\<rparr>"

text \<open>
  A header line has been parsed: an element is taken from the pool, linked behind the previous one, filled in and processed. The
  first element's \<open>next\<close> stays as it was in memory.
\<close>

definition add_header_element :: "net \<Rightarrow> u64 \<Rightarrow> u64 \<Rightarrow> 'a web_scheme \<Rightarrow> (u64 \<times> 'a web_scheme) option" where
  "add_header_element nt req prev w = do {
     (el, w1) \<leftarrow> elem_alloc nt (header_pool req) w;
     r \<leftarrow> req_at w1 req;
     w2 \<leftarrow>
       (if hr_element_head r = 0
        then req_set req (\<lambda>r. r\<lparr>hr_element_head := el, hr_element_tail := el\<rparr>) w1
        else do {
          w' \<leftarrow> elem_set prev (he_next_update (\<lambda>_. el)) w1;
          w'' \<leftarrow> req_set req (\<lambda>r. r\<lparr>hr_element_tail := el\<rparr>) w';
          elem_set el (he_next_update (\<lambda>_. 0)) w''
        });
     let q = hr_req r;
     w3 \<leftarrow> elem_set el (\<lambda>e. e\<lparr>he_hash := rq_header_hash q,
              he_key := lt_string_assign_new (he_key e) (i32 (rq_header_name_end q - rq_header_name_start q))
                          (rq_header_name_start q),
              he_value := lt_string_assign_new (he_value e) (i32 (rq_header_end q - rq_header_start q))
                          (rq_header_start q)\<rparr>) w2;
     e \<leftarrow> elem_at w3 el;
     let (low, mem) = lowcase_key_copy_from_origin (w_mem w3) (he_lowcase_key e) (he_key e);
     w4 \<leftarrow> elem_set el (he_lowcase_key_update (\<lambda>_. low)) (w3\<lparr>w_mem := mem\<rparr>);
     (_, w5) \<leftarrow> http_process_element req el w4;
     Some (el, w5)
   }"

text \<open>One round of the loop in \<open>http_process_request_headers\<close>: the code of the parser, \<open>prev_header_element\<close> and the state.\<close>

definition headers_round :: "net \<Rightarrow> u64 \<Rightarrow> u64 \<Rightarrow> 'a web_scheme \<Rightarrow> (int \<times> u64 \<times> 'a web_scheme) option" where
  "headers_round nt req prev w = do {
     r \<leftarrow> req_at w req;
     b \<leftarrow> buf_at w (hr_header_in r);
     (rc, q, cur) \<leftarrow> ngx_http_parse_header_line (w_mem w) (hr_req r) \<lparr>b_pos = bf_pos b, b_last = bf_last b\<rparr> 1;
     let w1 = w\<lparr>w_req := (w_req w)(req \<mapsto> r\<lparr>hr_req := q\<rparr>), w_buf := (w_buf w)(hr_header_in r \<mapsto> b\<lparr>bf_pos := b_pos cur\<rparr>)\<rparr>;
     if rc = LOK then do {
       w2 \<leftarrow> req_set req (\<lambda>r. r\<lparr>hr_req := (hr_req r)\<lparr>rq_request_length :=
                i32 (rq_request_length q + (b_pos cur - rq_header_name_start q))\<rparr>\<rparr>) w1;
       if rq_invalid_header q \<noteq> 0 then Some (rc, prev, w2)
       else do {
         (el, w3) \<leftarrow> add_header_element nt req prev w2;
         Some (rc, el, w3)
       }
     } else Some (rc, prev, w1)
   }"

text \<open>
  The loop ends only when the empty line has been parsed: \<^const>\<open>None\<close> is a loop that does not return, \<open>Some None\<close> undefined behaviour.
\<close>

partial_function (option) headers_loop :: "net \<Rightarrow> u64 \<Rightarrow> u64 \<Rightarrow> 'a web_scheme \<Rightarrow> (int \<times> 'a web_scheme) option option" where
  "headers_loop nt req prev w =
     (case headers_round nt req prev w of
        None \<Rightarrow> Some None
      | Some (rc, prev', w') \<Rightarrow>
          if rc = NGX_HTTP_PARSE_HEADER_DONE then Some (Some (LOK, w')) else headers_loop nt req prev' w')"

definition http_process_request_headers ::
  "net \<Rightarrow> u64 \<Rightarrow> 'a web_scheme \<Rightarrow> (int \<times> 'a web_scheme) option option" where
  "http_process_request_headers nt req w =
     (case req_set req (\<lambda>r. r\<lparr>hr_element_head := 0, hr_element_tail := 0\<rparr>) w of
        None \<Rightarrow> Some None
      | Some w1 \<Rightarrow> headers_loop nt req 0 w1)"

text \<open>\<open>http_finish_request\<close>: the request goes to the connection's list of free requests.\<close>

definition http_finish_request :: "u64 \<Rightarrow> u64 \<Rightarrow> 'a web_scheme \<Rightarrow> 'a web_scheme option" where
  "http_finish_request conn req w = do {
     mg \<leftarrow> w_mgr w (header_pool req);
     pm \<leftarrow> lt_destroy_memory_pool mg (w_pool w);
     w1 \<leftarrow> req_set req (hr_next_update (\<lambda>_. 0)) (w\<lparr>w_pool := pm\<rparr>);
     c \<leftarrow> conn_at w1 conn;
     if cn_request_free_tail c \<noteq> 0 then do {
       w2 \<leftarrow> req_set (cn_request_free_tail c) (hr_next_update (\<lambda>_. req)) w1;
       conn_set conn (cn_request_free_tail_update (\<lambda>_. req)) w2
     } else conn_set conn (\<lambda>c. c\<lparr>cn_request_free_tail := req, cn_request_free_head := req\<rparr>) w1
   }"

section \<open>Header fields\<close>

text \<open>A field as clients write it: name, colon, one space, value, line end.\<close>

type_synonym field = "string \<times> string"

definition field_line :: "field \<Rightarrow> string" where
  "field_line f = fst f @ '': '' @ snd f @ [CR, LF]"

definition header_text :: "field list \<Rightarrow> string" where
  "header_text fs = concat (map field_line fs)"

definition lower_field :: "field \<Rightarrow> field" where
  "lower_field f = (map tolower (fst f), snd f)"

definition good_field :: "field \<Rightarrow> bool" where
  "good_field f \<longleftrightarrow> fst f \<noteq> [] \<and> length (fst f) < 32 \<and> (\<forall>c \<in> set (fst f). lowcase c \<noteq> NUL) \<and>
     CR \<notin> set (snd f) \<and> LF \<notin> set (snd f) \<and> NUL \<notin> set (snd f) \<and> length (snd f) < 1000000000 \<and>
     (snd f = [] \<or> hd (snd f) \<noteq> CHR '' '' \<and> List.last (snd f) \<noteq> CHR '' '')"

definition field_hash :: "field \<Rightarrow> int" where
  "field_hash f = foldl ngx_hash 0 (map lowcase (fst f))"

text \<open>Parsing a header leaves the request line and the state of the request alone.\<close>

definition same_line :: "request \<Rightarrow> request \<Rightarrow> bool" where
  "same_line q q' \<longleftrightarrow> request_line.truncate q' = request_line.truncate q \<and> rq_request_line q' = rq_request_line q \<and>
     length (rq_lowcase_header q') = length (rq_lowcase_header q)"

lemma same_line_refl [simp]: "same_line q q"
  by (simp add: same_line_def)

lemma same_line_trans: "same_line q q' \<Longrightarrow> same_line q' q'' \<Longrightarrow> same_line q q''"
  by (simp add: same_line_def)

lemma same_line_state: "same_line q q' \<Longrightarrow> rq_state q' = rq_state q"
  by (auto simp: same_line_def request_line.defs)

text \<open>The element of a field whose line starts at \<open>p\<close>.\<close>

definition element_of :: "field \<Rightarrow> int \<Rightarrow> http_header_element \<Rightarrow> bool" where
  "element_of f p e \<longleftrightarrow> str_data (he_key e) = p \<and> str_length (he_key e) = int (length (fst f)) \<and>
     str_data (he_value e) = p + int (length (fst f)) + 2 \<and> str_length (he_value e) = int (length (snd f))"

text \<open>The memory with the \<open>n\<close> bytes from \<open>p\<close> in lower case.\<close>

definition lower_mem :: "char_mem \<Rightarrow> int \<Rightarrow> nat \<Rightarrow> char_mem" where
  "lower_mem mem p n = (\<lambda>a. if p \<le> a \<and> a < p + int n then tolower (mem a) else mem a)"

lemma elem_alloc_ok:
  assumes "mgr_room w ma 88 (Suc j)"
  shows "\<exists>pm. elem_alloc nt ma w = Some (word_of_nat (mgr_next w ma),
      w\<lparr>w_pool := pm, w_elem := (w_elem w)(word_of_nat (mgr_next w ma) \<mapsto> nt_junk_elem nt)\<rparr>) \<and>
    mgr_room (w\<lparr>w_pool := pm\<rparr>) ma 88 j \<and> mgr_next (w\<lparr>w_pool := pm\<rparr>) ma = mgr_next w ma + 88 \<and>
    unat (word_of_nat (mgr_next w ma) :: u64) = mgr_next w ma \<and> (word_of_nat (mgr_next w ma) :: u64) \<noteq> 0 \<and>
    pool_kept (mgr_tail w ma) (w_pool w) pm"
proof -
  let ?a = "word_of_nat (mgr_next w ma) :: u64"
  obtain pm where pm: "mgr_alloc (nt_sys nt) ma w = Some (?a, True, w\<lparr>w_pool := pm\<rparr>)"
      "mgr_room (w\<lparr>w_pool := pm\<rparr>) ma 88 j" "mgr_next (w\<lparr>w_pool := pm\<rparr>) ma = mgr_next w ma + 88"
      "40 \<le> mgr_next w ma" "mgr_next w ma + Suc j * 88 < 2 ^ 64" "pool_kept (mgr_tail w ma) (w_pool w) pm"
    using mgr_alloc_ok [OF assms] by blast
  have a: "unat ?a = mgr_next w ma" using pm(5) by (intro unat_of_nat64) simp
  then have "?a \<noteq> 0" using pm(4) by (metis not_numeral_le_zero unat_0)
  with pm a show ?thesis by (intro exI [of _ pm]) (simp add: elem_alloc_def)
qed

lemma mgr_frame_web [simp]:
  "mgr_room (w\<lparr>w_req := f\<rparr>) = mgr_room w" "mgr_next (w\<lparr>w_req := f\<rparr>) = mgr_next w" "mgr_tail (w\<lparr>w_req := f\<rparr>) = mgr_tail w"
  "mgr_room (w\<lparr>w_elem := g\<rparr>) = mgr_room w" "mgr_next (w\<lparr>w_elem := g\<rparr>) = mgr_next w" "mgr_tail (w\<lparr>w_elem := g\<rparr>) = mgr_tail w"
  "mgr_room (w\<lparr>w_conn := h\<rparr>) = mgr_room w" "mgr_next (w\<lparr>w_conn := h\<rparr>) = mgr_next w" "mgr_tail (w\<lparr>w_conn := h\<rparr>) = mgr_tail w"
  by (simp_all add: fun_eq_iff mgr_room_def mgr_next_def mgr_tail_def split: option.split)

lemma mgr_tail_frame [simp]:
  "mgr_tail (w\<lparr>w_buf := f\<rparr>) = mgr_tail w" "mgr_tail (w\<lparr>w_chain := c\<rparr>) = mgr_tail w" "mgr_tail (w\<lparr>w_mem := m\<rparr>) = mgr_tail w"
  "mgr_tail (w\<lparr>w_out := out\<rparr>) = mgr_tail w" "mgr_tail (w\<lparr>w_pool := pm\<rparr>) = mgr_tail w"
  by (simp_all add: fun_eq_iff mgr_tail_def split: option.split)

lemma add_header_element_ok:
  assumes room: "mgr_room w (header_pool req) 88 (Suc j)" and r: "req_at w req = Some r"
    and prev: "hr_element_head r = 0 \<or> prev \<noteq> word_of_nat (mgr_next w (header_pool req)) \<and> elem_at w prev = Some ep"
    and q: "rq_header_name_end (hr_req r) - rq_header_name_start (hr_req r) = int n" "n < 32"
      "rq_header_end (hr_req r) - rq_header_start (hr_req r) = int m" "m < 1000000000"
    and hash: "(word_of_int (rq_header_hash (hr_req r)) :: 32 word) \<noteq> w_HostHash w"
    and el: "el = word_of_nat (mgr_next w (header_pool req))"
  shows "\<exists>pm e. add_header_element nt req prev w = Some (el, w\<lparr>w_pool := pm,
      w_mem := lower_mem (w_mem w) (rq_header_name_start (hr_req r)) n,
      w_req := (w_req w)(req \<mapsto> r\<lparr>hr_element_head := (if hr_element_head r = 0 then el else hr_element_head r), hr_element_tail := el\<rparr>),
      w_elem := (if hr_element_head r = 0 then w_elem w else (w_elem w)(prev \<mapsto> ep\<lparr>he_next := el\<rparr>))(el \<mapsto> e)\<rparr>) \<and>
    str_data (he_key e) = rq_header_name_start (hr_req r) \<and> str_length (he_key e) = int n \<and>
    str_data (he_value e) = rq_header_start (hr_req r) \<and> str_length (he_value e) = int m \<and>
    mgr_room (w\<lparr>w_pool := pm\<rparr>) (header_pool req) 88 j \<and>
    mgr_next (w\<lparr>w_pool := pm\<rparr>) (header_pool req) = mgr_next w (header_pool req) + 88 \<and>
    pool_kept (mgr_tail w (header_pool req)) (w_pool w) pm"
proof -
  obtain pm where pm: "elem_alloc nt (header_pool req) w = Some (el, w\<lparr>w_pool := pm, w_elem := (w_elem w)(el \<mapsto> nt_junk_elem nt)\<rparr>)"
      "mgr_room (w\<lparr>w_pool := pm\<rparr>) (header_pool req) 88 j"
      "mgr_next (w\<lparr>w_pool := pm\<rparr>) (header_pool req) = mgr_next w (header_pool req) + 88" "el \<noteq> 0"
      "pool_kept (mgr_tail w (header_pool req)) (w_pool w) pm"
    using elem_alloc_ok [OF room, of nt] unfolding el by blast
  have req: "req \<noteq> 0" "w_req w req = Some r" using r by (auto simp: req_at_def split: if_splits)
  have i: "i32 (int n) = int n" "i32 (int m) = int m" using q by (simp_all add: i32_id)
  have low: "low_loop mem p p 0 n = lower_mem mem p n" for mem p
    by (simp add: low_loop_bytes lower_mem_def)
  let ?e = "\<lambda>e. e\<lparr>he_hash := rq_header_hash (hr_req r),
      he_key := (he_key e)\<lparr>str_data := rq_header_name_start (hr_req r), str_length := int n\<rparr>,
      he_value := (he_value e)\<lparr>str_data := rq_header_start (hr_req r), str_length := int m\<rparr>,
      he_lowcase_key := (he_lowcase_key e)\<lparr>str_data := rq_header_name_start (hr_req r), str_length := int n\<rparr>,
      he_length := rq_header_length (hr_req r)\<rparr>"
  have twice: "(w_elem w)(el \<mapsto> x, prev \<mapsto> y, el \<mapsto> z) = (w_elem w)(prev \<mapsto> y, el \<mapsto> z)" for x y z
    by auto
  note defs = add_header_element_def http_process_element_def req_at_def req_set_def elem_at_def elem_set_def
    lt_string_assign_new_def lowcase_key_copy_from_origin_def low Let_def
  show ?thesis
  proof (cases "hr_element_head r = 0")
    case True
    then show ?thesis
      using pm req hash q i by (intro exI [of _ pm] exI [of _ "?e (nt_junk_elem nt)"]) (simp add: defs)
  next
    case False
    then have "prev \<noteq> el" "prev \<noteq> 0" "w_elem w prev = Some ep"
      using prev by (auto simp: el elem_at_def split: if_splits)
    then show ?thesis
      using pm req hash q i False
      by (intro exI [of _ pm] exI [of _ "?e (nt_junk_elem nt\<lparr>he_next := 0\<rparr>)"]) (simp add: defs twice)
  qed
qed


lemma good_field_length: "good_field f \<Longrightarrow> length (field_line f) = length (fst f) + length (snd f) + 4"
  by (simp add: field_line_def)

text \<open>The state after the line of one field: the new element, its link, and the cursor behind the line.\<close>

definition after_field ::
  "net \<Rightarrow> u64 \<Rightarrow> u64 \<Rightarrow> http_header_element \<Rightarrow> field \<Rightarrow> http_request \<Rightarrow> lt_buffer \<Rightarrow> pool_mem \<Rightarrow> http_header_element \<Rightarrow> request \<Rightarrow> u64 \<Rightarrow>
   'a web_scheme \<Rightarrow> 'a web_scheme" where
  "after_field nt req prev ep f r b pm e q el w = w\<lparr>w_pool := pm,
     w_mem := lower_mem (w_mem w) (bf_pos b) (length (fst f)),
     w_buf := (w_buf w)(hr_header_in r \<mapsto> b\<lparr>bf_pos := bf_pos b + int (length (field_line f))\<rparr>),
     w_req := (w_req w)(req \<mapsto> r\<lparr>hr_req := q, hr_element_head := (if hr_element_head r = 0 then el else hr_element_head r),
       hr_element_tail := el\<rparr>),
     w_elem := (if hr_element_head r = 0 then w_elem w else (w_elem w)(prev \<mapsto> ep\<lparr>he_next := el\<rparr>))(el \<mapsto> e)\<rparr>"

lemma headers_round_field:
  assumes f: "good_field f" and r: "req_at w req = Some r" and b: "buf_at w (hr_header_in r) = Some b"
    and line: "stored (w_mem w) (bf_pos b) (field_line f)" "bf_pos b + int (length (field_line f)) \<le> bf_last b"
    and fresh: "rq_state (hr_req r) = 0" "length (rq_lowcase_header (hr_req r)) = 32"
    and room: "mgr_room w (header_pool req) 88 (Suc j)"
    and prev: "hr_element_head r = 0 \<or> prev \<noteq> word_of_nat (mgr_next w (header_pool req)) \<and> elem_at w prev = Some ep"
    and hash: "(word_of_int (field_hash f) :: 32 word) \<noteq> w_HostHash w"
    and el: "el = word_of_nat (mgr_next w (header_pool req))"
  shows "\<exists>pm e q. headers_round nt req prev w = Some (LOK, el, after_field nt req prev ep f r b pm e q el w) \<and>
    element_of f (bf_pos b) e \<and> same_line (hr_req r) q \<and>
    mgr_room (w\<lparr>w_pool := pm\<rparr>) (header_pool req) 88 j \<and>
    mgr_next (w\<lparr>w_pool := pm\<rparr>) (header_pool req) = mgr_next w (header_pool req) + 88 \<and>
    pool_kept (mgr_tail w (header_pool req)) (w_pool w) pm"
proof -
  obtain name v where nv: "f = (name, v)" by (cases f)
  let ?p = "bf_pos b" and ?b = "\<lparr>b_pos = bf_pos b, b_last = bf_last b\<rparr>"
  define q1 where "q1 = (hr_req r)\<lparr>rq_header_name_start := ?p, rq_header_name_end := ?p + int (length name),
       rq_header_start := ?p + int (length name + 1 + 1),
       rq_header_end := ?p + int (length name + 1 + 1 + length v),
       rq_invalid_header := 0,
       rq_lowcase_header := map lowcase name @ drop (length name) (rq_lowcase_header (hr_req r)),
       rq_lowcase_index := int (length name),
       rq_header_hash := foldl ngx_hash 0 (map lowcase name),
       rq_header_length := int (length name + 1 + 1 + length v) + 2\<rparr>"
  have pos: "?p + int (length name + 1 + length v + 0) + 3 = ?p + int (length (field_line f))"
    by (simp add: field_line_def nv)
  have parse: "ngx_http_parse_header_line (w_mem w) (hr_req r) ?b 1 =
      Some (LOK, q1, \<lparr>b_pos = ?p + int (length (field_line f)), b_last = bf_last b\<rparr>)"
    using header_field_ok [of "w_mem w" ?b name 1 v 0 "hr_req r" 1] f line fresh pos
    by (auto simp: q1_def nv good_field_def field_line_def algebra_simps)
  define q2 where "q2 = q1\<lparr>rq_request_length := i32 (rq_request_length q1 + (?p + int (length (field_line f)) - rq_header_name_start q1))\<rparr>"
  define r2 where "r2 = r\<lparr>hr_req := q2\<rparr>"
  define w2 where "w2 = w\<lparr>w_buf := (w_buf w)(hr_header_in r \<mapsto> b\<lparr>bf_pos := ?p + int (length (field_line f))\<rparr>),
      w_req := (w_req w)(req \<mapsto> r2)\<rparr>"
  have at: "req \<noteq> 0" "w_req w req = Some r" using r by (auto simp: req_at_def split: if_splits)
  have same: "same_line (hr_req r) q2"
    using f fresh(2) by (simp add: same_line_def q2_def q1_def request_line.defs nv good_field_def)
  have h2: "rq_header_name_end (hr_req r2) - rq_header_name_start (hr_req r2) = int (length name)"
    "rq_header_end (hr_req r2) - rq_header_start (hr_req r2) = int (length v)"
    "rq_header_name_start (hr_req r2) = ?p" "rq_header_start (hr_req r2) = ?p + int (length name) + 2"
    "(word_of_int (rq_header_hash (hr_req r2)) :: 32 word) \<noteq> w_HostHash w2" "length name < 32" "length v < 1000000000"
    using hash f by (simp_all add: r2_def q2_def q1_def w2_def field_hash_def nv good_field_def)
  have r2: "req_at w2 req = Some r2" using at by (simp add: w2_def req_at_def)
  have room2: "mgr_room w2 (header_pool req) 88 (Suc j)" and el2: "el = word_of_nat (mgr_next w2 (header_pool req))"
    using room el by (simp_all add: w2_def)
  have prev2: "hr_element_head r2 = 0 \<or> prev \<noteq> word_of_nat (mgr_next w2 (header_pool req)) \<and> elem_at w2 prev = Some ep"
    using prev by (auto simp: r2_def w2_def elem_at_def)
  obtain pm e where add: "add_header_element nt req prev w2 = Some (el, w2\<lparr>w_pool := pm,
      w_mem := lower_mem (w_mem w2) ?p (length name),
      w_req := (w_req w2)(req \<mapsto> r2\<lparr>hr_element_head := (if hr_element_head r2 = 0 then el else hr_element_head r2), hr_element_tail := el\<rparr>),
      w_elem := (if hr_element_head r2 = 0 then w_elem w2 else (w_elem w2)(prev \<mapsto> ep\<lparr>he_next := el\<rparr>))(el \<mapsto> e)\<rparr>)"
    "str_data (he_key e) = ?p" "str_length (he_key e) = int (length name)"
    "str_data (he_value e) = ?p + int (length name) + 2" "str_length (he_value e) = int (length v)"
    "mgr_room (w2\<lparr>w_pool := pm\<rparr>) (header_pool req) 88 j"
    "mgr_next (w2\<lparr>w_pool := pm\<rparr>) (header_pool req) = mgr_next w2 (header_pool req) + 88"
    "pool_kept (mgr_tail w2 (header_pool req)) (w_pool w2) pm"
    using add_header_element_ok [OF room2 r2 prev2 h2(1,6,2,7,5) el2, of nt] unfolding h2(3,4) by blast
  have inv: "rq_invalid_header q1 = 0" by (simp add: q1_def)
  have "headers_round nt req prev w = do { (el, w3) \<leftarrow> add_header_element nt req prev w2; Some (LOK, el, w3) }"
    using r b parse at inv by (simp add: headers_round_def req_set_def req_at_def w2_def r2_def q2_def Let_def)
  also have "\<dots> = Some (LOK, el, after_field nt req prev ep f r b pm e q2 el w)"
    unfolding add(1) by (cases "hr_element_head r = 0") (simp_all add: w2_def r2_def after_field_def nv)
  finally have "headers_round nt req prev w = Some (LOK, el, after_field nt req prev ep f r b pm e q2 el w)" .
  moreover have "mgr_room (w\<lparr>w_pool := pm\<rparr>) (header_pool req) 88 j"
    "mgr_next (w\<lparr>w_pool := pm\<rparr>) (header_pool req) = mgr_next w (header_pool req) + 88"
    "pool_kept (mgr_tail w (header_pool req)) (w_pool w) pm"
    using add(6,7,8) by (simp_all add: w2_def mgr_room_def mgr_next_def split: option.splits)
  moreover have "element_of f ?p e" using add(2-5) by (simp add: element_of_def nv)
  ultimately show ?thesis using same by blast
qed


section \<open>The list of elements\<close>

fun elems_at :: "(u64 \<rightharpoonup> http_header_element) \<Rightarrow> u64 list \<Rightarrow> (field \<times> int) list \<Rightarrow> bool" where
  "elems_at m [] [] \<longleftrightarrow> True"
| "elems_at m (a # as) ((f, p) # fps) \<longleftrightarrow> a \<noteq> 0 \<and>
     (\<exists>e. m a = Some e \<and> element_of f p e \<and> (as \<noteq> [] \<longrightarrow> he_next e = hd as)) \<and> elems_at m as fps"
| "elems_at m _ _ \<longleftrightarrow> False"

fun field_starts :: "int \<Rightarrow> field list \<Rightarrow> (field \<times> int) list" where
  "field_starts p [] = []"
| "field_starts p (f # fs) = (f, p) # field_starts (p + int (length (field_line f))) fs"

lemma elems_at_update: "a \<notin> set as \<Longrightarrow> elems_at (m(a := y)) as fps = elems_at m as fps"
  by (induction m as fps rule: elems_at.induct) auto

lemma element_of_next [simp]: "element_of f p (e\<lparr>he_next := n\<rparr>) = element_of f p e"
  by (simp add: element_of_def)

lemma elems_at_last: "elems_at m as fps \<Longrightarrow> as \<noteq> [] \<Longrightarrow> \<exists>e. m (List.last as) = Some e \<and> List.last as \<noteq> 0"
  by (induction m as fps rule: elems_at.induct) auto

lemma elems_at_snoc:
  assumes "elems_at m as fps" "distinct as" "el \<notin> set as" "el \<noteq> 0" "element_of f p e"
    and "as \<noteq> [] \<Longrightarrow> m (List.last as) = Some ep"
  shows "elems_at ((if as = [] then m else m(List.last as \<mapsto> ep\<lparr>he_next := el\<rparr>))(el \<mapsto> e)) (as @ [el]) (fps @ [(f, p)])"
  using assms
proof (induction m as fps rule: elems_at.induct)
  case (2 m a as g q fps)
  show ?case
  proof (cases "as = []")
    case True
    then show ?thesis using 2 by (cases fps) auto
  next
    case False
    have "a \<noteq> List.last as" using 2(3) False by (metis distinct.simps(2) last_in_set)
    then show ?thesis using 2 False by auto
  qed
qed auto

lemma lower_mem_stored: "stored mem p cs \<Longrightarrow> stored (lower_mem mem p (length cs)) p (map tolower cs)"
proof -
  assume st: "stored mem p cs"
  have "stored m' q (map tolower (drop k cs))" if "q = p + int k" "\<And>a. p \<le> a \<Longrightarrow> a < p + int (length cs) \<Longrightarrow> m' a = tolower (mem a)" "k \<le> length cs" for m' q k
    using that
  proof (induction "length cs - k" arbitrary: q k)
    case (Suc d)
    then have k: "k < length cs" by simp
    then have "drop k cs = cs ! k # drop (Suc k) cs" by (simp add: Cons_nth_drop_Suc)
    moreover have "m' q = tolower (cs ! k)" using Suc.prems(1,2) k stored_nth [OF st k] by simp
    ultimately show ?case using Suc.hyps(1) [of "Suc k" "q + 1"] Suc.hyps(2) Suc.prems k by simp
  qed simp
  from this [of p 0] show ?thesis by (simp add: lower_mem_def)
qed

lemma stored_frame: "stored mem p cs \<Longrightarrow> (\<And>a. p \<le> a \<Longrightarrow> a < p + int (length cs) \<Longrightarrow> mem' a = mem a) \<Longrightarrow> stored mem' p cs"
proof (induction cs arbitrary: p)
  case (Cons c cs)
  then show ?case using Cons.IH [of "p + 1"] by auto
qed simp

lemma lower_line_length [simp]: "length (field_line (lower_field f)) = length (field_line f)"
  by (simp add: field_line_def lower_field_def)

lemma lower_text_length [simp]: "length (header_text (map lower_field fs)) = length (header_text fs)"
  by (induction fs) (simp_all add: header_text_def)

lemma lower_line_stored:
  assumes "stored mem p (field_line f)"
  shows "stored (lower_mem mem p (length (fst f))) p (field_line (lower_field f))"
proof -
  have "stored mem p (fst f)" "stored mem (p + int (length (fst f))) ('': '' @ snd f @ [CR, LF])"
    using assms by (simp_all add: field_line_def stored_append)
  moreover from this(2) have "stored (lower_mem mem p (length (fst f))) (p + int (length (fst f))) ('': '' @ snd f @ [CR, LF])"
    by (rule stored_frame) (simp add: lower_mem_def)
  ultimately show ?thesis
    using lower_mem_stored [of mem p "fst f"] by (simp add: field_line_def lower_field_def stored_append)
qed

lemma headers_round_blank:
  assumes r: "req_at w req = Some r" and b: "buf_at w (hr_header_in r) = Some b"
    and line: "stored (w_mem w) (bf_pos b) [CR, LF]" "bf_pos b + 2 \<le> bf_last b" and fresh: "rq_state (hr_req r) = 0"
  shows "\<exists>q. headers_round nt req prev w = Some (NGX_HTTP_PARSE_HEADER_DONE, prev,
      w\<lparr>w_req := (w_req w)(req \<mapsto> r\<lparr>hr_req := q\<rparr>), w_buf := (w_buf w)(hr_header_in r \<mapsto> b\<lparr>bf_pos := bf_pos b + 2\<rparr>)\<rparr>) \<and>
    same_line (hr_req r) q"
  using header_blank_ok [of "w_mem w" "\<lparr>b_pos = bf_pos b, b_last = bf_last b\<rparr>" "hr_req r" 1] assms
  by (auto simp: headers_round_def same_line_def request_line.defs)


text \<open>The state behind the header: what has changed.\<close>

definition behind_headers ::
  "u64 \<Rightarrow> http_request \<Rightarrow> lt_buffer \<Rightarrow> int \<Rightarrow> pool_mem \<Rightarrow> char_mem \<Rightarrow> request \<Rightarrow> u64 \<Rightarrow> u64 \<Rightarrow> (u64 \<rightharpoonup> http_header_element) \<Rightarrow>
   'a web_scheme \<Rightarrow> 'a web_scheme" where
  "behind_headers req r b n pm mem q hd_el tl_el em w = w\<lparr>w_pool := pm, w_mem := mem,
     w_buf := (w_buf w)(hr_header_in r \<mapsto> b\<lparr>bf_pos := bf_pos b + n\<rparr>),
     w_req := (w_req w)(req \<mapsto> r\<lparr>hr_req := q, hr_element_head := hd_el, hr_element_tail := tl_el\<rparr>), w_elem := em\<rparr>"

text \<open>What is known of the elements \<open>as\<close> found so far.\<close>

definition elems_inv :: "'a web_scheme \<Rightarrow> u64 \<Rightarrow> http_request \<Rightarrow> u64 \<Rightarrow> u64 list \<Rightarrow> (field \<times> int) list \<Rightarrow> bool" where
  "elems_inv w req r prev as fps \<longleftrightarrow> elems_at (w_elem w) as fps \<and> distinct as \<and>
     (\<forall>a \<in> set as. unat a < mgr_next w (header_pool req)) \<and>
     (if as = [] then hr_element_head r = 0 else hr_element_head r = hd as \<and> hr_element_tail r = List.last as \<and> prev = List.last as)"

lemma headers_loop_ok:
  assumes "req_at w req = Some r" "buf_at w (hr_header_in r) = Some b" "\<forall>f \<in> set fs. good_field f"
    and "stored (w_mem w) (bf_pos b) (header_text fs @ [CR, LF])" "bf_pos b + int (length (header_text fs)) + 2 \<le> bf_last b"
    and "rq_state (hr_req r) = 0" "length (rq_lowcase_header (hr_req r)) = 32"
    and "mgr_room w (header_pool req) 88 (length fs)" "\<forall>f \<in> set fs. (word_of_int (field_hash f) :: 32 word) \<noteq> w_HostHash w"
    and "elems_inv w req r prev as fps"
  shows "\<exists>pm mem q em as'. headers_loop nt req prev w = Some (Some (LOK,
      behind_headers req r b (int (length (header_text fs)) + 2) pm mem q
        (if as @ as' = [] then 0 else hd (as @ as')) (if as @ as' = [] then hr_element_tail r else List.last (as @ as')) em w)) \<and>
    elems_at em (as @ as') (fps @ field_starts (bf_pos b) fs) \<and> distinct (as @ as') \<and> same_line (hr_req r) q \<and>
    stored mem (bf_pos b) (header_text (map lower_field fs) @ [CR, LF]) \<and>
    (\<forall>a. a < bf_pos b \<or> bf_pos b + int (length (header_text fs)) \<le> a \<longrightarrow> mem a = w_mem w a) \<and>
    pool_kept (mgr_tail w (header_pool req)) (w_pool w) pm"
  using assms
proof (induction fs arbitrary: w r b prev as fps)
  case Nil
  obtain q where q: "headers_round nt req prev w = Some (NGX_HTTP_PARSE_HEADER_DONE, prev,
      w\<lparr>w_req := (w_req w)(req \<mapsto> r\<lparr>hr_req := q\<rparr>), w_buf := (w_buf w)(hr_header_in r \<mapsto> b\<lparr>bf_pos := bf_pos b + 2\<rparr>)\<rparr>)"
      "same_line (hr_req r) q"
    using headers_round_blank [OF Nil.prems(1,2), of nt prev] Nil.prems(4-6) by (auto simp: header_text_def)
  have r0: "r\<lparr>hr_req := q, hr_element_head := (if as = [] then 0 else hd as),
      hr_element_tail := (if as = [] then hr_element_tail r else List.last as)\<rparr> = r\<lparr>hr_req := q\<rparr>"
    using Nil.prems(10) by (cases r) (auto simp: elems_inv_def)
  have "behind_headers req r b 2 (w_pool w) (w_mem w) q (if as = [] then 0 else hd as)
      (if as = [] then hr_element_tail r else List.last as) (w_elem w) w =
      w\<lparr>w_req := (w_req w)(req \<mapsto> r\<lparr>hr_req := q\<rparr>), w_buf := (w_buf w)(hr_header_in r \<mapsto> b\<lparr>bf_pos := bf_pos b + 2\<rparr>)\<rparr>"
    unfolding behind_headers_def r0 by simp
  then have "headers_loop nt req prev w = Some (Some (LOK, behind_headers req r b 2 (w_pool w) (w_mem w) q (if as = [] then 0 else hd as)
      (if as = [] then hr_element_tail r else List.last as) (w_elem w) w))"
    using q(1) by (subst headers_loop.simps) simp
  then show ?case
    using Nil.prems(4,10) q(2)
    by (intro exI [of _ "w_pool w"] exI [of _ "w_mem w"] exI [of _ q] exI [of _ "w_elem w"] exI [of _ "[]"])
      (simp add: header_text_def elems_inv_def)
next
  case (Cons f fs)
  let ?el = "word_of_nat (mgr_next w (header_pool req)) :: u64" and ?p = "bf_pos b" and ?l = "int (length (field_line f))"
  have tx: "stored (w_mem w) ?p (field_line f)" "stored (w_mem w) (?p + ?l) (header_text fs @ [CR, LF])"
      "?p + ?l \<le> bf_last b" "?p + ?l + int (length (header_text fs)) + 2 \<le> bf_last b"
    using Cons.prems(4,5) by (simp_all add: header_text_def stored_append)
  have inv: "elems_at (w_elem w) as fps" "distinct as" "\<forall>a \<in> set as. unat a < mgr_next w (header_pool req)"
    using Cons.prems(10) by (simp_all add: elems_inv_def)
  have room: "mgr_room w (header_pool req) 88 (Suc (length fs))" using Cons.prems(8) by simp
  have el: "unat ?el = mgr_next w (header_pool req)" "?el \<noteq> 0"
    using elem_alloc_ok [OF room] by blast+
  have new: "?el \<notin> set as" using inv(3) el(1) by auto
  obtain ep where ep: "as \<noteq> [] \<Longrightarrow> w_elem w (List.last as) = Some ep \<and> List.last as \<noteq> 0"
    using elems_at_last [OF inv(1)] by blast
  have head: "hr_element_head r = 0 \<longleftrightarrow> as = []"
    using Cons.prems(10) inv(1) by (cases as; cases fps) (auto simp: elems_inv_def split: if_splits)
  have prev: "as \<noteq> [] \<Longrightarrow> prev = List.last as" using Cons.prems(10) by (simp add: elems_inv_def)
  have "hr_element_head r = 0 \<or> prev \<noteq> ?el \<and> elem_at w prev = Some ep"
    using head prev ep new by (auto simp: elem_at_def)
  then obtain pm e q where rd: "headers_round nt req prev w = Some (LOK, ?el, after_field nt req prev ep f r b pm e q ?el w)"
      "element_of f ?p e" "same_line (hr_req r) q" "mgr_room (w\<lparr>w_pool := pm\<rparr>) (header_pool req) 88 (length fs)"
      "mgr_next (w\<lparr>w_pool := pm\<rparr>) (header_pool req) = mgr_next w (header_pool req) + 88"
      "pool_kept (mgr_tail w (header_pool req)) (w_pool w) pm"
    using headers_round_field [OF _ Cons.prems(1,2) tx(1,3) Cons.prems(6,7) room _ _ refl, where prev = prev and ep = ep and nt = nt]
      Cons.prems(3,9) by auto
  define w1 where "w1 = after_field nt req prev ep f r b pm e q ?el w"
  define r1 where "r1 = r\<lparr>hr_req := q, hr_element_head := (if hr_element_head r = 0 then ?el else hr_element_head r), hr_element_tail := ?el\<rparr>"
  define b1 where "b1 = b\<lparr>bf_pos := ?p + ?l\<rparr>"
  have at: "req \<noteq> 0" "hr_header_in r \<noteq> 0" using Cons.prems(1,2) by (auto simp: req_at_def buf_at_def split: if_splits)
  have w1: "req_at w1 req = Some r1" "buf_at w1 (hr_header_in r1) = Some b1" "w_HostHash w1 = w_HostHash w"
      "w_mem w1 = lower_mem (w_mem w) ?p (length (fst f))" "mgr_tail w1 = mgr_tail w"
      "mgr_room w1 (header_pool req) 88 (length fs)" "mgr_next w1 (header_pool req) = mgr_next w (header_pool req) + 88" "w_pool w1 = pm"
    using at rd(4,5) by (simp_all add: w1_def after_field_def r1_def b1_def req_at_def buf_at_def)
  have st: "stored (w_mem w1) (bf_pos b1) (header_text fs @ [CR, LF])"
    unfolding w1(4) using tx(2) by (simp add: b1_def) (rule stored_frame, auto simp: lower_mem_def field_line_def)
  have em1: "elems_at (w_elem w1) (as @ [?el]) (fps @ [(f, ?p)])"
    using elems_at_snoc [OF inv(1,2) new el(2) rd(2), of ep] ep head prev by (cases "as = []") (simp_all add: w1_def after_field_def)
  have inv1: "elems_inv w1 req r1 ?el (as @ [?el]) (fps @ [(f, ?p)])"
    using em1 inv(2,3) new el(1) head Cons.prems(10) w1(7)
    by (auto simp: elems_inv_def r1_def less_imp_le intro: less_trans split: if_splits)
  have line1: "rq_state (hr_req r1) = 0" "length (rq_lowcase_header (hr_req r1)) = 32"
    using same_line_state [OF rd(3)] rd(3) Cons.prems(6,7) by (simp_all add: r1_def same_line_def)
  have pre: "bf_pos b1 + int (length (header_text fs)) + 2 \<le> bf_last b1" using tx(4) by (simp add: b1_def)
  obtain pm' mem q' em as' where IH: "headers_loop nt req ?el w1 = Some (Some (LOK,
      behind_headers req r1 b1 (int (length (header_text fs)) + 2) pm' mem q' (hd ((as @ [?el]) @ as')) (List.last ((as @ [?el]) @ as')) em w1))"
    "elems_at em ((as @ [?el]) @ as') ((fps @ [(f, ?p)]) @ field_starts (bf_pos b1) fs)" "same_line (hr_req r1) q'"
    "stored mem (bf_pos b1) (header_text (map lower_field fs) @ [CR, LF])"
    "\<forall>a. a < bf_pos b1 \<or> bf_pos b1 + int (length (header_text fs)) \<le> a \<longrightarrow> mem a = w_mem w1 a"
    "pool_kept (mgr_tail w1 (header_pool req)) (w_pool w1) pm'" "distinct ((as @ [?el]) @ as')"
    using Cons.IH [OF w1(1,2) _ st pre line1 w1(6) _ inv1] Cons.prems(3,9) w1(3) by auto
  have "headers_loop nt req prev w = headers_loop nt req ?el w1"
    using rd(1) by (subst headers_loop.simps) (simp add: w1_def)
  moreover have "behind_headers req r1 b1 (int (length (header_text fs)) + 2) pm' mem q' h t em w1 =
      behind_headers req r b (int (length (header_text (f # fs))) + 2) pm' mem q' h t em w" for h t
    by (simp add: behind_headers_def w1_def after_field_def r1_def b1_def header_text_def algebra_simps)
  moreover have "stored mem ?p (field_line (lower_field f))"
    using lower_line_stored [OF tx(1)] by (rule stored_frame) (use IH(5) in \<open>simp add: w1(4) b1_def\<close>)
  then have "stored mem ?p (header_text (map lower_field (f # fs)) @ [CR, LF])"
    using IH(4) by (simp add: header_text_def stored_append b1_def)
  moreover have "mem a = w_mem w a" if "a < ?p \<or> ?p + int (length (header_text (f # fs))) \<le> a" for a
    using IH(5) that unfolding w1(4) by (auto simp: b1_def header_text_def lower_mem_def field_line_def)
  moreover have "same_line (hr_req r) q'" using same_line_trans [OF rd(3)] IH(3) by (simp add: r1_def)
  moreover have "pool_kept (mgr_tail w (header_pool req)) (w_pool w) pm'"
    using pool_kept_trans [OF rd(6)] IH(6) w1(5,8) by simp
  ultimately show ?case
    using IH(1,2,7)
    by (intro exI [of _ pm'] exI [of _ mem] exI [of _ q'] exI [of _ em] exI [of _ "?el # as'"]) (simp add: b1_def)
qed


lemma request_headers_ok:
  assumes r: "req_at w req = Some r" and b: "buf_at w (hr_header_in r) = Some b" and fs: "\<forall>f \<in> set fs. good_field f"
    and tx: "stored (w_mem w) (bf_pos b) (header_text fs @ [CR, LF])" "bf_pos b + int (length (header_text fs)) + 2 \<le> bf_last b"
    and fresh: "rq_state (hr_req r) = 0" "length (rq_lowcase_header (hr_req r)) = 32"
    and room: "mgr_room w (header_pool req) 88 (length fs)"
    and hash: "\<forall>f \<in> set fs. (word_of_int (field_hash f) :: 32 word) \<noteq> w_HostHash w"
  shows "\<exists>pm mem q em as. http_process_request_headers nt req w = Some (Some (LOK,
      behind_headers req r b (int (length (header_text fs)) + 2) pm mem q
        (if as = [] then 0 else hd as) (if as = [] then 0 else List.last as) em w)) \<and>
    elems_at em as (field_starts (bf_pos b) fs) \<and> distinct as \<and> same_line (hr_req r) q \<and>
    stored mem (bf_pos b) (header_text (map lower_field fs) @ [CR, LF]) \<and>
    (\<forall>a. a < bf_pos b \<or> bf_pos b + int (length (header_text fs)) \<le> a \<longrightarrow> mem a = w_mem w a) \<and>
    pool_kept (mgr_tail w (header_pool req)) (w_pool w) pm"
proof -
  define r0 where "r0 = r\<lparr>hr_element_head := 0, hr_element_tail := 0\<rparr>"
  define w0 where "w0 = w\<lparr>w_req := (w_req w)(req \<mapsto> r0)\<rparr>"
  have w0: "req_at w0 req = Some r0" "buf_at w0 (hr_header_in r0) = Some b" "mgr_room w0 (header_pool req) 88 (length fs)"
      "w_mem w0 = w_mem w" "w_HostHash w0 = w_HostHash w" "hr_req r0 = hr_req r" "mgr_tail w0 = mgr_tail w" "w_pool w0 = w_pool w"
    using r b room by (auto simp: w0_def r0_def req_at_def buf_at_def split: if_splits)
  have inv0: "elems_inv w0 req r0 0 [] []" by (simp add: elems_inv_def r0_def)
  obtain pm mem q em as where l: "headers_loop nt req 0 w0 = Some (Some (LOK,
      behind_headers req r0 b (int (length (header_text fs)) + 2) pm mem q
        (if as = [] then 0 else hd as) (if as = [] then hr_element_tail r0 else List.last as) em w0))"
    "elems_at em as (field_starts (bf_pos b) fs)" "distinct as" "same_line (hr_req r) q"
    "stored mem (bf_pos b) (header_text (map lower_field fs) @ [CR, LF])"
    "\<forall>a. a < bf_pos b \<or> bf_pos b + int (length (header_text fs)) \<le> a \<longrightarrow> mem a = w_mem w a"
    "pool_kept (mgr_tail w (header_pool req)) (w_pool w) pm"
    using headers_loop_ok [OF w0(1,2) fs _ tx(2) _ _ w0(3) _ inv0, where nt = nt] tx(1) fresh hash
    unfolding w0(4-8) append_Nil by blast
  have "req_set req (\<lambda>r. r\<lparr>hr_element_head := 0, hr_element_tail := 0\<rparr>) w = Some w0"
    using r by (simp add: req_set_def w0_def r0_def)
  moreover have "behind_headers req r0 b n pm mem q h t em w0 = behind_headers req r b n pm mem q h t em w" for n h t
    by (simp add: behind_headers_def r0_def w0_def)
  moreover have "hr_element_tail r0 = 0" by (simp add: r0_def)
  ultimately show ?thesis
    using l by (intro exI [of _ pm] exI [of _ mem] exI [of _ q] exI [of _ em] exI [of _ as])
      (simp add: http_process_request_headers_def)
qed

end
