(* ===== verification/Http_Forward.thy ===== *)
theory Http_Forward
  imports Http_Request
begin

text \<open>
  Forwarding in http.c and proxy.c: the chains of a parsed request and of a parsed response, sending them on,
  and the functions that process a request line and a response line. A chain points into the buffer the message
  was received in, so what is sent is what the buffer holds.
\<close>

section \<open>Data\<close>

definition CHAIN_POOL_LENGTH :: u64 where "CHAIN_POOL_LENGTH = 32"
definition sizeof_chain :: u64 where "sizeof_chain = 40"

definition chain_pool :: "u64 \<Rightarrow> u64" where "chain_pool req = req + 480"

text \<open>The connection states.\<close>

definition L_PROXY_CONNECTED :: int where "L_PROXY_CONNECTED = - 1"
definition L_PROXY_CONNECTING :: int where "L_PROXY_CONNECTING = - 2"
definition L_CONNECTING_ACCEPTED :: int where "L_CONNECTING_ACCEPTED = - 3"
definition L_PROXY_WAITING_RESPONSE :: int where "L_PROXY_WAITING_RESPONSE = - 4"
definition L_HTTP_WRITING_RESPONSE_HEADER :: int where "L_HTTP_WRITING_RESPONSE_HEADER = - 4"
definition L_PROXY_WRITING :: int where "L_PROXY_WRITING = - 5"
definition L_PROXY_ERROR :: int where "L_PROXY_ERROR = - 6"
definition L_HTTP_ERROR :: int where "L_HTTP_ERROR = - 6"
definition L_PROXY_CLOSING :: int where "L_PROXY_CLOSING = - 8"
definition L_HTTP_CLOSING :: int where "L_HTTP_CLOSING = - 8"
definition L_HTTP_WROTE_RESPONSE_HEADER :: int where "L_HTTP_WROTE_RESPONSE_HEADER = - 9"

lemmas status_defs = L_PROXY_CONNECTED_def L_PROXY_CONNECTING_def L_CONNECTING_ACCEPTED_def
  L_PROXY_WAITING_RESPONSE_def L_HTTP_WRITING_RESPONSE_HEADER_def L_PROXY_WRITING_def L_PROXY_ERROR_def
  L_HTTP_ERROR_def L_PROXY_CLOSING_def L_HTTP_CLOSING_def L_HTTP_WROTE_RESPONSE_HEADER_def

text \<open>The addresses of the callbacks: any distinct numbers.\<close>

definition cb_start_accept :: u64 where "cb_start_accept = 1"
definition cb_http_data_coming :: u64 where "cb_http_data_coming = 2"
definition cb_proxy_connect_writable :: u64 where "cb_proxy_connect_writable = 3"
definition cb_proxy_data_coming :: u64 where "cb_proxy_data_coming = 4"
definition cb_resend_chains :: u64 where "cb_resend_chains = 5"

section \<open>Chains\<close>

text \<open>\<open>chain->buf.iov_base = data; chain->buf.iov_len = length + extra\<close>, an \<open>int\<close> sum stored in a \<open>size_t\<close>.\<close>

definition set_iov :: "u64 \<Rightarrow> lt_string \<Rightarrow> int \<Rightarrow> 'a bufs_scheme \<Rightarrow> 'a bufs_scheme option" where
  "set_iov a s extra = chain_set a (\<lambda>c. c\<lparr>ch_iov_base := str_data s, ch_iov_len := word_of_int (i32 (str_length s + extra))\<rparr>)"

text \<open>
  The loop over the header elements, the same in both functions: two chains per element, for the name with the two
  characters behind it and for the value with its line end; the last one takes the empty line too.
  The result is the number of chains. The loop follows \<open>next\<close> up to \<open>element_tail\<close>, and need not end.
\<close>

partial_function (option) element_chains ::
  "net \<Rightarrow> u64 \<Rightarrow> u64 \<Rightarrow> u64 \<Rightarrow> u64 \<Rightarrow> int \<Rightarrow> 'a web_scheme \<Rightarrow> (int \<times> 'a web_scheme) option option"
where
  "element_chains nt ma element_tail element cur_chain chain_len w =
     (case do {
        e \<leftarrow> elem_at w element;
        w1 \<leftarrow> set_iov cur_chain (he_key e) 2 w;
        (value_chain, w2) \<leftarrow> chain_alloc (nt_sys nt) ma w1;
        w3 \<leftarrow> chain_set cur_chain (ch_next_update (\<lambda>_. value_chain)) w2;
        w4 \<leftarrow> set_iov value_chain (he_value e) 2 w3;
        Some (he_next e, value_chain, w4)
      } of
        None \<Rightarrow> Some None
      | Some (element', value_chain, w4) \<Rightarrow>
          if element = element_tail then
            Some (map_option (Pair (chain_len + 2)) (chain_set value_chain (\<lambda>c. c\<lparr>ch_iov_len := ch_iov_len c + 2\<rparr>) w4))
          else
            (case do {
               (new_chain, w5) \<leftarrow> chain_alloc (nt_sys nt) ma w4;
               w6 \<leftarrow> chain_set value_chain (ch_next_update (\<lambda>_. new_chain)) w5;
               Some (new_chain, w6)
             } of
               None \<Rightarrow> Some None
             | Some (new_chain, w6) \<Rightarrow> element_chains nt ma element_tail element' new_chain (chain_len + 2) w6))"

text \<open>The three chains of the request line, each with the separator behind it.\<close>

definition request_line_chains :: "net \<Rightarrow> u64 \<Rightarrow> request \<Rightarrow> 'a web_scheme \<Rightarrow> (u64 \<times> u64 \<times> 'a web_scheme) option" where
  "request_line_chains nt ma r w = do {
     (method_chain, w1) \<leftarrow> chain_alloc (nt_sys nt) ma w;
     w2 \<leftarrow> set_iov method_chain (rq_method_name r) 1 w1;
     (chain_uri, w3) \<leftarrow> chain_alloc (nt_sys nt) ma w2;
     w4 \<leftarrow> chain_set method_chain (ch_next_update (\<lambda>_. chain_uri)) w3;
     w5 \<leftarrow> set_iov chain_uri (rq_uri r) 1 w4;
     (http_version, w6) \<leftarrow> chain_alloc (nt_sys nt) ma w5;
     w7 \<leftarrow> chain_set chain_uri (ch_next_update (\<lambda>_. http_version)) w6;
     w8 \<leftarrow> set_iov http_version (rq_http_protocol r) 2 w7;
     Some (method_chain, http_version, w8)
   }"

definition http_construct_request_chains ::
  "net \<Rightarrow> u64 \<Rightarrow> 'a web_scheme \<Rightarrow> (u64 \<times> 'a web_scheme) option option" where
  "http_construct_request_chains nt req w =
     (case do {
        w1 \<leftarrow> mgr_new (nt_sys nt) (chain_pool req) sizeof_chain CHAIN_POOL_LENGTH w;
        r \<leftarrow> req_at w1 req;
        (method_chain, http_version, w2) \<leftarrow> request_line_chains nt (chain_pool req) (hr_req r) w1;
        Some (r, method_chain, http_version, w2)
      } of
        None \<Rightarrow> Some None
      | Some (r, method_chain, http_version, w2) \<Rightarrow>
          if hr_element_head r = 0 then
            Some (map_option (Pair method_chain) (chain_set method_chain (ch_chain_len_update (\<lambda>_. 3)) w2))
          else
            (case do {
               (field_chain, w3) \<leftarrow> chain_alloc (nt_sys nt) (chain_pool req) w2;
               w4 \<leftarrow> chain_set http_version (ch_next_update (\<lambda>_. field_chain)) w3;
               Some (field_chain, w4)
             } of
               None \<Rightarrow> Some None
             | Some (field_chain, w4) \<Rightarrow>
                 (case element_chains nt (chain_pool req) (hr_element_tail r) (hr_element_head r) field_chain 3 w4 of
                    None \<Rightarrow> None
                  | Some None \<Rightarrow> Some None
                  | Some (Some (chain_len, w5)) \<Rightarrow>
                      Some (map_option (Pair method_chain)
                        (chain_set method_chain (ch_chain_len_update (\<lambda>_. chain_len)) w5)))))"

text \<open>A response: the status line and the header fields; the code does not ask whether there are any.\<close>

definition construct_response_chains ::
  "net \<Rightarrow> u64 \<Rightarrow> 'a web_scheme \<Rightarrow> (u64 \<times> 'a web_scheme) option option" where
  "construct_response_chains nt rep w =
     (case do {
        w1 \<leftarrow> mgr_new (nt_sys nt) (chain_pool rep) sizeof_chain CHAIN_POOL_LENGTH w;
        r \<leftarrow> req_at w1 rep;
        (status_line, w2) \<leftarrow> chain_alloc (nt_sys nt) (chain_pool rep) w1;
        w3 \<leftarrow> set_iov status_line (rq_request_line (hr_req r)) 2 w2;
        (cur_chain, w4) \<leftarrow> chain_alloc (nt_sys nt) (chain_pool rep) w3;
        w5 \<leftarrow> chain_set status_line (ch_next_update (\<lambda>_. cur_chain)) w4;
        Some (r, status_line, cur_chain, w5)
      } of
        None \<Rightarrow> Some None
      | Some (r, status_line, cur_chain, w5) \<Rightarrow>
          (case element_chains nt (chain_pool rep) (hr_element_tail r) (hr_element_head r) cur_chain 1 w5 of
             None \<Rightarrow> None
           | Some None \<Rightarrow> Some None
           | Some (Some (chain, w6)) \<Rightarrow>
               Some (map_option (Pair status_line) (chain_set status_line (ch_chain_len_update (\<lambda>_. chain)) w6))))"

text \<open>\<open>destructor_chains\<close>: the block is freed, and with it the chains in it.\<close>

definition destructor_chains :: "u64 \<Rightarrow> 'a web_scheme \<Rightarrow> 'a web_scheme option" where
  "destructor_chains req w = do {
     mg \<leftarrow> w_mgr w (chain_pool req);
     blk \<leftarrow> pool_at (w_pool w) (pm_head mg);
     pm \<leftarrow> lt_destroy_memory_pool mg (w_pool w);
     Some (w\<lparr>w_pool := pm, w_chain := (\<lambda>a. if mp_start blk \<le> a \<and> a < mp_end blk then None else w_chain w a)\<rparr>)
   }"

section \<open>Sending\<close>

definition http_send_to_upstream :: "net \<Rightarrow> u64 \<Rightarrow> 'a web_scheme \<Rightarrow> 'a web_scheme option option" where
  "http_send_to_upstream nt req w =
     (case do {
        r \<leftarrow> req_at w req;
        client_conn \<leftarrow> conn_at w (hr_conn r);
        proxy_conn \<leftarrow> conn_at w (cn_pair client_conn);
        ev \<leftarrow> ev_at (w_ev w) (cn_ev client_conn);
        Some (hr_conn r, cn_pair client_conn, cn_fd proxy_conn, hr_out_chain r)
      } of
        None \<Rightarrow> Some None
      | Some (client, proxy, proxy_fd, send_chain) \<Rightarrow>
          (case send_chains (nt_sys nt) proxy_fd send_chain w of
             None \<Rightarrow> None
           | Some None \<Rightarrow> Some None
           | Some (Some (rv, send_chain', w1)) \<Rightarrow> Some (do {
               w2 \<leftarrow>
                 (if rv = LOK then do {
                    w' \<leftarrow> conn_set client (cn_status_update (\<lambda>_. L_CONNECTING_ACCEPTED)) w1;
                    w'' \<leftarrow> conn_set proxy (cn_status_update (\<lambda>_. L_PROXY_WAITING_RESPONSE)) w';
                    destructor_chains req w''
                  } else if rv = LAGAIN then do {
                    (_, w') \<leftarrow> lt_new_post_callback (sy_os (nt_sys nt)) w1 cb_resend_chains proxy_fd req;
                    conn_set proxy (cn_status_update (\<lambda>_. L_PROXY_WRITING)) w'
                  } else if rv = LERROR then conn_set proxy (cn_status_update (\<lambda>_. L_PROXY_ERROR)) w1
                  else if rv = LCLOSE then conn_set proxy (cn_status_update (\<lambda>_. L_PROXY_CLOSING)) w1
                  else conn_set proxy (cn_status_update (\<lambda>_. L_PROXY_ERROR)) w1);
               proxy_conn \<leftarrow> conn_at w2 proxy;
               (_, w3) \<leftarrow> lt_io_mod (sy_os (nt_sys nt)) (sy_now (nt_sys nt)) w2 (cn_ev proxy_conn) (LV_FDRD OR LV_CONN)
                            cb_proxy_data_coming proxy NO_TIMEOUT;
               Some w3
             })))"

definition http_send_to_client :: "net \<Rightarrow> u64 \<Rightarrow> u64 \<Rightarrow> 'a web_scheme \<Rightarrow> 'a web_scheme option option" where
  "http_send_to_client nt conn req w =
     (case construct_response_chains nt req w of
        None \<Rightarrow> None
      | Some None \<Rightarrow> Some None
      | Some (Some (out_chain, w1)) \<Rightarrow>
          (case do {
             c \<leftarrow> conn_at w1 conn;
             client_conn \<leftarrow> conn_at w1 (cn_pair c);
             ev \<leftarrow> ev_at (w_ev w1) (cn_ev c);
             Some (cn_fd client_conn)
           } of
             None \<Rightarrow> Some None
           | Some client_fd \<Rightarrow>
               (case send_chains (nt_sys nt) client_fd out_chain w1 of
                  None \<Rightarrow> None
                | Some None \<Rightarrow> Some None
                | Some (Some (rv, _, w2)) \<Rightarrow>
                    Some (conn_set conn (cn_status_update (\<lambda>_.
                      if rv = LOK then L_HTTP_WROTE_RESPONSE_HEADER
                      else if rv = LAGAIN then L_HTTP_WRITING_RESPONSE_HEADER
                      else if rv = LCLOSE then L_HTTP_CLOSING
                      else L_HTTP_ERROR)) w2))))"

section \<open>Lines\<close>

text \<open>
  \<open>http_process_request_line\<close> calls itself for the next request in the buffer, until the parser says something else than \<open>LOK\<close>.
\<close>

definition parse_request :: "u64 \<Rightarrow> 'a web_scheme \<Rightarrow> (int \<times> 'a web_scheme) option" where
  "parse_request req w = do {
     r \<leftarrow> req_at w req;
     b \<leftarrow> buf_at w (hr_header_in r);
     (rv, q, cur) \<leftarrow> ngx_http_parse_request_line (w_mem w) (hr_req r) \<lparr>b_pos = bf_pos b, b_last = bf_last b\<rparr>;
     let q' = (if rv = LOK then http_request_line_parsed q (b_pos cur) else q);
     Some (rv, w\<lparr>w_req := (w_req w)(req \<mapsto> r\<lparr>hr_req := q'\<rparr>), w_buf := (w_buf w)(hr_header_in r \<mapsto> b\<lparr>bf_pos := b_pos cur\<rparr>)\<rparr>)
   }"

definition forward_request :: "net \<Rightarrow> u64 \<Rightarrow> 'a web_scheme \<Rightarrow> 'a web_scheme option option" where
  "forward_request nt req w =
     (case http_process_request_headers nt req w of
        None \<Rightarrow> None
      | Some None \<Rightarrow> Some None
      | Some (Some (rv, w1)) \<Rightarrow>
          if rv = LOK then
            (case http_construct_request_chains nt req w1 of
               None \<Rightarrow> None
             | Some None \<Rightarrow> Some None
             | Some (Some (send_chain, w2)) \<Rightarrow>
                 (case req_set req (hr_out_chain_update (\<lambda>_. send_chain)) w2 of
                    None \<Rightarrow> Some None
                  | Some w3 \<Rightarrow> http_send_to_upstream nt req w3))
          else Some (Some w1))"

partial_function (option) http_process_request_line ::
  "net \<Rightarrow> u64 \<Rightarrow> 'a web_scheme \<Rightarrow> (int \<times> 'a web_scheme) option option"
where
  "http_process_request_line nt req w =
     (case parse_request req w of
        None \<Rightarrow> Some None
      | Some (rv, w1) \<Rightarrow>
          if rv = LOK then
            (case forward_request nt req w1 of
               None \<Rightarrow> None
             | Some None \<Rightarrow> Some None
             | Some (Some w2) \<Rightarrow> http_process_request_line nt req w2)
          else Some (Some (rv, w1)))"

definition http_process_response_line :: "net \<Rightarrow> u64 \<Rightarrow> u64 \<Rightarrow> 'a web_scheme \<Rightarrow> 'a web_scheme option option" where
  "http_process_response_line nt conn req w =
     (case do {
        c \<leftarrow> conn_at w conn;
        b \<leftarrow> buf_at w (cn_buf c);
        r \<leftarrow> req_at w req;
        (rv, q, cur, status) \<leftarrow> ngx_http_parse_status_line (w_mem w) (hr_req r) \<lparr>b_pos = bf_pos b, b_last = bf_last b\<rparr> (rq_status (hr_req r));
        Some (rv, q\<lparr>rq_status := status\<rparr>, cn_buf c, b\<lparr>bf_pos := b_pos cur\<rparr>, r)
      } of
        None \<Rightarrow> Some None
      | Some (rv, q, buf, b, r) \<Rightarrow>
          let q' = (if rv = LOK then
                      q\<lparr>rq_request_line := (rq_request_line q)\<lparr>str_data := rq_request_start q,
                           str_length := i32 (st_end (rq_status q) - rq_request_start q)\<rparr>,
                        rq_http_protocol := (rq_http_protocol q)\<lparr>str_length :=
                           i32 (rq_http_protocol_end q - str_data (rq_http_protocol q))\<rparr>\<rparr>
                    else q);
              w1 = w\<lparr>w_req := (w_req w)(req \<mapsto> r\<lparr>hr_req := q'\<rparr>), w_buf := (w_buf w)(buf \<mapsto> b)\<rparr>
          in if rv = LOK then
               (case http_process_request_headers nt req w1 of
                  None \<Rightarrow> None
                | Some None \<Rightarrow> Some None
                | Some (Some (rc, w2)) \<Rightarrow> if rc = LOK then http_send_to_client nt conn req w2 else Some (Some w2))
             else Some (Some w1))"

section \<open>Chains of the header elements\<close>

lemma mgr_cong:
  "w_mgr w = w_mgr w' \<Longrightarrow> w_pool w = w_pool w' \<Longrightarrow> mgr_room w = mgr_room w'"
  "w_mgr w = w_mgr w' \<Longrightarrow> w_pool w = w_pool w' \<Longrightarrow> mgr_next w = mgr_next w'"
  by (intro ext, simp add: mgr_room_def mgr_next_def split: option.split)+

lemma chain_alloc_ok:
  assumes "mgr_room w ma e (Suc j)"
  shows "\<exists>pm. chain_alloc sy ma w = Some (word_of_nat (mgr_next w ma),
      w\<lparr>w_pool := pm, w_chain := (w_chain w)(word_of_nat (mgr_next w ma) \<mapsto> sy_junk_chain sy)\<rparr>) \<and>
    mgr_room (w\<lparr>w_pool := pm\<rparr>) ma e j \<and> mgr_next (w\<lparr>w_pool := pm\<rparr>) ma = mgr_next w ma + e \<and>
    unat (word_of_nat (mgr_next w ma) :: u64) = mgr_next w ma \<and> (word_of_nat (mgr_next w ma) :: u64) \<noteq> 0 \<and>
    pool_kept (mgr_tail w ma) (w_pool w) pm"
proof -
  let ?a = "word_of_nat (mgr_next w ma) :: u64"
  obtain pm where pm: "mgr_alloc sy ma w = Some (?a, True, w\<lparr>w_pool := pm\<rparr>)"
      "mgr_room (w\<lparr>w_pool := pm\<rparr>) ma e j" "mgr_next (w\<lparr>w_pool := pm\<rparr>) ma = mgr_next w ma + e"
      "40 \<le> mgr_next w ma" "mgr_next w ma + Suc j * e < 2 ^ 64" "pool_kept (mgr_tail w ma) (w_pool w) pm"
    using mgr_alloc_ok [OF assms] by blast
  have a: "unat ?a = mgr_next w ma" using pm(5) by (intro unat_of_nat64) simp
  then have "?a \<noteq> 0" using pm(4) by (metis not_numeral_le_zero unat_0)
  with pm a show ?thesis by (intro exI [of _ pm]) (simp add: chain_alloc_def)
qed

text \<open>The vector of a header: name and value of each field with the two characters behind them, at the end also the empty line.\<close>

fun field_iovs :: "(field \<times> int) list \<Rightarrow> (int \<times> u64) list" where
  "field_iovs [] = []"
| "field_iovs [(f, p)] = [(p, word_of_nat (length (fst f) + 2)), (p + int (length (fst f)) + 2, word_of_nat (length (snd f) + 4))]"
| "field_iovs ((f, p) # x # xs) =
     (p, word_of_nat (length (fst f) + 2)) # (p + int (length (fst f)) + 2, word_of_nat (length (snd f) + 2)) # field_iovs (x # xs)"

definition key_chain :: "field \<Rightarrow> int \<Rightarrow> u64 \<Rightarrow> lt_chain \<Rightarrow> lt_chain" where
  "key_chain f p nx c = c\<lparr>ch_iov_base := p, ch_iov_len := word_of_nat (length (fst f) + 2), ch_next := nx\<rparr>"

definition value_chain :: "field \<Rightarrow> int \<Rightarrow> nat \<Rightarrow> lt_chain \<Rightarrow> lt_chain" where
  "value_chain f p k c = c\<lparr>ch_iov_base := p + int (length (fst f)) + 2, ch_iov_len := word_of_nat (length (snd f) + k)\<rparr>"

lemma set_iov_eq:
  assumes "chain_at w a = Some c" "str_length s = int n" "n + k < 2147483648"
  shows "set_iov a s (int k) w = Some (w\<lparr>w_chain := (w_chain w)(a \<mapsto>
    c\<lparr>ch_iov_base := str_data s, ch_iov_len := word_of_nat (n + k)\<rparr>)\<rparr>)"
proof -
  have "i32 (int n + int k) = int (n + k)" using assms(3) by (simp add: i32_id)
  then show ?thesis using assms(1,2) by (simp add: set_iov_def chain_set_def del: of_nat_add)
qed

text \<open>One element: its two chains.\<close>

lemma element_step:
  assumes e: "elem_at w a = Some e" "element_of f p e" "length (fst f) < 32" "length (snd f) < 1000000000"
    and c: "chain_at w cur = Some c" "unat cur < mgr_next w ma" and room: "mgr_room w ma 40 (Suc j)"
    and vc: "vc = word_of_nat (mgr_next w ma)"
  shows "\<exists>pm. do {
        e \<leftarrow> elem_at w a;
        w1 \<leftarrow> set_iov cur (he_key e) 2 w;
        (value_chain, w2) \<leftarrow> chain_alloc (nt_sys nt) ma w1;
        w3 \<leftarrow> chain_set cur (ch_next_update (\<lambda>_. value_chain)) w2;
        w4 \<leftarrow> set_iov value_chain (he_value e) 2 w3;
        Some (he_next e, value_chain, w4)
      } = Some (he_next e, vc, w\<lparr>w_pool := pm, w_chain := (w_chain w)(cur \<mapsto> key_chain f p vc c,
        vc \<mapsto> value_chain f p 2 (sy_junk_chain (nt_sys nt)))\<rparr>) \<and>
    mgr_room (w\<lparr>w_pool := pm\<rparr>) ma 40 j \<and> mgr_next (w\<lparr>w_pool := pm\<rparr>) ma = mgr_next w ma + 40 \<and>
    vc \<noteq> 0 \<and> vc \<noteq> cur \<and> unat vc = mgr_next w ma \<and> pool_kept (mgr_tail w ma) (w_pool w) pm"
proof -
  define c1 where "c1 = c\<lparr>ch_iov_base := p, ch_iov_len := word_of_nat (length (fst f) + 2)\<rparr>"
  define w1 where "w1 = w\<lparr>w_chain := (w_chain w)(cur \<mapsto> c1)\<rparr>"
  have s1: "set_iov cur (he_key e) 2 w = Some w1"
    using set_iov_eq [OF c(1), of "he_key e" "length (fst f)" 2] e(2,3) by (simp add: element_of_def w1_def c1_def)
  have r1: "mgr_room w1 ma 40 (Suc j)" "mgr_next w1 ma = mgr_next w ma" using room by (simp_all add: w1_def)
  obtain pm where pm: "chain_alloc (nt_sys nt) ma w1 = Some (vc, w1\<lparr>w_pool := pm, w_chain := (w_chain w1)(vc \<mapsto> sy_junk_chain (nt_sys nt))\<rparr>)"
      "mgr_room (w1\<lparr>w_pool := pm\<rparr>) ma 40 j" "mgr_next (w1\<lparr>w_pool := pm\<rparr>) ma = mgr_next w ma + 40"
      "unat vc = mgr_next w ma" "vc \<noteq> 0" "pool_kept (mgr_tail w1 ma) (w_pool w1) pm"
    using chain_alloc_ok [OF r1(1), of "nt_sys nt"] unfolding r1(2) vc by blast
  have ne: "vc \<noteq> cur" using pm(4) c(2) by auto
  have cur: "cur \<noteq> 0" using c(1) by (auto simp: chain_at_def)
  define w3 where "w3 = w\<lparr>w_pool := pm, w_chain := (w_chain w)(cur \<mapsto> key_chain f p vc c, vc \<mapsto> sy_junk_chain (nt_sys nt))\<rparr>"
  have s3: "chain_set cur (ch_next_update (\<lambda>_. vc)) (w1\<lparr>w_pool := pm, w_chain := (w_chain w1)(vc \<mapsto> sy_junk_chain (nt_sys nt))\<rparr>) = Some w3"
    using ne cur by (simp add: chain_set_def chain_at_def w1_def w3_def key_chain_def c1_def fun_upd_twist)
  have "chain_at w3 vc = Some (sy_junk_chain (nt_sys nt))" using pm(5) by (simp add: chain_at_def w3_def)
  then have "set_iov vc (he_value e) 2 w3 = Some (w3\<lparr>w_chain := (w_chain w3)(vc \<mapsto> value_chain f p 2 (sy_junk_chain (nt_sys nt)))\<rparr>)"
    using set_iov_eq [of w3 vc _ "he_value e" "length (snd f)" 2] e(2,4) by (simp add: element_of_def value_chain_def)
  moreover have "mgr_room (w\<lparr>w_pool := pm\<rparr>) = mgr_room (w1\<lparr>w_pool := pm\<rparr>)" "mgr_next (w\<lparr>w_pool := pm\<rparr>) = mgr_next (w1\<lparr>w_pool := pm\<rparr>)"
    by (rule mgr_cong; simp add: w1_def)+
  ultimately show ?thesis
    using s1 pm ne s3 e(1) by (intro exI [of _ pm]) (simp add: w3_def w1_def)
qed


definition field_small :: "field \<Rightarrow> bool" where
  "field_small f \<longleftrightarrow> length (fst f) < 32 \<and> length (snd f) < 1000000000"

lemma slots_no_older: "unat a < p \<Longrightarrow> p + k * e < 2 ^ 64 \<Longrightarrow> a \<notin> set (slots p e k)"
  using slots_above by fastforce

lemma slots_distinct: "0 < e \<Longrightarrow> p + k * e < 2 ^ 64 \<Longrightarrow> distinct (slots p e k)"
proof (induction k arbitrary: p)
  case (Suc k)
  have "unat (word_of_nat p :: u64) = p" using Suc.prems(2) by (intro unat_of_nat64) simp
  then have "word_of_nat p \<notin> set (slots (p + e) e k)"
    using Suc.prems by (intro slots_no_older) (simp_all add: algebra_simps)
  then show ?case using Suc by (simp add: algebra_simps)
qed simp

lemma mgr_room_limit: "mgr_room w ma e j \<Longrightarrow> mgr_next w ma + j * e < 2 ^ 64"
proof -
  assume "mgr_room w ma e j"
  then obtain mg i where mg: "w_mgr w ma = Some mg" "pool_room mg (mg, w_pool w) i" "unat (pm_one_element_size mg) = e" "j \<le> i"
    by (auto simp: mgr_room_def split: option.splits)
  have "j * e \<le> i * e" using mg(4) by (intro mult_le_mono1) simp
  moreover have "tail_next mg (w_pool w) + i * e \<le> tail_limit mg (w_pool w)" "tail_limit mg (w_pool w) < 2 ^ 64"
    using lp.room_limit [OF mg(2)] lp.limit_word [OF mg(2)] mg(3) by simp_all
  ultimately have "tail_next mg (w_pool w) + j * e < 2 ^ 64" by linarith
  then show ?thesis using mg(1) by (simp add: mgr_next_def)
qed

lemma element_chains_ok:
  assumes "elems_at (w_elem w) as fps" "as \<noteq> []" "distinct as" "\<forall>(f, p) \<in> set fps. field_small f"
    and "chain_at w cur = Some c" "unat cur < mgr_next w ma" "mgr_room w ma 40 (2 * length as - 1)"
  shows "\<exists>pm cm cs. element_chains nt ma (List.last as) (hd as) cur n w =
      Some (Some (n + 2 * int (length as), w\<lparr>w_pool := pm, w_chain := cm\<rparr>)) \<and>
    chain_path cm cur cs (ch_next (sy_junk_chain (nt_sys nt))) \<and> map chain_iov cs = field_iovs fps \<and>
    map fst cs = cur # slots (mgr_next w ma) 40 (2 * length as - 1) \<and>
    (\<forall>a. a \<noteq> cur \<and> unat a < mgr_next w ma \<longrightarrow> cm a = w_chain w a) \<and>
    pool_kept (mgr_tail w ma) (w_pool w) pm"
  using assms
proof (induction as arbitrary: fps cur c w n)
  case (Cons a as)
  obtain f p fps' where fps: "fps = (f, p) # fps'" using Cons.prems(1) by (cases fps) auto
  obtain e where e: "elem_at w a = Some e" "element_of f p e" "as \<noteq> [] \<longrightarrow> he_next e = hd as" "elems_at (w_elem w) as fps'"
    using Cons.prems(1) by (auto simp: fps elem_at_def)
  have small: "length (fst f) < 32" "length (snd f) < 1000000000" using Cons.prems(4) by (auto simp: fps field_small_def)
  define vc :: u64 where "vc = word_of_nat (mgr_next w ma)"
  let ?j = "sy_junk_chain (nt_sys nt)"
  have room: "mgr_room w ma 40 (Suc (2 * length as))" using Cons.prems(7) by simp
  note st = element_step [OF e(1,2) small Cons.prems(5,6) room vc_def, of nt]
  obtain pm where pm: "do {
        e \<leftarrow> elem_at w a;
        w1 \<leftarrow> set_iov cur (he_key e) 2 w;
        (value_chain, w2) \<leftarrow> chain_alloc (nt_sys nt) ma w1;
        w3 \<leftarrow> chain_set cur (ch_next_update (\<lambda>_. value_chain)) w2;
        w4 \<leftarrow> set_iov value_chain (he_value e) 2 w3;
        Some (he_next e, value_chain, w4)
      } = Some (he_next e, vc, w\<lparr>w_pool := pm, w_chain := (w_chain w)(cur \<mapsto> key_chain f p vc c, vc \<mapsto> value_chain f p 2 ?j)\<rparr>)"
    "mgr_room (w\<lparr>w_pool := pm\<rparr>) ma 40 (2 * length as)" "mgr_next (w\<lparr>w_pool := pm\<rparr>) ma = mgr_next w ma + 40"
    "vc \<noteq> 0" "vc \<noteq> cur" "unat vc = mgr_next w ma" "pool_kept (mgr_tail w ma) (w_pool w) pm"
    using st by blast
  have cur: "cur \<noteq> 0" using Cons.prems(5) by (auto simp: chain_at_def)
  show ?case
  proof (cases "as = []")
    case True
    then have fps': "fps' = []" using e(4) by (cases fps') auto
    let ?cm = "(w_chain w)(cur \<mapsto> key_chain f p vc c, vc \<mapsto> value_chain f p 4 ?j)"
    have "ch_iov_len (value_chain f p 2 ?j) + 2 = word_of_nat (length (snd f) + 4)"
      by (simp add: value_chain_def)
    then have four: "value_chain f p 2 ?j\<lparr>ch_iov_len := ch_iov_len (value_chain f p 2 ?j) + 2\<rparr> = value_chain f p 4 ?j"
      by (simp add: value_chain_def)
    have "element_chains nt ma (List.last (a # as)) (hd (a # as)) cur n w = Some (Some (n + 2, w\<lparr>w_pool := pm, w_chain := ?cm\<rparr>))"
      using pm(4) True four unfolding element_chains.simps [of nt ma _ _ cur n w]
      by (simp only: pm(1) list.sel(1) last.simps True if_True option.case prod.case) (simp add: chain_set_def chain_at_def)
    moreover have "chain_path ?cm cur [(cur, key_chain f p vc c), (vc, value_chain f p 4 ?j)] (ch_next ?j)"
      using pm(4,5) cur by (simp add: key_chain_def value_chain_def)
    moreover have "?cm b = w_chain w b" if "b \<noteq> cur" "unat b < mgr_next w ma" for b
      using that pm(6) by auto
    moreover have "map chain_iov [(cur, key_chain f p vc c), (vc, value_chain f p 4 ?j)] = field_iovs fps"
      by (simp add: fps fps' chain_iov_def key_chain_def value_chain_def)
    moreover have "map fst [(cur, key_chain f p vc c), (vc, value_chain f p 4 ?j)] = cur # slots (mgr_next w ma) 40 (2 * length (a # as) - 1)"
      by (simp add: True vc_def)
    moreover have "n + 2 * int (length (a # as)) = n + 2" using True by simp
    ultimately show ?thesis using pm(7) by metis
  next
    case False
    then obtain x fps'' where fps': "fps' = x # fps''" using e(4) by (cases as; cases fps') auto
    define w4 where "w4 = w\<lparr>w_pool := pm, w_chain := (w_chain w)(cur \<mapsto> key_chain f p vc c, vc \<mapsto> value_chain f p 2 ?j)\<rparr>"
    define nc :: u64 where "nc = word_of_nat (mgr_next w ma + 40)"
    obtain k where k: "2 * length as = Suc k" "k = 2 * length as - 1" using False by (cases "2 * length as") auto
    have r4: "mgr_room w4 ma 40 (Suc k)" "mgr_next w4 ma = mgr_next w ma + 40"
      using pm(2,3) k(1) by (simp_all add: w4_def)
    obtain pm5 where pm5: "chain_alloc (nt_sys nt) ma w4 = Some (nc, w4\<lparr>w_pool := pm5, w_chain := (w_chain w4)(nc \<mapsto> ?j)\<rparr>)"
        "mgr_room (w4\<lparr>w_pool := pm5\<rparr>) ma 40 k" "mgr_next (w4\<lparr>w_pool := pm5\<rparr>) ma = mgr_next w ma + 40 + 40"
        "unat nc = mgr_next w ma + 40" "nc \<noteq> 0" "pool_kept (mgr_tail w4 ma) (w_pool w4) pm5"
      using chain_alloc_ok [OF r4(1), of "nt_sys nt"] unfolding r4(2) nc_def by blast
    have ne: "nc \<noteq> vc" "nc \<noteq> cur" using pm5(4) pm(6) Cons.prems(6) by auto
    define w6 where "w6 = w\<lparr>w_pool := pm5, w_chain := (w_chain w)(cur \<mapsto> key_chain f p vc c,
      vc \<mapsto> value_chain f p 2 ?j\<lparr>ch_next := nc\<rparr>, nc \<mapsto> ?j)\<rparr>"
    have s6: "chain_set vc (ch_next_update (\<lambda>_. nc)) (w4\<lparr>w_pool := pm5, w_chain := (w_chain w4)(nc \<mapsto> ?j)\<rparr>) = Some w6"
      using ne pm(4) by (simp add: chain_set_def chain_at_def w4_def w6_def fun_upd_twist)
    have last: "List.last (a # as) = List.last as" "a \<noteq> List.last as"
      using Cons.prems(3) False by (auto dest: last_in_set)
    have step: "element_chains nt ma (List.last (a # as)) (hd (a # as)) cur n w = element_chains nt ma (List.last as) (hd as) nc (n + 2) w6"
      using last e(3) False unfolding element_chains.simps [of nt ma _ _ cur n w]
      by (simp only: pm(1) list.sel(1) option.case prod.case w4_def [symmetric] last(1) if_False) (simp add: pm5(1) s6)
    have w6: "elems_at (w_elem w6) as fps'" "chain_at w6 nc = Some ?j" "unat nc < mgr_next w6 ma" "mgr_room w6 ma 40 (2 * length as - 1)"
        "mgr_next w6 ma = mgr_next w ma + 80" "mgr_tail w6 = mgr_tail w"
    proof -
      have c: "mgr_room w6 = mgr_room (w4\<lparr>w_pool := pm5\<rparr>)" "mgr_next w6 = mgr_next (w4\<lparr>w_pool := pm5\<rparr>)"
        by (rule mgr_cong; simp add: w6_def w4_def)+
      show "elems_at (w_elem w6) as fps'" "chain_at w6 nc = Some ?j" "mgr_tail w6 = mgr_tail w"
        using e(4) pm5(5) by (simp_all add: w6_def chain_at_def)
      show "unat nc < mgr_next w6 ma" "mgr_room w6 ma 40 (2 * length as - 1)" "mgr_next w6 ma = mgr_next w ma + 80"
        unfolding c using pm5(2-4) k(2) by simp_all
    qed
    have pre: "distinct as" "\<forall>(f, p) \<in> set fps'. field_small f" using Cons.prems(3,4) by (simp_all add: fps)
    obtain pm' cm cs where IH: "element_chains nt ma (List.last as) (hd as) nc (n + 2) w6 =
        Some (Some (n + 2 + 2 * int (length as), w6\<lparr>w_pool := pm', w_chain := cm\<rparr>))"
      "chain_path cm nc cs (ch_next ?j)" "map chain_iov cs = field_iovs fps'" "map fst cs = nc # slots (mgr_next w ma + 80) 40 (2 * length as - 1)"
      "\<forall>b. b \<noteq> nc \<and> unat b < mgr_next w ma + 80 \<longrightarrow> cm b = w_chain w6 b" "pool_kept (mgr_tail w ma) (w_pool w6) pm'"
      using Cons.IH [OF w6(1) False pre w6(2,3,4), of "n + 2"] unfolding w6(5,6) by (elim exE conjE) (rule that; assumption)
    let ?cs = "(cur, key_chain f p vc c) # (vc, value_chain f p 2 ?j\<lparr>ch_next := nc\<rparr>) # cs"
    have at: "cm cur = Some (key_chain f p vc c)" "cm vc = Some (value_chain f p 2 ?j\<lparr>ch_next := nc\<rparr>)"
      using IH(5) ne pm(5,6) Cons.prems(6) by (auto simp: w6_def)
    have "chain_path cm cur ?cs (ch_next ?j)"
      using at IH(2) cur pm(4) by (simp add: key_chain_def)
    moreover have "map chain_iov ?cs = field_iovs fps"
      using IH(3) by (simp add: fps fps' chain_iov_def key_chain_def value_chain_def)
    moreover have "map fst ?cs = cur # slots (mgr_next w ma) 40 (2 * length (a # as) - 1)"
    proof -
      have "2 * length (a # as) - 1 = Suc (Suc k)" using k(1) by simp
      then show ?thesis using IH(4) unfolding k(2) [symmetric] by (simp add: vc_def nc_def add.assoc)
    qed
    moreover have "cm b = w_chain w b" if "b \<noteq> cur" "unat b < mgr_next w ma" for b
    proof -
      have "b \<noteq> nc" "b \<noteq> vc" using that pm5(4) pm(6) by auto
      then show ?thesis using IH(5) that by (simp add: w6_def)
    qed
    moreover have "pool_kept (mgr_tail w ma) (w_pool w) pm'"
      using pool_kept_trans [OF pool_kept_trans [OF pm(7)], of pm5 pm'] IH(6) pm5(6) by (simp add: w6_def w4_def)
    moreover have "w6\<lparr>w_pool := pm', w_chain := cm\<rparr> = w\<lparr>w_pool := pm', w_chain := cm\<rparr>" by (simp add: w6_def)
    ultimately show ?thesis
      using step IH(1) by (intro exI [of _ pm'] exI [of _ cm] exI [of _ ?cs]) simp
  qed
qed simp

section \<open>Chains of a request\<close>

lemma link_chain:
  assumes room: "mgr_room w ma 40 (Suc j)" and c: "chain_at w a = Some c" "unat a < mgr_next w ma"
    and x: "x = word_of_nat (mgr_next w ma)"
  shows "\<exists>pm w1. chain_alloc sy ma w = Some (x, w1) \<and>
    chain_set a (ch_next_update (\<lambda>_. x)) w1 =
      Some (w\<lparr>w_pool := pm, w_chain := (w_chain w)(a \<mapsto> c\<lparr>ch_next := x\<rparr>, x \<mapsto> sy_junk_chain sy)\<rparr>) \<and>
    mgr_room (w\<lparr>w_pool := pm\<rparr>) ma 40 j \<and> mgr_next (w\<lparr>w_pool := pm\<rparr>) ma = mgr_next w ma + 40 \<and>
    x \<noteq> 0 \<and> x \<noteq> a \<and> unat x = mgr_next w ma \<and> pool_kept (mgr_tail w ma) (w_pool w) pm"
proof -
  obtain pm where pm: "chain_alloc sy ma w = Some (x, w\<lparr>w_pool := pm, w_chain := (w_chain w)(x \<mapsto> sy_junk_chain sy)\<rparr>)"
      "mgr_room (w\<lparr>w_pool := pm\<rparr>) ma 40 j" "mgr_next (w\<lparr>w_pool := pm\<rparr>) ma = mgr_next w ma + 40"
      "unat x = mgr_next w ma" "x \<noteq> 0" "pool_kept (mgr_tail w ma) (w_pool w) pm"
    using chain_alloc_ok [OF room, of sy] unfolding x by blast
  have ne: "x \<noteq> a" "a \<noteq> 0" using pm(4) c by (auto simp: chain_at_def)
  then have "chain_set a (ch_next_update (\<lambda>_. x)) (w\<lparr>w_pool := pm, w_chain := (w_chain w)(x \<mapsto> sy_junk_chain sy)\<rparr>) =
      Some (w\<lparr>w_pool := pm, w_chain := (w_chain w)(a \<mapsto> c\<lparr>ch_next := x\<rparr>, x \<mapsto> sy_junk_chain sy)\<rparr>)"
    using c(1) by (simp add: chain_set_def chain_at_def fun_upd_twist)
  with pm ne show ?thesis by metis
qed

text \<open>A chain for \<open>n\<close> bytes from \<open>p\<close>.\<close>

definition iov_chain :: "int \<Rightarrow> nat \<Rightarrow> u64 \<Rightarrow> lt_chain \<Rightarrow> lt_chain" where
  "iov_chain p n nx c = c\<lparr>ch_iov_base := p, ch_iov_len := word_of_nat n, ch_next := nx\<rparr>"

lemma request_line_chains_ok:
  assumes room: "mgr_room w ma 40 (Suc (Suc (Suc j)))"
    and len: "str_length (rq_method_name q) = int lm" "str_length (rq_uri q) = int lu" "str_length (rq_http_protocol q) = int lp"
      "lm < 1000000000" "lu < 1000000000" "lp < 1000000000"
    and a: "am = word_of_nat (mgr_next w ma)" "au = word_of_nat (mgr_next w ma + 40)" "ap = word_of_nat (mgr_next w ma + 80)"
  shows "\<exists>pm. request_line_chains nt ma q w = Some (am, ap, w\<lparr>w_pool := pm, w_chain := (w_chain w)(
      am \<mapsto> iov_chain (str_data (rq_method_name q)) (lm + 1) au (sy_junk_chain (nt_sys nt)),
      au \<mapsto> iov_chain (str_data (rq_uri q)) (lu + 1) ap (sy_junk_chain (nt_sys nt)),
      ap \<mapsto> iov_chain (str_data (rq_http_protocol q)) (lp + 2) (ch_next (sy_junk_chain (nt_sys nt))) (sy_junk_chain (nt_sys nt)))\<rparr>) \<and>
    mgr_room (w\<lparr>w_pool := pm\<rparr>) ma 40 j \<and> mgr_next (w\<lparr>w_pool := pm\<rparr>) ma = mgr_next w ma + 120 \<and>
    unat am = mgr_next w ma \<and> unat au = mgr_next w ma + 40 \<and> unat ap = mgr_next w ma + 80 \<and>
    am \<noteq> 0 \<and> au \<noteq> 0 \<and> ap \<noteq> 0 \<and> pool_kept (mgr_tail w ma) (w_pool w) pm"
proof -
  let ?j = "sy_junk_chain (nt_sys nt)"
  obtain p1 where p1: "chain_alloc (nt_sys nt) ma w = Some (am, w\<lparr>w_pool := p1, w_chain := (w_chain w)(am \<mapsto> ?j)\<rparr>)"
      "mgr_room (w\<lparr>w_pool := p1\<rparr>) ma 40 (Suc (Suc j))" "mgr_next (w\<lparr>w_pool := p1\<rparr>) ma = mgr_next w ma + 40"
      "unat am = mgr_next w ma" "am \<noteq> 0" "pool_kept (mgr_tail w ma) (w_pool w) p1"
    using chain_alloc_ok [OF room, of "nt_sys nt"] unfolding a by blast
  define mc where "mc = ?j\<lparr>ch_iov_base := str_data (rq_method_name q), ch_iov_len := word_of_nat (lm + 1)\<rparr>"
  define w2 where "w2 = w\<lparr>w_pool := p1, w_chain := (w_chain w)(am \<mapsto> mc)\<rparr>"
  have s2: "set_iov am (rq_method_name q) 1 (w\<lparr>w_pool := p1, w_chain := (w_chain w)(am \<mapsto> ?j)\<rparr>) = Some w2"
    using set_iov_eq [of "w\<lparr>w_pool := p1, w_chain := (w_chain w)(am \<mapsto> ?j)\<rparr>" am ?j "rq_method_name q" lm 1] p1(5) len
    by (simp add: chain_at_def w2_def mc_def)
  have r2: "mgr_room w2 ma 40 (Suc (Suc j))" "mgr_next w2 ma = mgr_next w ma + 40" "chain_at w2 am = Some mc" "unat am < mgr_next w2 ma"
      "mgr_tail w2 = mgr_tail w"
    using p1(2-5) by (simp_all add: w2_def chain_at_def)
  obtain p2 w3 where p2: "chain_alloc (nt_sys nt) ma w2 = Some (au, w3)"
      "chain_set am (ch_next_update (\<lambda>_. au)) w3 = Some (w2\<lparr>w_pool := p2, w_chain := (w_chain w2)(am \<mapsto> mc\<lparr>ch_next := au\<rparr>, au \<mapsto> ?j)\<rparr>)"
      "mgr_room (w2\<lparr>w_pool := p2\<rparr>) ma 40 (Suc j)" "mgr_next (w2\<lparr>w_pool := p2\<rparr>) ma = mgr_next w ma + 40 + 40"
      "au \<noteq> 0" "au \<noteq> am" "unat au = mgr_next w ma + 40" "pool_kept (mgr_tail w ma) p1 p2"
    using link_chain [OF r2(1,3,4), of au "nt_sys nt"] a(2) r2(5) unfolding r2(2) by (auto simp: w2_def)
  define uc where "uc = ?j\<lparr>ch_iov_base := str_data (rq_uri q), ch_iov_len := word_of_nat (lu + 1)\<rparr>"
  define w5 where "w5 = w\<lparr>w_pool := p2, w_chain := (w_chain w)(am \<mapsto> mc\<lparr>ch_next := au\<rparr>, au \<mapsto> uc)\<rparr>"
  have s5: "set_iov au (rq_uri q) 1 (w2\<lparr>w_pool := p2, w_chain := (w_chain w2)(am \<mapsto> mc\<lparr>ch_next := au\<rparr>, au \<mapsto> ?j)\<rparr>) = Some w5"
    using set_iov_eq [of "w2\<lparr>w_pool := p2, w_chain := (w_chain w2)(am \<mapsto> mc\<lparr>ch_next := au\<rparr>, au \<mapsto> ?j)\<rparr>" au ?j "rq_uri q" lu 1] p2(5) len
    by (simp add: chain_at_def w2_def w5_def uc_def)
  have r5: "mgr_room w5 = mgr_room (w2\<lparr>w_pool := p2\<rparr>)" "mgr_next w5 = mgr_next (w2\<lparr>w_pool := p2\<rparr>)"
    by (rule mgr_cong; simp add: w5_def w2_def)+
  have r5: "mgr_room w5 ma 40 (Suc j)" "mgr_next w5 ma = mgr_next w ma + 80" "chain_at w5 au = Some uc" "unat au < mgr_next w5 ma"
      "mgr_tail w5 = mgr_tail w"
    using r5 p2(3-5,7) by (simp_all add: w5_def chain_at_def)
  obtain p3 w6 where p3: "chain_alloc (nt_sys nt) ma w5 = Some (ap, w6)"
      "chain_set au (ch_next_update (\<lambda>_. ap)) w6 = Some (w5\<lparr>w_pool := p3, w_chain := (w_chain w5)(au \<mapsto> uc\<lparr>ch_next := ap\<rparr>, ap \<mapsto> ?j)\<rparr>)"
      "mgr_room (w5\<lparr>w_pool := p3\<rparr>) ma 40 j" "mgr_next (w5\<lparr>w_pool := p3\<rparr>) ma = mgr_next w ma + 80 + 40"
      "ap \<noteq> 0" "ap \<noteq> au" "unat ap = mgr_next w ma + 80" "pool_kept (mgr_tail w ma) p2 p3"
    using link_chain [OF r5(1,3,4), of ap "nt_sys nt"] a(3) r5(5) unfolding r5(2) by (auto simp: w5_def)
  have ne: "ap \<noteq> am" using p3(7) p1(4) by auto
  let ?w7 = "w5\<lparr>w_pool := p3, w_chain := (w_chain w5)(au \<mapsto> uc\<lparr>ch_next := ap\<rparr>, ap \<mapsto> ?j)\<rparr>"
  have s8: "set_iov ap (rq_http_protocol q) 2 ?w7 = Some (?w7\<lparr>w_chain := (w_chain ?w7)(ap \<mapsto>
      ?j\<lparr>ch_iov_base := str_data (rq_http_protocol q), ch_iov_len := word_of_nat (lp + 2)\<rparr>)\<rparr>)"
    using set_iov_eq [of ?w7 ap ?j "rq_http_protocol q" lp 2] p3(5) len by (simp add: chain_at_def)
  have room3: "mgr_room (w5\<lparr>w_pool := p3\<rparr>) = mgr_room (w\<lparr>w_pool := p3\<rparr>)" "mgr_next (w5\<lparr>w_pool := p3\<rparr>) = mgr_next (w\<lparr>w_pool := p3\<rparr>)"
    by (rule mgr_cong; simp add: w5_def)+
  have kept: "pool_kept (mgr_tail w ma) (w_pool w) p3" using pool_kept_trans p1(6) p2(8) p3(8) by blast
  have eq: "?w7\<lparr>w_chain := (w_chain ?w7)(ap \<mapsto>
      ?j\<lparr>ch_iov_base := str_data (rq_http_protocol q), ch_iov_len := word_of_nat (lp + 2)\<rparr>)\<rparr> = w\<lparr>w_pool := p3, w_chain := (w_chain w)(
      am \<mapsto> iov_chain (str_data (rq_method_name q)) (lm + 1) au ?j,
      au \<mapsto> iov_chain (str_data (rq_uri q)) (lu + 1) ap ?j,
      ap \<mapsto> iov_chain (str_data (rq_http_protocol q)) (lp + 2) (ch_next ?j) ?j)\<rparr>"
    using p2(6) p3(6) ne by (simp add: w5_def iov_chain_def mc_def uc_def fun_upd_twist)
  have "request_line_chains nt ma q w = Some (am, ap, ?w7\<lparr>w_chain := (w_chain ?w7)(ap \<mapsto>
      ?j\<lparr>ch_iov_base := str_data (rq_http_protocol q), ch_iov_len := word_of_nat (lp + 2)\<rparr>)\<rparr>)"
    unfolding request_line_chains_def by (simp only: p1(1) s2 p2(1,2) s5 p3(1,2) s8 bind.bind_lunit prod.case)
  then show ?thesis
    unfolding eq using p1(4,5) p2(5,7) p3(3-5,7) kept room3 by (intro exI [of _ p3]) simp
qed


lemma mgr_room_le: "mgr_room w ma e j \<Longrightarrow> i \<le> j \<Longrightarrow> mgr_room w ma e i"
  by (auto simp: mgr_room_def split: option.splits) (metis le_trans)

text \<open>The manager at \<open>ma\<close> owns one block: the one \<open>aligned_alloc\<close> gave.\<close>

definition own_block :: "u64 \<Rightarrow> u64 \<Rightarrow> u64 \<Rightarrow> lt_memory_pool_manager \<Rightarrow> pool_mem \<Rightarrow> bool" where
  "own_block blk e n mg m \<longleftrightarrow> blk \<noteq> 0 \<and> pm_head mg = blk \<and> pm_tail mg = blk \<and>
     (\<exists>h. m blk = Some h \<and> mp_next h = 0 \<and> mp_start h = blk \<and> mp_end h = blk + (sizeof_pool_manager + n * e))"

lemma own_block_kept: "own_block blk e n mg m \<Longrightarrow> pool_kept blk m m' \<Longrightarrow> own_block blk e n mg m'"
  using pool_kept_header [of blk m m'] by (fastforce simp: own_block_def)

lemma mgr_new_ok:
  assumes "pool_args (os_aligned_alloc (sy_os sy)) ma e n (w_pool w)"
    and "blk = os_aligned_alloc (sy_os sy) (w_pool w) (sizeof_pool_manager + n * e)"
  shows "\<exists>mg pm. mgr_new sy ma e n w = Some (w\<lparr>w_mgr := (w_mgr w)(ma \<mapsto> mg), w_pool := pm\<rparr>) \<and>
    mgr_room (w\<lparr>w_mgr := (w_mgr w)(ma \<mapsto> mg), w_pool := pm\<rparr>) ma (unat e) (unat n) \<and>
    mgr_next (w\<lparr>w_mgr := (w_mgr w)(ma \<mapsto> mg), w_pool := pm\<rparr>) ma = unat blk + 40 \<and>
    mgr_tail (w\<lparr>w_mgr := (w_mgr w)(ma \<mapsto> mg), w_pool := pm\<rparr>) ma = blk \<and>
    own_block blk e n mg pm \<and> (\<forall>t. t \<noteq> blk \<longrightarrow> pm t = w_pool w t)"
proof -
  obtain mg pm where m: "lt_new_memory_pool_manager (os_aligned_alloc (sy_os sy)) 0 ma
        (case w_mgr w ma of None \<Rightarrow> zero_manager | Some mg \<Rightarrow> mg) e n (w_pool w) = Some (ma, mg, pm)"
      "pool_room mg (mg, pm) (unat n)" "pm_head mg = pm_tail mg" "pm_one_element_size mg = e" "pm_tail mg = blk"
      "tail_next mg pm = unat blk + 40" "\<forall>t. t \<noteq> blk \<longrightarrow> pm t = w_pool w t"
      "\<exists>h. pm blk = Some h \<and> mp_next h = 0 \<and> mp_start h = blk \<and> mp_end h = blk + (sizeof_pool_manager + n * e)"
    using new_manager_room [OF assms(1), of 0 "case w_mgr w ma of None \<Rightarrow> zero_manager | Some mg \<Rightarrow> mg"] unfolding assms(2)
    by metis
  have "blk \<noteq> 0" "ma \<noteq> 0" using assms by (simp_all add: pool_args_def)
  with m show ?thesis
    by (intro exI [of _ mg] exI [of _ pm])
      (auto simp: mgr_new_def mgr_room_def mgr_next_def mgr_tail_def own_block_def)
qed

text \<open>The bytes of the vector of a request.\<close>

definition request_iovs :: "request \<Rightarrow> nat \<Rightarrow> nat \<Rightarrow> nat \<Rightarrow> (field \<times> int) list \<Rightarrow> (int \<times> u64) list" where
  "request_iovs q lm lu lp fps = (str_data (rq_method_name q), word_of_nat (lm + 1)) #
     (str_data (rq_uri q), word_of_nat (lu + 1)) # (str_data (rq_http_protocol q), word_of_nat (lp + 2)) # field_iovs fps"

lemma iov_len_small:
  assumes "n < 2000000000"
  shows "unat (2 + word_of_nat n :: u64) < 2147483648" "unat (4 + word_of_nat n :: u64) < 2147483648"
proof -
  have "unat (word_of_nat (n + 2) :: u64) = n + 2" "unat (word_of_nat (n + 4) :: u64) = n + 4"
    using assms by (intro unat_of_nat64; simp)+
  then show "unat (2 + word_of_nat n :: u64) < 2147483648" "unat (4 + word_of_nat n :: u64) < 2147483648"
    using assms by (simp_all add: add.commute)
qed

lemma field_iovs_small: "\<forall>(f, p) \<in> set fps. field_small f \<Longrightarrow> (p, l) \<in> set (field_iovs fps) \<Longrightarrow> unat l < 2147483648"
proof (induction fps rule: field_iovs.induct)
  case (2 f p)
  then show ?case by (auto simp: field_small_def iov_len_small add.commute [of "word_of_nat _" "numeral _"])
next
  case (3 f p x xs)
  then show ?case by (auto simp: field_small_def iov_len_small add.commute [of "word_of_nat _" "numeral _"])
qed simp

lemma elems_at_hd: "elems_at m as fps \<Longrightarrow> as \<noteq> [] \<Longrightarrow> hd as \<noteq> 0"
  by (cases "(m, as, fps)" rule: elems_at.cases) auto

lemma construct_request_ok:
  assumes args: "pool_args (os_aligned_alloc (sy_os (nt_sys nt))) (chain_pool req) sizeof_chain CHAIN_POOL_LENGTH (w_pool w)"
    and blk: "blk = os_aligned_alloc (sy_os (nt_sys nt)) (w_pool w) (sizeof_pool_manager + CHAIN_POOL_LENGTH * sizeof_chain)"
    and r: "req_at w req = Some r"
    and len: "str_length (rq_method_name (hr_req r)) = int lm" "str_length (rq_uri (hr_req r)) = int lu"
      "str_length (rq_http_protocol (hr_req r)) = int lp" "lm < 1000000000" "lu < 1000000000" "lp < 1000000000"
    and els: "elems_at (w_elem w) as fps" "as \<noteq> []" "distinct as" "\<forall>(f, p) \<in> set fps. field_small f" "length as \<le> 14"
      "hr_element_head r = hd as" "hr_element_tail r = List.last as"
    and junk: "ch_next (sy_junk_chain (nt_sys nt)) = 0"
  shows "\<exists>out mg pm cm cs. http_construct_request_chains nt req w =
      Some (Some (out, w\<lparr>w_mgr := (w_mgr w)(chain_pool req \<mapsto> mg), w_pool := pm, w_chain := cm\<rparr>)) \<and>
    sendable (w\<lparr>w_mgr := (w_mgr w)(chain_pool req \<mapsto> mg), w_pool := pm, w_chain := cm\<rparr>) out cs \<and>
    map chain_iov cs = request_iovs (hr_req r) lm lu lp fps \<and>
    own_block blk sizeof_chain CHAIN_POOL_LENGTH mg pm \<and> (\<forall>t. t \<noteq> blk \<longrightarrow> pm t = w_pool w t)"
proof -
  let ?j = "sy_junk_chain (nt_sys nt)" and ?ma = "chain_pool req" and ?q = "hr_req r"
  define n where "n = unat blk + 40"
  obtain mg pm0 where m0: "mgr_new (nt_sys nt) ?ma sizeof_chain CHAIN_POOL_LENGTH w = Some (w\<lparr>w_mgr := (w_mgr w)(?ma \<mapsto> mg), w_pool := pm0\<rparr>)"
      "mgr_room (w\<lparr>w_mgr := (w_mgr w)(?ma \<mapsto> mg), w_pool := pm0\<rparr>) ?ma 40 32"
      "mgr_next (w\<lparr>w_mgr := (w_mgr w)(?ma \<mapsto> mg), w_pool := pm0\<rparr>) ?ma = n"
      "mgr_tail (w\<lparr>w_mgr := (w_mgr w)(?ma \<mapsto> mg), w_pool := pm0\<rparr>) ?ma = blk"
      "own_block blk sizeof_chain CHAIN_POOL_LENGTH mg pm0" "\<forall>t. t \<noteq> blk \<longrightarrow> pm0 t = w_pool w t"
    using mgr_new_ok [OF args blk] by (auto simp: sizeof_chain_def CHAIN_POOL_LENGTH_def n_def)
  define w0 where "w0 = w\<lparr>w_mgr := (w_mgr w)(?ma \<mapsto> mg), w_pool := pm0\<rparr>"
  note m0 = m0 [folded w0_def]
  have room0: "mgr_room w0 ?ma 40 (Suc (Suc (Suc 29)))" using m0(2) by simp
  define am :: u64 where "am = word_of_nat n"
  define au :: u64 where "au = word_of_nat (n + 40)"
  define ap :: u64 where "ap = word_of_nat (n + 80)"
  define af :: u64 where "af = word_of_nat (n + 120)"
  obtain pm1 where l1: "request_line_chains nt ?ma ?q w0 = Some (am, ap, w0\<lparr>w_pool := pm1, w_chain := (w_chain w0)(
      am \<mapsto> iov_chain (str_data (rq_method_name ?q)) (lm + 1) au ?j,
      au \<mapsto> iov_chain (str_data (rq_uri ?q)) (lu + 1) ap ?j,
      ap \<mapsto> iov_chain (str_data (rq_http_protocol ?q)) (lp + 2) 0 ?j)\<rparr>)"
      "mgr_room (w0\<lparr>w_pool := pm1\<rparr>) ?ma 40 29" "mgr_next (w0\<lparr>w_pool := pm1\<rparr>) ?ma = n + 120"
      "unat am = n" "unat au = n + 40" "unat ap = n + 80" "am \<noteq> 0" "au \<noteq> 0" "ap \<noteq> 0" "pool_kept blk pm0 pm1"
    using request_line_chains_ok [where nt = nt, OF room0 len, unfolded m0(3,4) junk, OF am_def au_def ap_def]
    by (elim exE conjE) (rule that; simp add: w0_def)
  define w2 where "w2 = w0\<lparr>w_pool := pm1, w_chain := (w_chain w0)(
      am \<mapsto> iov_chain (str_data (rq_method_name ?q)) (lm + 1) au ?j,
      au \<mapsto> iov_chain (str_data (rq_uri ?q)) (lu + 1) ap ?j,
      ap \<mapsto> iov_chain (str_data (rq_http_protocol ?q)) (lp + 2) 0 ?j)\<rparr>"
  have r2: "mgr_room w2 ?ma 40 (Suc 28)" "mgr_next w2 ?ma = n + 120" "mgr_tail w2 ?ma = blk" "unat ap < mgr_next w2 ?ma"
      "chain_at w2 ap = Some (iov_chain (str_data (rq_http_protocol ?q)) (lp + 2) 0 ?j)"
    using l1(2,3,6,9) m0(4) by (simp_all add: w2_def chain_at_def)
  obtain pm3 w3 where l3: "chain_alloc (nt_sys nt) ?ma w2 = Some (af, w3)"
      "chain_set ap (ch_next_update (\<lambda>_. af)) w3 = Some (w2\<lparr>w_pool := pm3,
         w_chain := (w_chain w2)(ap \<mapsto> iov_chain (str_data (rq_http_protocol ?q)) (lp + 2) af ?j, af \<mapsto> ?j)\<rparr>)"
      "mgr_room (w2\<lparr>w_pool := pm3\<rparr>) ?ma 40 28" "mgr_next (w2\<lparr>w_pool := pm3\<rparr>) ?ma = n + 120 + 40"
      "af \<noteq> 0" "unat af = n + 120" "pool_kept blk pm1 pm3"
    using link_chain [OF r2(1,5,4), unfolded r2(2,3), OF af_def, of "nt_sys nt"]
    by (elim exE conjE) (rule that; simp add: iov_chain_def w2_def)
  define w4 where "w4 = w2\<lparr>w_pool := pm3,
         w_chain := (w_chain w2)(ap \<mapsto> iov_chain (str_data (rq_http_protocol ?q)) (lp + 2) af ?j, af \<mapsto> ?j)\<rparr>"
  have c4: "mgr_room w4 = mgr_room (w2\<lparr>w_pool := pm3\<rparr>)" "mgr_next w4 = mgr_next (w2\<lparr>w_pool := pm3\<rparr>)"
    by (rule mgr_cong; simp add: w4_def)+
  have room4: "mgr_room (w2\<lparr>w_pool := pm3\<rparr>) ?ma 40 (2 * length as - 1)"
    using l3(3) by (rule mgr_room_le) (use els(5) in simp)
  have r4: "mgr_room w4 ?ma 40 (2 * length as - 1)" "mgr_next w4 ?ma = n + 160" "mgr_tail w4 ?ma = blk" "unat af < mgr_next w4 ?ma"
      "chain_at w4 af = Some ?j" "elems_at (w_elem w4) as fps"
    unfolding c4 using room4 l3(4-6) r2(3) els(1) by (simp_all add: w4_def w2_def w0_def chain_at_def)
  obtain pm cm cs where ch: "element_chains nt ?ma (List.last as) (hd as) af 3 w4 =
        Some (Some (3 + 2 * int (length as), w4\<lparr>w_pool := pm, w_chain := cm\<rparr>))"
      "chain_path cm af cs 0" "map chain_iov cs = field_iovs fps" "map fst cs = af # slots (n + 160) 40 (2 * length as - 1)"
      "\<forall>a. a \<noteq> af \<and> unat a < n + 160 \<longrightarrow> cm a = w_chain w4 a" "pool_kept blk (w_pool w4) pm"
    using element_chains_ok [OF r4(6) els(2-4) r4(5,4,1), of nt 3] unfolding r4(2,3) junk by (elim exE conjE) (rule that; assumption)
  let ?mc = "iov_chain (str_data (rq_method_name ?q)) (lm + 1) au ?j" and ?uc = "iov_chain (str_data (rq_uri ?q)) (lu + 1) ap ?j"
    and ?pc = "iov_chain (str_data (rq_http_protocol ?q)) (lp + 2) af ?j"
  define mc where "mc = ?mc\<lparr>ch_chain_len := 3 + 2 * int (length as)\<rparr>"
  define cs' where "cs' = (am, mc) # (au, ?uc) # (ap, ?pc) # cs"
  have ne: "am \<noteq> af" "au \<noteq> af" "ap \<noteq> af" "am \<noteq> au" "am \<noteq> ap" "au \<noteq> ap" using l1(4-6) l3(6) by auto
  have cm: "cm am = Some ?mc" "cm au = Some ?uc" "cm ap = Some ?pc"
    using ch(5) ne l1(4-6) by (simp_all add: w4_def w2_def)
  have lim: "n + 160 + (2 * length as - 1) * 40 < 2 ^ 64" using mgr_room_limit [OF r4(1)] r4(2) by simp
  have old: "a \<notin> set (slots (n + 160) 40 (2 * length as - 1))" if "unat a < n + 160" for a
    using slots_no_older [OF that lim] .
  have dist: "distinct (map fst cs')"
    using ne old l1(4-6) l3(6) slots_distinct [OF _ lim] by (simp add: cs'_def ch(4))
  have "am \<notin> fst ` set cs" using dist by (simp add: cs'_def)
  then have path: "chain_path (cm(am \<mapsto> mc)) am cs' 0"
    using cm ne l1(7-9) ch(2) by (simp add: cs'_def chain_path_update) (simp add: mc_def iov_chain_def)
  have iovs: "map chain_iov cs' = request_iovs ?q lm lu lp fps"
    using ch(3) by (simp add: cs'_def request_iovs_def chain_iov_def mc_def iov_chain_def)
  have small: "unat (ch_iov_len c) < 2147483648" if "(x, c) \<in> set cs'" for x c
  proof -
    have "chain_iov (x, c) \<in> set (request_iovs ?q lm lu lp fps)" using that unfolding iovs [symmetric] by simp
    then show ?thesis
      using field_iovs_small [OF els(4)] len(4-6) unat_of_nat64 [of "lm + 1"] unat_of_nat64 [of "lu + 1"] unat_of_nat64 [of "lp + 2"]
      by (auto simp: request_iovs_def chain_iov_def)
  qed
  let ?w = "w\<lparr>w_mgr := (w_mgr w)(?ma \<mapsto> mg), w_pool := pm, w_chain := cm(am \<mapsto> mc)\<rparr>"
  have set: "chain_set am (ch_chain_len_update (\<lambda>_. 3 + 2 * int (length as))) (w4\<lparr>w_pool := pm, w_chain := cm\<rparr>) = Some ?w"
    using cm(1) l1(7) by (simp add: chain_set_def chain_at_def mc_def w4_def w2_def w0_def)
  have "length cs = 2 * length as" using arg_cong [OF ch(4), of length] els(2) by (cases as) simp_all
  then have "cs' \<noteq> []" "ch_chain_len (snd (hd cs')) = int (length cs')" by (simp_all add: cs'_def mc_def)
  then have "sendable ?w am cs'"
    using path dist small by (auto simp: sendable_def)
  moreover have "req_at w0 req = Some r" using r by (simp add: req_at_def w0_def split: if_splits)
  then have "http_construct_request_chains nt req w = Some (Some (am, ?w))"
    unfolding http_construct_request_chains_def
    using m0(1) l1(1) [folded w2_def] l3(1) l3(2) [folded w4_def] ch(1) set els(6,7) elems_at_hd [OF els(1,2)] by simp
  moreover have "pool_kept blk pm0 pm"
    using pool_kept_trans [OF pool_kept_trans [OF l1(10) l3(7)]] ch(6) by (simp add: w4_def)
  then have "own_block blk sizeof_chain CHAIN_POOL_LENGTH mg pm" "\<forall>t. t \<noteq> blk \<longrightarrow> pm t = w_pool w t"
    using own_block_kept [OF m0(5)] m0(6) by (auto simp: pool_kept_def)
  ultimately show ?thesis using iovs by blast
qed

section \<open>The bytes of a request\<close>

lemma stored_bytes: "stored mem p cs \<Longrightarrow> bytes mem p (length cs) = cs"
  by (auto simp: bytes_def stored_nth intro: nth_equalityI)

lemma iov_bytes_stored:
  assumes "stored mem p cs" "n = length cs" "n < 2 ^ 64"
  shows "iov_bytes mem (p, word_of_nat n) = cs"
  using stored_bytes [OF assms(1)] assms(2) unat_of_nat64 [OF assms(3)] by (simp add: iov_bytes_def)

lemma field_iovs_lower: "field_iovs (field_starts p (map lower_field fs)) = field_iovs (field_starts p fs)"
proof (induction p fs rule: field_starts.induct)
  case (2 p f fs)
  then show ?case by (cases fs) (simp_all add: lower_field_def field_line_def)
qed simp

lemma field_small_lower: "field_small (lower_field f) = field_small f"
  by (simp add: field_small_def lower_field_def)

lemma field_iovs_bytes:
  assumes "fs \<noteq> []" "\<forall>f \<in> set fs. field_small f" "stored mem p (header_text fs @ [CR, LF])"
  shows "concat (map (iov_bytes mem) (field_iovs (field_starts p fs))) = header_text fs @ [CR, LF]"
  using assms
proof (induction p fs rule: field_starts.induct)
  case (2 p f fs)
  have sm: "length (fst f) + 2 < 2 ^ 64" "length (snd f) + 2 < 2 ^ 64" "length (snd f) + 4 < 2 ^ 64"
    using 2(3) by (simp_all add: field_small_def)
  have st: "stored mem p (fst f @ '': '')" "stored mem (p + int (length (fst f)) + 2) (snd f @ [CR, LF])"
      "stored mem (p + int (length (field_line f))) (header_text fs @ [CR, LF])"
    using 2(4) by (simp_all add: header_text_def field_line_def stored_append algebra_simps)
  have key: "iov_bytes mem (p, word_of_nat (length (fst f) + 2)) = fst f @ '': ''"
    by (rule iov_bytes_stored [OF st(1) _ sm(1)]) simp
  show ?case
  proof (cases fs)
    case Nil
    have "stored mem (p + int (length (fst f)) + 2) (snd f @ [CR, LF, CR, LF])"
      using st(2,3) by (simp add: Nil header_text_def field_line_def stored_append algebra_simps)
    then have "iov_bytes mem (p + int (length (fst f)) + 2, word_of_nat (length (snd f) + 4)) = snd f @ [CR, LF, CR, LF]"
      by (rule iov_bytes_stored [OF _ _ sm(3)]) simp
    with key show ?thesis by (simp add: Nil header_text_def field_line_def del: of_nat_add)
  next
    case (Cons g gs)
    have "iov_bytes mem (p + int (length (fst f)) + 2, word_of_nat (length (snd f) + 2)) = snd f @ [CR, LF]"
      by (rule iov_bytes_stored [OF st(2) _ sm(2)]) simp
    with key 2(1) 2(3) st(3) show ?thesis by (simp add: Cons header_text_def field_line_def del: of_nat_add)
  qed
qed simp

lemma elems_at_length: "elems_at m as (field_starts p fs) \<Longrightarrow> length as = length fs"
proof (induction p fs arbitrary: as rule: field_starts.induct)
  case (1 p)
  then show ?case by (cases as) simp_all
next
  case (2 p f fs)
  then show ?case by (cases as) auto
qed

lemma field_starts_set: "(f, x) \<in> set (field_starts p fs) \<Longrightarrow> f \<in> set fs"
  by (induction p fs rule: field_starts.induct) auto

end
