(* ===== verification/Forward_Request.thy ===== *)
theory Forward_Request
  imports Http_Forward
begin

text \<open>
  A request from the client's buffer to the upstream connection: the request line, the header fields, the chains that point into
  the buffer, and the one \<open>writev\<close> that sends them. The property of this theory is the composition of the parsers, the
  pools, the chains and the event loop that the proxy is for.
\<close>

section \<open>Sending a request\<close>

definition mod_event :: "32 word \<Rightarrow> u64 \<Rightarrow> u64 \<Rightarrow> event \<Rightarrow> event" where
  "mod_event fl cb arg e = e\<lparr>ev_min_heap_idx := - 1, ev_flag := fl, ev_callback := cb, ev_arg := arg\<rparr>"

definition mod_call :: "'a lea_scheme \<Rightarrow> event \<Rightarrow> 32 word \<Rightarrow> u64 \<Rightarrow> ep_call" where
  "mod_call w e fl ev = \<lparr>ec_epfd = bs_epfd w, ec_op = EPOLL_CTL_MOD, ec_fd = ev_fd e, ec_events = ep_mask fl, ec_ptr = ev\<rparr>"

lemma io_mod_ok:
  assumes "ev_at (w_ev w) ev = Some e"
  shows "lt_io_mod os now w ev fl cb arg NO_TIMEOUT =
    Some (ev, w\<lparr>w_ev := (w_ev w)(ev \<mapsto> mod_event fl cb arg e), w_calls := w_calls w @ [mod_call w e fl ev]\<rparr>)"
  using assms
  by (auto simp: lt_io_mod_def set_timeout_def NO_TIMEOUT_def ev_set_def ev_at_def lt_mod_to_epfd_def lt_epoll_ctl_def
      mod_event_def mod_call_def split: if_splits)

lemma destructor_ok:
  assumes "w_mgr w (chain_pool req) = Some mg" "own_block blk e n mg (w_pool w)"
  shows "\<exists>cm. destructor_chains req w = Some (w\<lparr>w_pool := (w_pool w)(blk := None), w_chain := cm\<rparr>)"
  using assms by (auto simp: destructor_chains_def own_block_def lt_destroy_memory_pool_def destroy_loop_eq pool_at_def)

lemma send_to_upstream_ok:
  assumes r: "req_at w req = Some r"
    and c: "conn_at w (hr_conn r) = Some c" and p: "conn_at w (cn_pair c) = Some p" and ne: "cn_pair c \<noteq> hr_conn r"
    and ev: "ev_at (w_ev w) (cn_ev c) \<noteq> None" "ev_at (w_ev w) (cn_ev p) = Some e"
    and mg: "w_mgr w (chain_pool req) = Some mg" "own_block blk sz n mg (w_pool w)"
    and snd: "sendable w (hr_out_chain r) cs" "chain_bytes (w_mem w) cs \<noteq> []"
      "fst (sy_writev (nt_sys nt) (w_out w) (cn_fd p) (map (iov_bytes (w_mem w) \<circ> chain_iov) cs)) = int (length (chain_bytes (w_mem w) cs))"
  shows "\<exists>cm. http_send_to_upstream nt req w = Some (Some (w\<lparr>
      w_ev := (w_ev w)(cn_ev p \<mapsto> mod_event (LV_FDRD OR LV_CONN) cb_proxy_data_coming (cn_pair c) e),
      w_pool := (w_pool w)(blk := None), w_calls := w_calls w @ [mod_call w e (LV_FDRD OR LV_CONN) (cn_ev p)],
      w_chain := cm, w_out := w_out w @ [(cn_fd p, chain_bytes (w_mem w) cs)],
      w_conn := (w_conn w)(hr_conn r \<mapsto> c\<lparr>cn_status := L_CONNECTING_ACCEPTED\<rparr>,
        cn_pair c \<mapsto> p\<lparr>cn_status := L_PROXY_WAITING_RESPONSE\<rparr>)\<rparr>))"
proof -
  obtain errno where wv: "sy_writev (nt_sys nt) (w_out w) (cn_fd p) (map (iov_bytes (w_mem w) \<circ> chain_iov) cs) =
      (int (length (chain_bytes (w_mem w) cs)), errno)"
    using snd(3) by (metis prod.collapse)
  obtain m' where m': "send_chains (nt_sys nt) (cn_fd p) (hr_out_chain r) w = Some (Some (LOK, hr_out_chain r,
      w\<lparr>w_out := w_out w @ [(cn_fd p, chain_bytes (w_mem w) cs)], w_chain := m'\<rparr>))"
    using send_chains_all [OF snd(1) wv snd(2)] by blast
  have nz: "hr_conn r \<noteq> 0" "cn_pair c \<noteq> 0" using c p by (auto simp: conn_at_def split: if_splits)
  define w1 where "w1 = w\<lparr>w_chain := m', w_out := w_out w @ [(cn_fd p, chain_bytes (w_mem w) cs)],
    w_conn := (w_conn w)(hr_conn r \<mapsto> c\<lparr>cn_status := L_CONNECTING_ACCEPTED\<rparr>, cn_pair c \<mapsto> p\<lparr>cn_status := L_PROXY_WAITING_RESPONSE\<rparr>)\<rparr>"
  have mg1: "w_mgr w1 (chain_pool req) = Some mg" "own_block blk sz n mg (w_pool w1)" using mg by (simp_all add: w1_def)
  obtain cm where d: "destructor_chains req w1 = Some (w1\<lparr>w_pool := (w_pool w1)(blk := None), w_chain := cm\<rparr>)"
    using destructor_ok [OF mg1] by blast
  obtain ec where ec: "ev_at (w_ev w) (cn_ev c) = Some ec" using ev(1) by blast
  let ?w2 = "w1\<lparr>w_pool := (w_pool w1)(blk := None), w_chain := cm\<rparr>"
  have e2: "ev_at (w_ev ?w2) (cn_ev p) = Some e" using ev(2) by (simp add: w1_def)
  let ?ws = "w\<lparr>w_out := w_out w @ [(cn_fd p, chain_bytes (w_mem w) cs)], w_chain := m'\<rparr>"
  let ?wa = "?ws\<lparr>w_conn := (w_conn w)(hr_conn r \<mapsto> c\<lparr>cn_status := L_CONNECTING_ACCEPTED\<rparr>)\<rparr>"
  have set1: "conn_set (hr_conn r) (cn_status_update (\<lambda>_. L_CONNECTING_ACCEPTED)) ?ws = Some ?wa"
    using c nz by (simp add: conn_set_def conn_at_def)
  have set2: "conn_set (cn_pair c) (cn_status_update (\<lambda>_. L_PROXY_WAITING_RESPONSE)) ?wa = Some w1"
    using p ne nz by (simp add: conn_set_def conn_at_def w1_def)
  have at2: "conn_at ?w2 (cn_pair c) = Some (p\<lparr>cn_status := L_PROXY_WAITING_RESPONSE\<rparr>)" using nz by (simp add: conn_at_def w1_def)
  have "http_send_to_upstream nt req w = Some (Some (?w2\<lparr>
      w_ev := (w_ev ?w2)(cn_ev p \<mapsto> mod_event (LV_FDRD OR LV_CONN) cb_proxy_data_coming (cn_pair c) e),
      w_calls := w_calls ?w2 @ [mod_call ?w2 e (LV_FDRD OR LV_CONN) (cn_ev p)]\<rparr>))"
    unfolding http_send_to_upstream_def using m' r c p ec set1 set2 d at2 io_mod_ok [OF e2] by simp
  then show ?thesis by (intro exI [of _ cm]) (simp add: w1_def mod_call_def)
qed

section \<open>Forwarding a request\<close>

definition line_text :: "string \<Rightarrow> string \<Rightarrow> char \<Rightarrow> char \<Rightarrow> string" where
  "line_text name t M N = name @ '' /'' @ t @ '' HTTP/'' @ [M, CHR ''.'', N, CR, LF]"

definition request_text :: "string \<Rightarrow> string \<Rightarrow> char \<Rightarrow> char \<Rightarrow> field list \<Rightarrow> string" where
  "request_text name t M N fs = line_text name t M N @ header_text fs @ [CR, LF]"

definition good_line :: "string \<Rightarrow> string \<Rightarrow> char \<Rightarrow> char \<Rightarrow> bool" where
  "good_line name t M N \<longleftrightarrow> name \<noteq> [] \<and> (\<forall>c \<in> set name. \<not> not_method_char c) \<and> (\<forall>c \<in> set t. uri_char c) \<and> plain_uri True t \<and>
     is_digit M \<and> M \<noteq> CHR ''0'' \<and> is_digit N \<and> length name < 500000000 \<and> length t < 500000000"

text \<open>The strings of the request line.\<close>

definition line_strings :: "int \<Rightarrow> nat \<Rightarrow> nat \<Rightarrow> request \<Rightarrow> bool" where
  "line_strings p ln lt q \<longleftrightarrow> str_data (rq_method_name q) = p \<and> str_length (rq_method_name q) = int ln \<and>
     str_data (rq_uri q) = p + int ln + 1 \<and> str_length (rq_uri q) = int (lt + 1) \<and>
     str_data (rq_http_protocol q) = p + int (ln + lt) + 3 \<and> str_length (rq_http_protocol q) = int 8"

lemma line_parsed_strings:
  assumes "rq_request_start q = p" "rq_method_end q = p + int ln - 1" "rq_uri_start q = p + int ln + 1"
    "rq_uri_end q = p + int (ln + lt) + 2" "str_data (rq_http_protocol q) = p + int (ln + lt) + 3"
    "rq_request_end q = p + int (ln + lt) + 11" "rq_complex_uri q = 0" "rq_quoted_uri q = 0" "ln < 500000000" "lt < 500000000"
  shows "line_strings p ln lt (http_request_line_parsed q pos) \<and> rq_state (http_request_line_parsed q pos) = rq_state q \<and>
    rq_lowcase_header (http_request_line_parsed q pos) = rq_lowcase_header q"
  using assms by (simp add: line_strings_def http_request_line_parsed_def Let_def i32_id)

lemma line_strings_same: "same_line q q' \<Longrightarrow> line_strings p ln lt q' = line_strings p ln lt q"
  by (simp add: same_line_def line_strings_def request_line.defs)

lemma parse_request_ok:
  assumes r: "req_at w req = Some r" and b: "buf_at w (hr_header_in r) = Some b"
    and line: "good_line name t M N" "stored (w_mem w) (bf_pos b) (line_text name t M N)"
      "bf_pos b + int (length (line_text name t M N)) \<le> bf_last b"
    and fresh: "rq_state (hr_req r) = 0" "0 < bf_pos b" "rq_complex_uri (hr_req r) = 0" "rq_quoted_uri (hr_req r) = 0"
  shows "\<exists>q. parse_request req w = Some (LOK, w\<lparr>w_req := (w_req w)(req \<mapsto> r\<lparr>hr_req := q\<rparr>),
      w_buf := (w_buf w)(hr_header_in r \<mapsto> b\<lparr>bf_pos := bf_pos b + int (length (line_text name t M N))\<rparr>)\<rparr>) \<and>
    line_strings (bf_pos b) (length name) (length t) q \<and> rq_state q = 0 \<and> rq_lowcase_header q = rq_lowcase_header (hr_req r)"
proof -
  let ?b = "\<lparr>b_pos = bf_pos b, b_last = bf_last b\<rparr>"
  have len: "length (line_text name t M N) = length name + length t + 13" by (simp add: line_text_def)
  have g: "name \<noteq> []" "\<forall>c \<in> set name. \<not> not_method_char c" "\<forall>c \<in> set t. uri_char c" "plain_uri True t"
      "is_digit M" "M \<noteq> CHR ''0''" "is_digit N" "length name < 500000000" "length t < 500000000"
    using line(1) by (simp_all add: good_line_def)
  obtain q where q: "ngx_http_parse_request_line (w_mem w) (hr_req r) ?b =
        Some (LOK, q, ?b\<lparr>b_pos := b_pos ?b + int (length name + length t) + 13\<rparr>)"
      "same_but_shape ((hr_req r)\<lparr>rq_request_start := b_pos ?b, rq_method_end := b_pos ?b + int (length name) - 1,
       rq_method := method_of name (rq_method (hr_req r)),
       rq_uri_start := b_pos ?b + int (length name) + 1,
       rq_uri_end := b_pos ?b + int (length name + length t) + 2,
       rq_http_protocol := (rq_http_protocol (hr_req r))\<lparr>str_data := b_pos ?b + int (length name + length t) + 3\<rparr>,
       rq_http_major := schar M - 48, rq_http_minor := schar N - 48,
       rq_http_version := (schar M - 48) * 1000 + (schar N - 48),
       rq_request_end := b_pos ?b + int (length name + length t) + 11\<rparr>) q"
      "rq_complex_uri q = 0" "rq_quoted_uri q = 0"
    using request_line_ok [of "w_mem w" ?b name t M N "hr_req r"] line g fresh len by (auto simp: line_text_def)
  have "line_strings (bf_pos b) (length name) (length t) (http_request_line_parsed q pos) \<and>
      rq_state (http_request_line_parsed q pos) = rq_state q \<and>
      rq_lowcase_header (http_request_line_parsed q pos) = rq_lowcase_header q" for pos
    by (rule line_parsed_strings) (use q(2-4) g(8,9) in \<open>auto simp: same_but_shape_def\<close>)
  moreover have "rq_state q = 0" "rq_lowcase_header q = rq_lowcase_header (hr_req r)"
    using q(2) fresh(1) by (auto simp: same_but_shape_def)
  ultimately show ?thesis
    using r b q(1) by (auto simp: parse_request_def len algebra_simps)
qed

lemma request_bytes:
  assumes q: "line_strings p (length name) (length t) q" and small: "length name < 500000000" "length t < 500000000"
    and st: "stored mem p (request_text name t M N fs)" "fs \<noteq> []" "\<forall>f \<in> set fs. field_small f"
  shows "concat (map (iov_bytes mem) (request_iovs q (length name) (length t + 1) 8
    (field_starts (p + int (length (line_text name t M N))) fs))) = request_text name t M N fs"
proof -
  have parts: "stored mem p (name @ '' '')" "stored mem (p + int (length name) + 1) (''/'' @ t @ '' '')"
      "stored mem (p + int (length name + length t) + 3) (''HTTP/'' @ [M, CHR ''.'', N, CR, LF])"
      "stored mem (p + int (length (line_text name t M N))) (header_text fs @ [CR, LF])"
    using st(1) by (simp_all add: request_text_def line_text_def stored_append algebra_simps)
  have "iov_bytes mem (p, word_of_nat (length name + 1)) = name @ '' ''"
    by (rule iov_bytes_stored [OF parts(1)]) (use small in simp_all)
  moreover have "iov_bytes mem (p + int (length name) + 1, word_of_nat (length t + 1 + 1)) = ''/'' @ t @ '' ''"
    by (rule iov_bytes_stored [OF parts(2)]) (use small in simp_all)
  moreover have "iov_bytes mem (p + int (length name + length t) + 3, word_of_nat (8 + 2)) = ''HTTP/'' @ [M, CHR ''.'', N, CR, LF]"
    by (rule iov_bytes_stored [OF parts(3)]) simp_all
  ultimately show ?thesis
    using q field_iovs_bytes [OF st(2,3) parts(4)]
    by (simp add: request_iovs_def line_strings_def request_text_def line_text_def del: of_nat_add)
qed

text \<open>
  What the forwarding of a request relies on: the client connection \<open>c\<close> and its pair \<open>p\<close>, the events of both, room for the header
  elements, an allocator that gives a fresh block for the chains, and a \<open>writev\<close> that takes everything.
\<close>

definition forwarding :: "net \<Rightarrow> 'a web_scheme \<Rightarrow> u64 \<Rightarrow> http_request \<Rightarrow> connection \<Rightarrow> connection \<Rightarrow> event \<Rightarrow> nat \<Rightarrow> bool" where
  "forwarding nt w req r c p e n \<longleftrightarrow> conn_at w (hr_conn r) = Some c \<and> conn_at w (cn_pair c) = Some p \<and> cn_pair c \<noteq> hr_conn r \<and>
     ev_at (w_ev w) (cn_ev c) \<noteq> None \<and> ev_at (w_ev w) (cn_ev p) = Some e \<and> mgr_room w (header_pool req) 88 n \<and>
     (\<forall>pm. pool_kept (mgr_tail w (header_pool req)) (w_pool w) pm \<longrightarrow>
        pool_args (os_aligned_alloc (sy_os (nt_sys nt))) (chain_pool req) sizeof_chain CHAIN_POOL_LENGTH pm) \<and>
     ch_next (sy_junk_chain (nt_sys nt)) = 0 \<and>
     (\<forall>vs. fst (sy_writev (nt_sys nt) (w_out w) (cn_fd p) vs) = int (length (concat vs)))"

definition good_header :: "'a web_scheme \<Rightarrow> field list \<Rightarrow> bool" where
  "good_header w fs \<longleftrightarrow> fs \<noteq> [] \<and> length fs \<le> 14 \<and> (\<forall>f \<in> set fs. good_field f \<and> (word_of_int (field_hash f) :: 32 word) \<noteq> w_HostHash w)"

text \<open>What has changed when the request has been sent on.\<close>

definition forwarded :: "'a web_scheme \<Rightarrow> http_request \<Rightarrow> connection \<Rightarrow> connection \<Rightarrow> event \<Rightarrow> string \<Rightarrow> 'a web_scheme \<Rightarrow> bool" where
  "forwarded w r c p e text w' \<longleftrightarrow> w_out w' = w_out w @ [(cn_fd p, text)] \<and>
     w_conn w' = (w_conn w)(hr_conn r \<mapsto> c\<lparr>cn_status := L_CONNECTING_ACCEPTED\<rparr>, cn_pair c \<mapsto> p\<lparr>cn_status := L_PROXY_WAITING_RESPONSE\<rparr>) \<and>
     w_ev w' = (w_ev w)(cn_ev p \<mapsto> mod_event (LV_FDRD OR LV_CONN) cb_proxy_data_coming (cn_pair c) e)"

text \<open>The chains come from a block of their own that is given back: of the pools only the one of the header elements is another afterwards.\<close>

definition left_pools :: "u64 \<Rightarrow> 'a bufs_scheme \<Rightarrow> 'a bufs_scheme \<Rightarrow> bool" where
  "left_pools req w w' \<longleftrightarrow> pool_kept (mgr_tail w (header_pool req)) (w_pool w) (w_pool w') \<and>
     (\<forall>a. a \<noteq> chain_pool req \<longrightarrow> w_mgr w' a = w_mgr w a) \<and> w_in w' = w_in w"

text \<open>The parsed request is made into chains and sent.\<close>

lemma send_request_ok:
  assumes r: "req_at w req = Some r" and q: "line_strings p0 (length name) (length t) (hr_req r)" "length name < 500000000" "length t < 500000000"
    and els: "elems_at (w_elem w) as (field_starts h fs)" "distinct as" "hr_element_head r = hd as" "hr_element_tail r = List.last as"
    and fs: "fs \<noteq> []" "length fs \<le> 14" "\<forall>f \<in> set fs. field_small f" and h: "h = p0 + int (length (line_text name t M N))"
    and tx: "stored (w_mem w) p0 (request_text name t M N (map lower_field fs))"
    and c: "conn_at w (hr_conn r) = Some c" "conn_at w (cn_pair c) = Some p" "cn_pair c \<noteq> hr_conn r"
    and ev: "ev_at (w_ev w) (cn_ev c) \<noteq> None" "ev_at (w_ev w) (cn_ev p) = Some e"
    and args: "pool_args (os_aligned_alloc (sy_os (nt_sys nt))) (chain_pool req) sizeof_chain CHAIN_POOL_LENGTH (w_pool w)"
    and junk: "ch_next (sy_junk_chain (nt_sys nt)) = 0"
    and wv: "\<And>vs. fst (sy_writev (nt_sys nt) (w_out w) (cn_fd p) vs) = int (length (concat vs))"
  shows "\<exists>out w1 w2 w'. http_construct_request_chains nt req w = Some (Some (out, w1)) \<and>
    req_set req (hr_out_chain_update (\<lambda>_. out)) w1 = Some w2 \<and> http_send_to_upstream nt req w2 = Some (Some w') \<and>
    forwarded w r c p e (request_text name t M N (map lower_field fs)) w' \<and>
    w_buf w' = w_buf w \<and> w_req w' = (w_req w)(req \<mapsto> r\<lparr>hr_out_chain := out\<rparr>) \<and>
    w_pool w' = w_pool w \<and> (\<forall>a. a \<noteq> chain_pool req \<longrightarrow> w_mgr w' a = w_mgr w a) \<and> w_in w' = w_in w"
proof -
  let ?blk = "os_aligned_alloc (sy_os (nt_sys nt)) (w_pool w) (sizeof_pool_manager + CHAIN_POOL_LENGTH * sizeof_chain)"
  have free: "w_pool w ?blk = None" using args by (simp add: pool_args_def fresh_block_def)
  let ?text = "request_text name t M N (map lower_field fs)"
  have req: "req \<noteq> 0" using r by (auto simp: req_at_def)
  have as: "length as \<le> 14" "as \<noteq> []" using elems_at_length [OF els(1)] fs(1,2) by auto
  have len: "str_length (rq_method_name (hr_req r)) = int (length name)" "str_length (rq_uri (hr_req r)) = int (length t + 1)"
      "str_length (rq_http_protocol (hr_req r)) = int 8"
    using q(1) by (simp_all add: line_strings_def)
  have small: "\<forall>(f, x) \<in> set (field_starts h fs). field_small f" using field_starts_set fs(3) by fastforce
  obtain out mg pm cm cs where cc: "http_construct_request_chains nt req w =
        Some (Some (out, w\<lparr>w_mgr := (w_mgr w)(chain_pool req \<mapsto> mg), w_pool := pm, w_chain := cm\<rparr>))"
      "sendable (w\<lparr>w_mgr := (w_mgr w)(chain_pool req \<mapsto> mg), w_pool := pm, w_chain := cm\<rparr>) out cs"
      "map chain_iov cs = request_iovs (hr_req r) (length name) (length t + 1) 8 (field_starts h fs)"
      "own_block (os_aligned_alloc (sy_os (nt_sys nt)) (w_pool w) (sizeof_pool_manager + CHAIN_POOL_LENGTH * sizeof_chain))
         sizeof_chain CHAIN_POOL_LENGTH mg pm" "\<forall>t. t \<noteq> ?blk \<longrightarrow> pm t = w_pool w t"
    using construct_request_ok [OF args refl r len _ _ _ els(1) as(2) els(2) small as(1) els(3,4) junk] q(2,3) by auto
  define r2 where "r2 = r\<lparr>hr_out_chain := out\<rparr>"
  define w2 where "w2 = w\<lparr>w_mgr := (w_mgr w)(chain_pool req \<mapsto> mg), w_pool := pm, w_chain := cm, w_req := (w_req w)(req \<mapsto> r2)\<rparr>"
  have set2: "req_set req (hr_out_chain_update (\<lambda>_. out)) (w\<lparr>w_mgr := (w_mgr w)(chain_pool req \<mapsto> mg), w_pool := pm, w_chain := cm\<rparr>) = Some w2"
    using r req by (simp add: req_set_def req_at_def w2_def r2_def)
  have "concat (map (iov_bytes (w_mem w)) (request_iovs (hr_req r) (length name) (length t + 1) 8 (field_starts h (map lower_field fs)))) = ?text"
    unfolding h by (rule request_bytes [OF q tx]) (use fs(1,3) in \<open>auto simp: field_small_lower\<close>)
  then have "concat (map (iov_bytes (w_mem w)) (map chain_iov cs)) = ?text"
    unfolding cc(3) by (simp add: request_iovs_def field_iovs_lower)
  then have bytes: "chain_bytes (w_mem w2) cs = ?text" by (simp add: chain_bytes_def w2_def)
  have conn2: "conn_at w2 = conn_at w" by (simp add: fun_eq_iff conn_at_def w2_def)
  have c2: "req_at w2 req = Some r2" "conn_at w2 (hr_conn r2) = Some c" "conn_at w2 (cn_pair c) = Some p" "cn_pair c \<noteq> hr_conn r2"
      "ev_at (w_ev w2) (cn_ev c) \<noteq> None" "ev_at (w_ev w2) (cn_ev p) = Some e" "w_mgr w2 (chain_pool req) = Some mg"
      "sendable w2 (hr_out_chain r2) cs" "w_pool w2 = pm"
    using c ev req cc(2) by (simp_all add: conn2, simp_all add: w2_def r2_def req_at_def sendable_def)
  have ne: "chain_bytes (w_mem w2) cs \<noteq> []" unfolding bytes by (simp add: request_text_def)
  have wv2: "fst (sy_writev (nt_sys nt) (w_out w2) (cn_fd p) (map (iov_bytes (w_mem w2) \<circ> chain_iov) cs)) = int (length (chain_bytes (w_mem w2) cs))"
    using wv by (simp add: w2_def chain_bytes_def)
  obtain w' where w': "http_send_to_upstream nt req w2 = Some (Some w')" "w_req w' = w_req w2" "w_buf w' = w_buf w2"
      "forwarded w r c p e ?text w'" "w_pool w' = (w_pool w2)(?blk := None)" "w_mgr w' = w_mgr w2" "w_in w' = w_in w2"
    using send_to_upstream_ok [OF c2(1-7) _ c2(8) ne wv2] cc(4) unfolding c2(9) bytes
    by (fastforce simp: forwarded_def w2_def r2_def)
  have "w_pool w' = w_pool w" using w'(5) cc(5) free by (auto simp: w2_def fun_eq_iff)
  moreover have "\<forall>a. a \<noteq> chain_pool req \<longrightarrow> w_mgr w' a = w_mgr w a" "w_in w' = w_in w" using w'(6,7) by (simp_all add: w2_def)
  ultimately show ?thesis using cc(1) set2 w'(1-4) by (fastforce simp: w2_def r2_def)
qed

lemma forward_request_ok:
  assumes r: "req_at w req = Some r" and b: "buf_at w (hr_header_in r) = Some b"
    and q: "line_strings p0 (length name) (length t) (hr_req r)" "length name < 500000000" "length t < 500000000"
      "rq_state (hr_req r) = 0" "length (rq_lowcase_header (hr_req r)) = 32"
    and fs: "good_header w fs" and tx: "stored (w_mem w) p0 (request_text name t M N fs)"
      "bf_pos b = p0 + int (length (line_text name t M N))" "bf_pos b + int (length (header_text fs)) + 2 \<le> bf_last b"
    and fw: "forwarding nt w req r c p e (length fs)"
  shows "\<exists>w' r'. forward_request nt req w = Some (Some w') \<and> forwarded w r c p e (request_text name t M N (map lower_field fs)) w' \<and>
    w_buf w' = (w_buf w)(hr_header_in r \<mapsto> b\<lparr>bf_pos := bf_pos b + int (length (header_text fs)) + 2\<rparr>) \<and>
    w_req w' = (w_req w)(req \<mapsto> r') \<and> hr_header_in r' = hr_header_in r \<and> rq_state (hr_req r') = 0 \<and> left_pools req w w'"
proof -
  have fs': "fs \<noteq> []" "length fs \<le> 14" "\<forall>f \<in> set fs. good_field f" "\<forall>f \<in> set fs. (word_of_int (field_hash f) :: 32 word) \<noteq> w_HostHash w"
      "\<forall>f \<in> set fs. field_small f"
    using fs by (auto simp: good_header_def good_field_def field_small_def)
  have fw': "conn_at w (hr_conn r) = Some c" "conn_at w (cn_pair c) = Some p" "cn_pair c \<noteq> hr_conn r"
     "ev_at (w_ev w) (cn_ev c) \<noteq> None" "ev_at (w_ev w) (cn_ev p) = Some e" "mgr_room w (header_pool req) 88 (length fs)"
     "ch_next (sy_junk_chain (nt_sys nt)) = 0" "\<And>vs. fst (sy_writev (nt_sys nt) (w_out w) (cn_fd p) vs) = int (length (concat vs))"
    using fw by (simp_all add: forwarding_def)
  have st: "stored (w_mem w) (bf_pos b) (header_text fs @ [CR, LF])" "stored (w_mem w) p0 (line_text name t M N)"
    using tx(1,2) by (simp_all add: request_text_def stored_append)
  obtain pm mem q' em as where h: "http_process_request_headers nt req w = Some (Some (LOK,
        behind_headers req r b (int (length (header_text fs)) + 2) pm mem q' (if as = [] then 0 else hd as) (if as = [] then 0 else List.last as) em w))"
      "elems_at em as (field_starts (bf_pos b) fs)" "distinct as" "same_line (hr_req r) q'"
      "stored mem (bf_pos b) (header_text (map lower_field fs) @ [CR, LF])"
      "\<forall>a. a < bf_pos b \<or> bf_pos b + int (length (header_text fs)) \<le> a \<longrightarrow> mem a = w_mem w a"
      "pool_kept (mgr_tail w (header_pool req)) (w_pool w) pm"
    using request_headers_ok [OF r b fs'(3) st(1) tx(3) q(4,5) fw'(6) fs'(4), of nt] by (elim exE conjE) (rule that; assumption)
  have "as \<noteq> []" using elems_at_length [OF h(2)] fs'(1) by auto
  let ?n = "int (length (header_text fs)) + 2"
  define r1 where "r1 = r\<lparr>hr_req := q', hr_element_head := hd as, hr_element_tail := List.last as\<rparr>"
  define w1 where "w1 = w\<lparr>w_pool := pm, w_mem := mem, w_buf := (w_buf w)(hr_header_in r \<mapsto> b\<lparr>bf_pos := bf_pos b + ?n\<rparr>),
    w_req := (w_req w)(req \<mapsto> r1), w_elem := em\<rparr>"
  have w1: "behind_headers req r b ?n pm mem q' (if as = [] then 0 else hd as) (if as = [] then 0 else List.last as) em w = w1"
    using \<open>as \<noteq> []\<close> by (simp add: behind_headers_def w1_def r1_def)
  have conn1: "conn_at w1 = conn_at w" by (simp add: fun_eq_iff conn_at_def w1_def)
  have "stored mem p0 (line_text name t M N)" using st(2) by (rule stored_frame) (use h(6) tx(2) in simp)
  then have tx1: "stored (w_mem w1) p0 (request_text name t M N (map lower_field fs))"
    using h(5) tx(2) by (simp add: request_text_def stored_append w1_def)
  have args: "pool_args (os_aligned_alloc (sy_os (nt_sys nt))) (chain_pool req) sizeof_chain CHAIN_POOL_LENGTH (w_pool w1)"
    using fw h(7) by (simp add: forwarding_def w1_def)
  have q1: "line_strings p0 (length name) (length t) (hr_req r1)" "rq_state q' = 0"
    using line_strings_same [OF h(4)] same_line_state [OF h(4)] q(1,4) by (simp_all add: r1_def)
  have at1: "req_at w1 req = Some r1" "elems_at (w_elem w1) as (field_starts (bf_pos b) fs)" "hr_element_head r1 = hd as"
      "hr_element_tail r1 = List.last as" "conn_at w1 (hr_conn r1) = Some c" "conn_at w1 (cn_pair c) = Some p" "cn_pair c \<noteq> hr_conn r1"
      "ev_at (w_ev w1) (cn_ev c) \<noteq> None" "ev_at (w_ev w1) (cn_ev p) = Some e"
      "\<And>vs. fst (sy_writev (nt_sys nt) (w_out w1) (cn_fd p) vs) = int (length (concat vs))"
    using r h(2) fw' by (simp_all add: conn1, auto simp: w1_def r1_def req_at_def)
  obtain out wc w2 w' where s: "http_construct_request_chains nt req w1 = Some (Some (out, wc))"
      "req_set req (hr_out_chain_update (\<lambda>_. out)) wc = Some w2" "http_send_to_upstream nt req w2 = Some (Some w')"
      "forwarded w1 r1 c p e (request_text name t M N (map lower_field fs)) w'" "w_buf w' = w_buf w1"
      "w_req w' = (w_req w1)(req \<mapsto> r1\<lparr>hr_out_chain := out\<rparr>)"
      "w_pool w' = w_pool w1" "\<forall>a. a \<noteq> chain_pool req \<longrightarrow> w_mgr w' a = w_mgr w1 a" "w_in w' = w_in w1"
    using send_request_ok [OF at1(1) q1(1) q(2,3) at1(2) h(3) at1(3,4) fs'(1,2,5) tx(2) tx1 at1(5-9) args fw'(7) at1(10)] by blast
  have "forward_request nt req w = Some (Some w')"
    unfolding forward_request_def h(1) w1 using s(1-3) by simp
  moreover have "left_pools req w w'" using s(7-9) h(7) by (simp add: left_pools_def w1_def)
  ultimately show ?thesis
    using s(4-6) q1(2) by (intro exI [of _ w'] exI [of _ "r1\<lparr>hr_out_chain := out\<rparr>"]) (simp add: forwarded_def w1_def r1_def add.assoc)
qed

lemma parse_request_drained:
  assumes "req_at w req = Some r" "buf_at w (hr_header_in r) = Some b" "bf_pos b = bf_last b" "rq_state (hr_req r) = 0"
  shows "parse_request req w = Some (LAGAIN, w)"
proof -
  have [simp]: "(hr_req r)\<lparr>rq_state := 0\<rparr> = hr_req r" using assms(4) by (cases "hr_req r") simp
  have [simp]: "b\<lparr>bf_pos := bf_last b\<rparr> = b" using assms(3) by (cases b) simp
  have [simp]: "w\<lparr>w_req := (w_req w)(req \<mapsto> r), w_buf := (w_buf w)(hr_header_in r \<mapsto> b)\<rparr> = w"
    using assms(1,2) by (simp add: req_at_def buf_at_def fun_upd_idem split: if_splits)
  have "rl_code RL_start = 0" by simp
  then show ?thesis
    using assms by (simp add: parse_request_def ngx_http_parse_request_line_def rl_run.simps rc_defs)
qed

text \<open>The whole of it: the request line, the headers, the chains, the upstream connection, and the next request.\<close>

lemma process_request_ok:
  assumes r: "req_at w req = Some r" and b: "buf_at w (hr_header_in r) = Some b" "0 < bf_pos b"
    and line: "good_line name t M N" and fs: "good_header w fs"
    and tx: "stored (w_mem w) (bf_pos b) (request_text name t M N fs)" "bf_last b = bf_pos b + int (length (request_text name t M N fs))"
    and fresh: "rq_state (hr_req r) = 0" "rq_complex_uri (hr_req r) = 0" "rq_quoted_uri (hr_req r) = 0"
      "length (rq_lowcase_header (hr_req r)) = 32"
    and fw: "forwarding nt w req r c p e (length fs)"
  shows "\<exists>w'. http_process_request_line nt req w = Some (Some (LAGAIN, w')) \<and>
    forwarded w r c p e (request_text name t M N (map lower_field fs)) w' \<and>
    w_buf w' = (w_buf w)(hr_header_in r \<mapsto> b\<lparr>bf_pos := bf_last b\<rparr>) \<and> left_pools req w w'"
proof -
  let ?l = "int (length (line_text name t M N))"
  have st: "stored (w_mem w) (bf_pos b) (line_text name t M N)" "bf_pos b + ?l \<le> bf_last b"
    using tx by (simp_all add: request_text_def stored_append)
  have small: "length name < 500000000" "length t < 500000000" using line by (simp_all add: good_line_def)
  obtain q where q: "parse_request req w = Some (LOK, w\<lparr>w_req := (w_req w)(req \<mapsto> r\<lparr>hr_req := q\<rparr>),
      w_buf := (w_buf w)(hr_header_in r \<mapsto> b\<lparr>bf_pos := bf_pos b + ?l\<rparr>)\<rparr>)"
    "line_strings (bf_pos b) (length name) (length t) q" "rq_state q = 0" "rq_lowcase_header q = rq_lowcase_header (hr_req r)"
    using parse_request_ok [OF r b(1) line st fresh(1) b(2) fresh(2,3)] by blast
  define r1 where "r1 = r\<lparr>hr_req := q\<rparr>"
  define b1 where "b1 = b\<lparr>bf_pos := bf_pos b + ?l\<rparr>"
  define w1 where "w1 = w\<lparr>w_req := (w_req w)(req \<mapsto> r1), w_buf := (w_buf w)(hr_header_in r \<mapsto> b1)\<rparr>"
  have nz: "req \<noteq> 0" "hr_header_in r \<noteq> 0" using r b(1) by (auto simp: req_at_def buf_at_def)
  have at1: "req_at w1 req = Some r1" "buf_at w1 (hr_header_in r1) = Some b1" using nz by (simp_all add: w1_def r1_def req_at_def buf_at_def)
  have conn1: "conn_at w1 = conn_at w" by (simp add: fun_eq_iff conn_at_def w1_def)
  have fw1: "forwarding nt w1 req r1 c p e (length fs)" "good_header w1 fs"
    using fw fs by (simp_all add: forwarding_def good_header_def conn1, simp_all add: w1_def r1_def)
  have q1: "line_strings (bf_pos b) (length name) (length t) (hr_req r1)" "rq_state (hr_req r1) = 0" "length (rq_lowcase_header (hr_req r1)) = 32"
    using q fresh(4) by (simp_all add: r1_def)
  have tx1: "stored (w_mem w1) (bf_pos b) (request_text name t M N fs)" "bf_pos b1 = bf_pos b + ?l"
      "bf_pos b1 + int (length (header_text fs)) + 2 \<le> bf_last b1"
    using tx by (simp_all add: w1_def b1_def request_text_def)
  obtain w' r' where w': "forward_request nt req w1 = Some (Some w')" "forwarded w1 r1 c p e (request_text name t M N (map lower_field fs)) w'"
      "w_buf w' = (w_buf w1)(hr_header_in r1 \<mapsto> b1\<lparr>bf_pos := bf_pos b1 + int (length (header_text fs)) + 2\<rparr>)"
      "w_req w' = (w_req w1)(req \<mapsto> r')" "hr_header_in r' = hr_header_in r1" "rq_state (hr_req r') = 0" "left_pools req w1 w'"
    using forward_request_ok [OF at1 q1(1) small q1(2,3) fw1(2) tx1 fw1(1)] by blast
  have e: "bf_pos b1 + int (length (header_text fs)) + 2 = bf_last b" using tx(2) by (simp add: b1_def request_text_def)
  have buf': "w_buf w' = (w_buf w)(hr_header_in r \<mapsto> b\<lparr>bf_pos := bf_last b\<rparr>)"
    unfolding w'(3) e by (simp add: w1_def r1_def b1_def)
  have "parse_request req w' = Some (LAGAIN, w')"
    by (rule parse_request_drained [of _ _ r' "b\<lparr>bf_pos := bf_last b\<rparr>"])
      (use nz w'(4-6) buf' in \<open>simp_all add: req_at_def buf_at_def r1_def\<close>)
  then have "http_process_request_line nt req w' = Some (Some (LAGAIN, w'))"
    by (subst http_process_request_line.simps) (simp add: rc_defs)
  moreover have "http_process_request_line nt req w = http_process_request_line nt req w'"
    using q(1) w'(1) by (subst http_process_request_line.simps) (simp add: w1_def r1_def b1_def)
  moreover have "forwarded w r c p e (request_text name t M N (map lower_field fs)) w'"
    using w'(2) by (simp add: forwarded_def w1_def r1_def)
  moreover have "left_pools req w w'" using w'(7) by (simp add: left_pools_def mgr_tail_def w1_def)
  ultimately show ?thesis using buf' by auto
qed

text \<open>
  Claim C9: a well-formed request in the buffer (method, plain URI, protocol, one to fourteen header fields) is
  forwarded: the upstream connection gets exactly the bytes of the request, its header names in lower case, in one \<open>writev\<close>; the
  connections wait for the response and for the next request, the upstream event waits for data, and the buffer is used up.
\<close>

theorem request_forwarded:
  assumes "req_at w req = Some r" "buf_at w (hr_header_in r) = Some b" "0 < bf_pos b"
    and "good_line name t M N" "good_header w fs"
    and "stored (w_mem w) (bf_pos b) (request_text name t M N fs)" "bf_last b = bf_pos b + int (length (request_text name t M N fs))"
    and "rq_state (hr_req r) = 0" "rq_complex_uri (hr_req r) = 0" "rq_quoted_uri (hr_req r) = 0" "length (rq_lowcase_header (hr_req r)) = 32"
    and "forwarding nt w req r c p e (length fs)"
  shows "\<exists>w'. http_process_request_line nt req w = Some (Some (LAGAIN, w')) \<and>
    forwarded w r c p e (request_text name t M N (map lower_field fs)) w' \<and>
    w_buf w' = (w_buf w)(hr_header_in r \<mapsto> b\<lparr>bf_pos := bf_last b\<rparr>)"
  using process_request_ok [OF assms] by blast

definition demo_conn :: "int \<Rightarrow> u64 \<Rightarrow> u64 \<Rightarrow> connection" where
  "demo_conn fd ev pair = \<lparr>cn_fd = fd, cn_peer_addr_in = (2, 80, ''127.0.0.1''), cn_peer_addr_c = ''127.0.0.1'', cn_ev = ev,
     cn_request_free_head = 0, cn_request_free_tail = 0, cn_buf = 1048576, cn_buf_pool = 0, cn_buf_pool_manager = 304,
     cn_status = L_CONNECTING_ACCEPTED, cn_pair = pair, cn_timeout = 0, cn_close = 0\<rparr>"

definition demo_req :: http_request where
  "demo_req = \<lparr>hr_req = blank_request, hr_header_in = 1048576, hr_element_head = 7, hr_element_tail = 7, hr_conn = 16384,
     hr_out_chain = 7, hr_next = 7\<rparr>"

text \<open>A client and its upstream connection, a request of the client, and \<open>text\<close> in the buffer.\<close>

definition demo_web :: "string \<Rightarrow> web" where
  "demo_web s = bufs.extend (lea.extend (demo_lea\<lparr>w_ev := [600 \<mapsto> demo_event 0 0, 700 \<mapsto> demo_event 0 0],
       w_pool := [32768 \<mapsto> \<lparr>mp_start = 32768, mp_end = 34224, mp_pos = 32808, mp_next = 0, mp_manager = 25008\<rparr>]\<rparr>)
     (bufs.fields [25008 \<mapsto> \<lparr>pm_cur = 32768, pm_one_element_size = 88, pm_element_count = 16, pm_head = 32768,
         pm_tail = 32768, pm_heterogeneous_next = 0\<rparr>]
       (mem_of 1048576 s) [1048576 \<mapsto> (fresh_buffer 1048576 304)\<lparr>bf_last := 1048576 + int (length s)\<rparr>] Map.empty [] (\<lambda>_. []) (\<lambda>_. [])))
     (web.fields [16384 \<mapsto> demo_conn 6 600 20480, 20480 \<mapsto> demo_conn 7 700 16384] [24576 \<mapsto> demo_req] Map.empty 8192 3 512
       (BKDRhash (mem_of 0 ''Host'') 0 5))"

definition demo_net :: net where
  "demo_net = \<lparr>nt_sys = (demo_sys (1000, 0))\<lparr>sy_os := demo_os\<lparr>os_aligned_alloc := \<lambda>_ _. 65536\<rparr>, sy_writev := \<lambda>_ _ vs. (int (length (concat vs)), 0)\<rparr>, nt_junk_conn = demo_conn 0 0 0,
     nt_junk_req = demo_req, nt_junk_elem = \<lparr>he_hash = 7, he_length = 7, he_key = \<lparr>str_length = 7, str_data = 7, str_hash = 7\<rparr>,
       he_value = \<lparr>str_length = 7, str_data = 7, str_hash = 7\<rparr>, he_lowcase_key = \<lparr>str_length = 7, str_data = 7, str_hash = 7\<rparr>, he_next = 7\<rparr>,
     nt_socket = \<lambda>_. 9, nt_connect = \<lambda>_. (0, 0), nt_getsockopt = \<lambda>_. (0, 0), nt_somaxconn = 128\<rparr>"

lemmas demo_web_defs = demo_web_def demo_lea_def lea.defs bufs.defs web.defs

lemma demo_web_room: "mgr_room (demo_web s) 25008 88 16"
  unfolding mgr_room_def
  by (simp add: demo_web_defs pool_room_def well_sized_def tail_used_def pool_at_def) (rule exI [of _ 16], simp)

lemma demo_alloc_args:
  assumes "pool_kept 32768 (w_pool (demo_web s)) pm"
  shows "pool_args (\<lambda>_ _. 65536) 25056 sizeof_chain CHAIN_POOL_LENGTH pm"
proof -
  have other: "\<forall>t. t \<noteq> 32768 \<longrightarrow> pm t = None" using assms by (simp add: pool_kept_def demo_web_defs)
  have "w_pool (demo_web s) 32768 = Some \<lparr>mp_start = 32768, mp_end = 34224, mp_pos = 32808, mp_next = 0, mp_manager = 25008\<rparr>"
    by (simp add: demo_web_defs)
  then obtain h where "pm 32768 = Some h" "mp_end h = 34224"
    using pool_kept_header [OF assms] by fastforce
  then have "unat (mp_end hdr) \<le> 65536" if "pm a = Some hdr" for a hdr
    using other that by (cases "a = 32768") auto
  then show ?thesis
    using other by (simp add: pool_args_def fresh_block_def sizeof_chain_def CHAIN_POOL_LENGTH_def sizeof_pool_manager_def)
qed

lemma demo_forwarding:
  assumes "n \<le> 16"
  shows "forwarding demo_net (demo_web s) 24576 demo_req (demo_conn 6 600 20480) (demo_conn 7 700 16384) (demo_event 0 0) n"
proof -
  have "mgr_tail (demo_web s) (header_pool 24576) = 32768" "header_pool 24576 = 25008" "chain_pool 24576 = 25056"
    by (simp_all add: mgr_tail_def header_pool_def chain_pool_def demo_web_defs)
  then show ?thesis
    using mgr_room_le [OF demo_web_room assms] demo_alloc_args
    by (simp add: forwarding_def demo_net_def demo_sys_def) (simp add: demo_web_defs conn_at_def demo_conn_def demo_req_def ev_at_def)
qed

lemma demo_host_chars: "lowcase (CHR ''H'') = CHR ''h''" "lowcase (CHR ''o'') = CHR ''o''" "lowcase (CHR ''s'') = CHR ''s''" "lowcase (CHR ''t'') = CHR ''t''"
  by (simp_all add: lowcase_def lowcase_table_def nth_append)

lemma demo_host_hash: "(word_of_int (field_hash (''Host'', ''x'')) :: 32 word) \<noteq> BKDRhash (mem_of 0 ''Host'') 0 5"
  by code_simp

theorem request_forwarded_witness:
  "\<exists>w'. http_process_request_line demo_net 24576 (demo_web (''GET /a HTTP/1.1'' @ [CR, LF] @ ''Host: x'' @ [CR, LF, CR, LF])) =
      Some (Some (LAGAIN, w')) \<and>
    w_out w' = [(7, ''GET /a HTTP/1.1'' @ [CR, LF] @ ''host: x'' @ [CR, LF, CR, LF])]"
proof -
  let ?s = "''GET /a HTTP/1.1'' @ [CR, LF] @ ''Host: x'' @ [CR, LF, CR, LF]" and ?f = "(''Host'', ''x'')"
  let ?b = "(fresh_buffer 1048576 304)\<lparr>bf_last := 1048576 + int (length ?s)\<rparr>"
  have s: "request_text ''GET'' ''a'' (CHR ''1'') (CHR ''1'') [?f] = ?s"
    by (simp add: request_text_def line_text_def header_text_def field_line_def)
  have low: "request_text ''GET'' ''a'' (CHR ''1'') (CHR ''1'') (map lower_field [?f]) = ''GET /a HTTP/1.1'' @ [CR, LF] @ ''host: x'' @ [CR, LF, CR, LF]"
    by (simp add: request_text_def line_text_def header_text_def field_line_def lower_field_def tolower_def char_of_def)
  have at: "req_at (demo_web ?s) 24576 = Some demo_req" "buf_at (demo_web ?s) (hr_header_in demo_req) = Some ?b" "w_out (demo_web ?s) = []"
      "w_mem (demo_web ?s) = mem_of 1048576 ?s"
    by (simp_all add: req_at_def buf_at_def demo_web_defs demo_req_def)
  have line: "good_line ''GET'' ''a'' (CHR ''1'') (CHR ''1'')"
    by (simp add: good_line_def not_method_char_def uri_char_def is_digit_def schar_def crlf_defs)
  have head: "good_header (demo_web ?s) [?f]"
    using demo_host_hash by (simp add: good_header_def good_field_def demo_host_chars demo_web_defs crlf_defs)
  show ?thesis
    using request_forwarded [OF at(1,2) _ line head, unfolded s low, where nt = demo_net and c = "demo_conn 6 600 20480" and p = "demo_conn 7 700 16384" and e = "demo_event 0 0"]
      demo_forwarding [of 1 ?s] stored_mem_of [of 1048576 ?s] at(3,4)
    by (auto simp: forwarded_def demo_req_def blank_request_def fresh_buffer_def demo_conn_def)
qed

section \<open>Requests that arrive in pieces\<close>

lemma headers_round_drained:
  assumes "req_at w req = Some r" "buf_at w (hr_header_in r) = Some b" "bf_pos b = bf_last b" "rq_state (hr_req r) = 0"
  shows "headers_round nt req prev w = Some (LAGAIN, prev, w)"
proof -
  have [simp]: "(hr_req r)\<lparr>rq_state := 0\<rparr> = hr_req r" using assms(4) by (cases "hr_req r") simp
  have [simp]: "b\<lparr>bf_pos := bf_last b\<rparr> = b" using assms(3) by (cases b) simp
  have [simp]: "w\<lparr>w_req := (w_req w)(req \<mapsto> r), w_buf := (w_buf w)(hr_header_in r \<mapsto> b)\<rparr> = w"
    using assms(1,2) by (simp add: req_at_def buf_at_def fun_upd_idem split: if_splits)
  show ?thesis
    using assms by (simp add: headers_round_def ngx_http_parse_header_line_def hl_run.simps rc_defs)
qed

lemma headers_loop_hangs:
  assumes "\<exists>r b. req_at w req = Some r \<and> buf_at w (hr_header_in r) = Some b \<and> bf_pos b = bf_last b \<and> rq_state (hr_req r) = 0"
  shows "headers_loop nt req prev (w :: 'a web_scheme) = None"
proof (rule ccontr)
  assume "headers_loop nt req prev w \<noteq> None"
  then obtain y where y: "headers_loop nt req prev w = Some y" by blast
  let ?P = "\<lambda>q (w :: 'a web_scheme). q = req \<and>
    (\<exists>r b. req_at w req = Some r \<and> buf_at w (hr_header_in r) = Some b \<and> bf_pos b = bf_last b \<and> rq_state (hr_req r) = 0)"
  have "\<not> ?P req w"
  proof (rule headers_loop.raw_induct [where P = "\<lambda>n q pr w y. \<not> ?P q w", OF _ y])
    fix loop n q pr and w :: "'a web_scheme" and y
    assume IH: "\<And>n q pr w y. loop n q pr w = Some y \<Longrightarrow> \<not> ?P q w"
      and body: "(case headers_round n q pr w of None \<Rightarrow> Some None
        | Some (rc, prev', w') \<Rightarrow> if rc = NGX_HTTP_PARSE_HEADER_DONE then Some (Some (LOK, w')) else loop n q prev' w') = Some y"
    show "\<not> ?P q w"
      using body IH headers_round_drained [of w req _ _ n pr] by (auto simp: rc_defs NGX_HTTP_PARSE_HEADER_DONE_def)
  qed
  with assms show False by blast
qed

lemma request_headers_hang:
  assumes "req_at w req = Some r" "buf_at w (hr_header_in r) = Some b" "bf_pos b = bf_last b" "rq_state (hr_req r) = 0"
  shows "http_process_request_headers nt req w = None"
proof -
  have "req \<noteq> 0" using assms(1) by (auto simp: req_at_def)
  with assms show ?thesis
    unfolding http_process_request_headers_def
    by (auto simp: req_set_def intro!: headers_loop_hangs) (auto simp: req_at_def buf_at_def split: if_splits)
qed

text \<open>
  Claim C36: when the buffer ends behind the request line, because the rest of the request has not arrived yet,
  \<open>http_process_request_line\<close> does not return: \<open>http_process_request_headers\<close> parses the same empty rest again and again, and
  the process serves nobody.
\<close>

theorem split_request_hangs:
  assumes r: "req_at w req = Some r" and b: "buf_at w (hr_header_in r) = Some b" "0 < bf_pos b"
    and line: "good_line name t M N" "stored (w_mem w) (bf_pos b) (line_text name t M N)"
      "bf_last b = bf_pos b + int (length (line_text name t M N))"
    and fresh: "rq_state (hr_req r) = 0" "rq_complex_uri (hr_req r) = 0" "rq_quoted_uri (hr_req r) = 0"
  shows "http_process_request_line nt req w = None"
proof -
  let ?b = "b\<lparr>bf_pos := bf_pos b + int (length (line_text name t M N))\<rparr>"
  obtain q where q: "parse_request req w = Some (LOK, w\<lparr>w_req := (w_req w)(req \<mapsto> r\<lparr>hr_req := q\<rparr>), w_buf := (w_buf w)(hr_header_in r \<mapsto> ?b)\<rparr>)"
    "rq_state q = 0"
    using parse_request_ok [OF r b(1) line(1,2) _ fresh(1) b(2) fresh(2,3)] line(3) by auto
  have "http_process_request_headers nt req (w\<lparr>w_req := (w_req w)(req \<mapsto> r\<lparr>hr_req := q\<rparr>), w_buf := (w_buf w)(hr_header_in r \<mapsto> ?b)\<rparr>) = None"
    by (rule request_headers_hang [of _ _ "r\<lparr>hr_req := q\<rparr>" ?b])
      (use r b line(3) q(2) in \<open>auto simp: req_at_def buf_at_def split: if_splits\<close>)
  then show ?thesis
    using q(1) by (subst http_process_request_line.simps) (simp add: forward_request_def)
qed

theorem split_request_hangs_witness:
  "http_process_request_line demo_net 24576 (demo_web (''GET /a HTTP/1.1'' @ [CR, LF])) = None"
proof -
  let ?s = "''GET /a HTTP/1.1'' @ [CR, LF]"
  have s: "line_text ''GET'' ''a'' (CHR ''1'') (CHR ''1'') = ?s" by (simp add: line_text_def)
  have at: "req_at (demo_web ?s) 24576 = Some demo_req" "w_mem (demo_web ?s) = mem_of 1048576 ?s"
      "buf_at (demo_web ?s) (hr_header_in demo_req) = Some ((fresh_buffer 1048576 304)\<lparr>bf_last := 1048576 + int (length ?s)\<rparr>)"
    by (simp_all add: req_at_def buf_at_def demo_web_defs demo_req_def)
  have line: "good_line ''GET'' ''a'' (CHR ''1'') (CHR ''1'')"
    by (simp add: good_line_def not_method_char_def uri_char_def is_digit_def schar_def crlf_defs)
  show ?thesis
    using split_request_hangs [OF at(1,3) _ line, unfolded s] stored_mem_of [of 1048576 ?s] at(2)
    by (simp add: fresh_buffer_def demo_req_def blank_request_def)
qed

end
