(* ===== verification/Forward_Response.thy ===== *)
theory Forward_Response
  imports Forward_Request
begin

text \<open>
  A response header from the upstream connection's buffer to the client: the status line, the header fields, the chains that point
  into the buffer, and the one \<open>writev\<close> that sends them.
\<close>

section \<open>Chains of a response\<close>

definition response_iovs :: "request \<Rightarrow> nat \<Rightarrow> (field \<times> int) list \<Rightarrow> (int \<times> u64) list" where
  "response_iovs q ls fps = (str_data (rq_request_line q), word_of_nat (ls + 2)) # field_iovs fps"

lemma construct_response_ok:
  assumes args: "pool_args (os_aligned_alloc (sy_os (nt_sys nt))) (chain_pool req) sizeof_chain CHAIN_POOL_LENGTH (w_pool w)"
    and r: "req_at w req = Some r" and len: "str_length (rq_request_line (hr_req r)) = int ls" "ls < 1000000000"
    and els: "elems_at (w_elem w) as fps" "as \<noteq> []" "distinct as" "\<forall>(f, p) \<in> set fps. field_small f" "length as \<le> 15"
      "hr_element_head r = hd as" "hr_element_tail r = List.last as"
    and junk: "ch_next (sy_junk_chain (nt_sys nt)) = 0"
  shows "\<exists>out mg pm cm cs. construct_response_chains nt req w =
      Some (Some (out, w\<lparr>w_mgr := (w_mgr w)(chain_pool req \<mapsto> mg), w_pool := pm, w_chain := cm\<rparr>)) \<and>
    sendable (w\<lparr>w_mgr := (w_mgr w)(chain_pool req \<mapsto> mg), w_pool := pm, w_chain := cm\<rparr>) out cs \<and>
    map chain_iov cs = response_iovs (hr_req r) ls fps \<and> (\<forall>t. w_pool w t \<noteq> None \<longrightarrow> pm t = w_pool w t)"
proof -
  let ?j = "sy_junk_chain (nt_sys nt)" and ?ma = "chain_pool req" and ?s = "rq_request_line (hr_req r)"
    and ?blk = "os_aligned_alloc (sy_os (nt_sys nt)) (w_pool w) (sizeof_pool_manager + CHAIN_POOL_LENGTH * sizeof_chain)"
  obtain mg pm0 n where m0: "mgr_new (nt_sys nt) ?ma sizeof_chain CHAIN_POOL_LENGTH w = Some (w\<lparr>w_mgr := (w_mgr w)(?ma \<mapsto> mg), w_pool := pm0\<rparr>)"
      "mgr_room (w\<lparr>w_mgr := (w_mgr w)(?ma \<mapsto> mg), w_pool := pm0\<rparr>) ?ma 40 32"
      "mgr_next (w\<lparr>w_mgr := (w_mgr w)(?ma \<mapsto> mg), w_pool := pm0\<rparr>) ?ma = n"
      "mgr_tail (w\<lparr>w_mgr := (w_mgr w)(?ma \<mapsto> mg), w_pool := pm0\<rparr>) ?ma = ?blk" "\<forall>t. t \<noteq> ?blk \<longrightarrow> pm0 t = w_pool w t"
    using mgr_new_ok [OF args refl] by (auto simp: sizeof_chain_def CHAIN_POOL_LENGTH_def)
  define w0 where "w0 = w\<lparr>w_mgr := (w_mgr w)(?ma \<mapsto> mg), w_pool := pm0\<rparr>"
  note m0 = m0 [folded w0_def]
  have room0: "mgr_room w0 ?ma 40 (Suc 31)" using m0(2) by simp
  define a1 :: u64 where "a1 = word_of_nat n"
  define a2 :: u64 where "a2 = word_of_nat (n + 40)"
  obtain p1 where p1: "chain_alloc (nt_sys nt) ?ma w0 = Some (a1, w0\<lparr>w_pool := p1, w_chain := (w_chain w0)(a1 \<mapsto> ?j)\<rparr>)"
      "mgr_room (w0\<lparr>w_pool := p1\<rparr>) ?ma 40 31" "mgr_next (w0\<lparr>w_pool := p1\<rparr>) ?ma = n + 40" "unat a1 = n" "a1 \<noteq> 0"
      "pool_kept ?blk (w_pool w0) p1"
    using chain_alloc_ok [OF room0, of "nt_sys nt"] unfolding m0(3,4) a1_def by blast
  define sc where "sc = ?j\<lparr>ch_iov_base := str_data ?s, ch_iov_len := word_of_nat (ls + 2)\<rparr>"
  define w2 where "w2 = w0\<lparr>w_pool := p1, w_chain := (w_chain w0)(a1 \<mapsto> sc)\<rparr>"
  have s2: "set_iov a1 ?s 2 (w0\<lparr>w_pool := p1, w_chain := (w_chain w0)(a1 \<mapsto> ?j)\<rparr>) = Some w2"
    using set_iov_eq [of "w0\<lparr>w_pool := p1, w_chain := (w_chain w0)(a1 \<mapsto> ?j)\<rparr>" a1 ?j ?s ls 2] p1(5) len
    by (simp add: chain_at_def w2_def sc_def)
  have r2: "mgr_room w2 ?ma 40 (Suc 30)" "mgr_next w2 ?ma = n + 40" "chain_at w2 a1 = Some sc" "unat a1 < mgr_next w2 ?ma" "mgr_tail w2 ?ma = ?blk"
    using p1(2-5) m0(4) by (simp_all add: w2_def chain_at_def)
  obtain p3 w3 where p3: "chain_alloc (nt_sys nt) ?ma w2 = Some (a2, w3)"
      "chain_set a1 (ch_next_update (\<lambda>_. a2)) w3 = Some (w2\<lparr>w_pool := p3, w_chain := (w_chain w2)(a1 \<mapsto> sc\<lparr>ch_next := a2\<rparr>, a2 \<mapsto> ?j)\<rparr>)"
      "mgr_room (w2\<lparr>w_pool := p3\<rparr>) ?ma 40 30" "mgr_next (w2\<lparr>w_pool := p3\<rparr>) ?ma = n + 40 + 40"
      "a2 \<noteq> 0" "a2 \<noteq> a1" "unat a2 = n + 40" "pool_kept ?blk (w_pool w2) p3"
    using link_chain [OF r2(1,3,4), unfolded r2(2,5), OF a2_def, of "nt_sys nt"] by blast
  define w4 where "w4 = w2\<lparr>w_pool := p3, w_chain := (w_chain w2)(a1 \<mapsto> sc\<lparr>ch_next := a2\<rparr>, a2 \<mapsto> ?j)\<rparr>"
  have c4: "mgr_room w4 = mgr_room (w2\<lparr>w_pool := p3\<rparr>)" "mgr_next w4 = mgr_next (w2\<lparr>w_pool := p3\<rparr>)"
    by (rule mgr_cong; simp add: w4_def)+
  have room4: "mgr_room (w2\<lparr>w_pool := p3\<rparr>) ?ma 40 (2 * length as - 1)"
    using p3(3) by (rule mgr_room_le) (use els(5) in simp)
  have r4: "mgr_room w4 ?ma 40 (2 * length as - 1)" "mgr_next w4 ?ma = n + 80" "unat a2 < mgr_next w4 ?ma"
      "chain_at w4 a2 = Some ?j" "elems_at (w_elem w4) as fps"
      "mgr_tail w4 ?ma = ?blk"
    unfolding c4 using room4 p3(4-7) els(1) r2(5) by (simp_all add: w4_def w2_def w0_def chain_at_def)
  obtain pm cm cs where ch: "element_chains nt ?ma (List.last as) (hd as) a2 1 w4 =
        Some (Some (1 + 2 * int (length as), w4\<lparr>w_pool := pm, w_chain := cm\<rparr>))"
      "chain_path cm a2 cs 0" "map chain_iov cs = field_iovs fps" "map fst cs = a2 # slots (n + 80) 40 (2 * length as - 1)"
      "\<forall>a. a \<noteq> a2 \<and> unat a < n + 80 \<longrightarrow> cm a = w_chain w4 a" "pool_kept ?blk (w_pool w4) pm"
    using element_chains_ok [OF r4(5) els(2-4) r4(4,3,1), of nt 1] unfolding r4(2,6) junk by (elim exE conjE) (rule that; assumption)
  define s1 where "s1 = sc\<lparr>ch_next := a2, ch_chain_len := 1 + 2 * int (length as)\<rparr>"
  have cm: "cm a1 = Some (sc\<lparr>ch_next := a2\<rparr>)" using ch(5) p3(6) p1(4) by (simp add: w4_def)
  have lim: "n + 80 + (2 * length as - 1) * 40 < 2 ^ 64" using mgr_room_limit [OF r4(1)] r4(2) by simp
  have dist: "distinct (map fst ((a1, s1) # cs))"
    using slots_no_older [OF _ lim] slots_distinct [OF _ lim] p1(4) p3(6,7) by (simp add: ch(4))
  then have path: "chain_path (cm(a1 \<mapsto> s1)) a1 ((a1, s1) # cs) 0"
    using ch(2) p1(5) by (simp add: chain_path_update) (simp add: s1_def)
  have iovs: "map chain_iov ((a1, s1) # cs) = response_iovs (hr_req r) ls fps"
    using ch(3) by (simp add: response_iovs_def chain_iov_def s1_def sc_def)
  have small: "unat (ch_iov_len c) < 2147483648" if "(x, c) \<in> set ((a1, s1) # cs)" for x c
  proof -
    have "chain_iov (x, c) \<in> set (response_iovs (hr_req r) ls fps)" using that unfolding iovs [symmetric] by auto
    then show ?thesis
      using field_iovs_small [OF els(4)] iov_len_small(1) [of ls] len(2) by (auto simp: response_iovs_def chain_iov_def add.commute)
  qed
  let ?w = "w\<lparr>w_mgr := (w_mgr w)(?ma \<mapsto> mg), w_pool := pm, w_chain := cm(a1 \<mapsto> s1)\<rparr>"
  have set: "chain_set a1 (ch_chain_len_update (\<lambda>_. 1 + 2 * int (length as))) (w4\<lparr>w_pool := pm, w_chain := cm\<rparr>) = Some ?w"
    using cm p1(5) by (simp add: chain_set_def chain_at_def s1_def w4_def w2_def w0_def)
  have "length cs = 2 * length as" using arg_cong [OF ch(4), of length] els(2) by (cases as) simp_all
  then have "ch_chain_len s1 = int (length ((a1, s1) # cs))" by (simp add: s1_def)
  then have "sendable ?w a1 ((a1, s1) # cs)" using path dist small by (auto simp: sendable_def simp del: chain_path.simps)
  moreover have "req_at w0 req = Some r" using r by (simp add: req_at_def w0_def split: if_splits)
  then have "construct_response_chains nt req w = Some (Some (a1, ?w))"
    unfolding construct_response_chains_def
    using m0(1) p1(1) s2 p3(1) p3(2) [folded w4_def] ch(1) set els(6,7) by simp
  moreover have "w_pool w ?blk = None" using args by (simp add: pool_args_def fresh_block_def)
  then have "pm t = w_pool w t" if "w_pool w t \<noteq> None" for t
    using that m0(5) p1(6) p3(8) ch(6) by (cases "t = ?blk") (simp_all add: pool_kept_def w4_def w2_def w0_def)
  ultimately show ?thesis using iovs by blast
qed

section \<open>Sending a response\<close>

definition status_text :: "char \<Rightarrow> char \<Rightarrow> char \<Rightarrow> char \<Rightarrow> char \<Rightarrow> string \<Rightarrow> string" where
  "status_text M N x y z txt = ''HTTP/'' @ [M, CHR ''.'', N, CHR '' '', x, y, z, CHR '' ''] @ txt @ [CR, LF]"

definition response_text :: "string \<Rightarrow> field list \<Rightarrow> string" where
  "response_text sl fs = sl @ header_text fs @ [CR, LF]"

lemma response_bytes:
  assumes "str_data (rq_request_line q) = p" "stored mem p (response_text sl fs)" "length sl = ls + 2" "ls < 1000000000"
    and fs: "fs \<noteq> []" "\<forall>f \<in> set fs. field_small f"
  shows "concat (map (iov_bytes mem) (response_iovs q ls (field_starts (p + int (length sl)) fs))) = response_text sl fs"
proof -
  have st: "stored mem p sl" "stored mem (p + int (length sl)) (header_text fs @ [CR, LF])"
    using assms(2) by (simp_all add: response_text_def stored_append)
  have "iov_bytes mem (p, word_of_nat (ls + 2)) = sl"
    by (rule iov_bytes_stored [OF st(1)]) (use assms(3,4) in simp_all)
  then show ?thesis
    using field_iovs_bytes [OF fs st(2)] assms(1) by (simp add: response_iovs_def response_text_def del: of_nat_add)
qed

lemma send_to_client_ok:
  assumes r: "req_at w req = Some r" and st: "str_data (rq_request_line (hr_req r)) = p0"
      "str_length (rq_request_line (hr_req r)) = int ls" "length sl = ls + 2" "ls < 1000000000"
    and els: "elems_at (w_elem w) as (field_starts (p0 + int (length sl)) fs)" "distinct as" "hr_element_head r = hd as" "hr_element_tail r = List.last as"
    and fs: "fs \<noteq> []" "length fs \<le> 15" "\<forall>f \<in> set fs. field_small f"
    and tx: "stored (w_mem w) p0 (response_text sl (map lower_field fs))"
    and c: "conn_at w conn = Some c" "conn_at w (cn_pair c) = Some p" "ev_at (w_ev w) (cn_ev c) \<noteq> None"
    and args: "pool_args (os_aligned_alloc (sy_os (nt_sys nt))) (chain_pool req) sizeof_chain CHAIN_POOL_LENGTH (w_pool w)"
    and junk: "ch_next (sy_junk_chain (nt_sys nt)) = 0"
    and wv: "\<And>vs. fst (sy_writev (nt_sys nt) (w_out w) (cn_fd p) vs) = int (length (concat vs))"
  shows "\<exists>w'. http_send_to_client nt conn req w = Some (Some w') \<and>
    w_out w' = w_out w @ [(cn_fd p, response_text sl (map lower_field fs))] \<and> w_ev w' = w_ev w \<and>
    w_conn w' = (w_conn w)(conn \<mapsto> c\<lparr>cn_status := L_HTTP_WROTE_RESPONSE_HEADER\<rparr>) \<and> w_buf w' = w_buf w \<and> w_mem w' = w_mem w \<and>
    (\<forall>t. w_pool w t \<noteq> None \<longrightarrow> w_pool w' t = w_pool w t) \<and> (\<forall>a. a \<noteq> chain_pool req \<longrightarrow> w_mgr w' a = w_mgr w a) \<and> w_in w' = w_in w"
proof -
  let ?text = "response_text sl (map lower_field fs)"
  have as: "length as \<le> 15" "as \<noteq> []" using elems_at_length [OF els(1)] fs(1,2) by auto
  have small: "\<forall>(f, x) \<in> set (field_starts (p0 + int (length sl)) fs). field_small f" using field_starts_set fs(3) by fastforce
  obtain out mg pm cm cs where cc: "construct_response_chains nt req w =
        Some (Some (out, w\<lparr>w_mgr := (w_mgr w)(chain_pool req \<mapsto> mg), w_pool := pm, w_chain := cm\<rparr>))"
      "sendable (w\<lparr>w_mgr := (w_mgr w)(chain_pool req \<mapsto> mg), w_pool := pm, w_chain := cm\<rparr>) out cs"
      "map chain_iov cs = response_iovs (hr_req r) ls (field_starts (p0 + int (length sl)) fs)"
      "\<forall>t. w_pool w t \<noteq> None \<longrightarrow> pm t = w_pool w t"
    using construct_response_ok [OF args r st(2,4) els(1) as(2) els(2) small as(1) els(3,4) junk] by blast
  define w1 where "w1 = w\<lparr>w_mgr := (w_mgr w)(chain_pool req \<mapsto> mg), w_pool := pm, w_chain := cm\<rparr>"
  have "concat (map (iov_bytes (w_mem w)) (response_iovs (hr_req r) ls (field_starts (p0 + int (length sl)) (map lower_field fs)))) = ?text"
    by (rule response_bytes [OF st(1) tx st(3,4)]) (use fs(1,3) in \<open>auto simp: field_small_lower\<close>)
  then have "concat (map (iov_bytes (w_mem w)) (map chain_iov cs)) = ?text"
    unfolding cc(3) by (simp add: response_iovs_def field_iovs_lower)
  then have bytes: "chain_bytes (w_mem w1) cs = ?text" by (simp add: chain_bytes_def w1_def)
  have conn1: "conn_at w1 = conn_at w" by (simp add: fun_eq_iff conn_at_def w1_def)
  have "fst (sy_writev (nt_sys nt) (w_out w1) (cn_fd p) (map (iov_bytes (w_mem w1) \<circ> chain_iov) cs)) = int (length (chain_bytes (w_mem w1) cs))"
    using wv by (simp add: w1_def chain_bytes_def)
  then obtain errno where wv1: "sy_writev (nt_sys nt) (w_out w1) (cn_fd p) (map (iov_bytes (w_mem w1) \<circ> chain_iov) cs) =
      (int (length (chain_bytes (w_mem w1) cs)), errno)"
    by (metis prod.collapse)
  have "chain_bytes (w_mem w1) cs \<noteq> []" unfolding bytes by (simp add: response_text_def)
  then obtain m' where m': "send_chains (nt_sys nt) (cn_fd p) out w1 = Some (Some (LOK, out,
      w1\<lparr>w_out := w_out w1 @ [(cn_fd p, ?text)], w_chain := m'\<rparr>))"
    using send_chains_all [OF cc(2) [folded w1_def] wv1] unfolding bytes by blast
  have nz: "conn \<noteq> 0" "w_conn w conn = Some c" using c(1) by (auto simp: conn_at_def split: if_splits)
  obtain ec where "ev_at (w_ev w1) (cn_ev c) = Some ec" using c(3) by (auto simp: w1_def)
  then have "http_send_to_client nt conn req w = Some (conn_set conn (cn_status_update (\<lambda>_. L_HTTP_WROTE_RESPONSE_HEADER))
      (w1\<lparr>w_out := w_out w1 @ [(cn_fd p, ?text)], w_chain := m'\<rparr>))"
    unfolding http_send_to_client_def using cc(1) [folded w1_def] m' c(1,2) by (simp add: conn1)
  then show ?thesis using nz cc(4) by (simp add: conn_set_def conn_at_def w1_def)
qed

section \<open>Forwarding a response\<close>

text \<open>The chains of a response stay in their block; of the blocks that were there only that of the header elements is another afterwards.\<close>

definition kept_pools :: "u64 \<Rightarrow> 'a bufs_scheme \<Rightarrow> 'a bufs_scheme \<Rightarrow> bool" where
  "kept_pools req w w' \<longleftrightarrow> (\<forall>t. t \<noteq> mgr_tail w (header_pool req) \<longrightarrow> w_pool w t \<noteq> None \<longrightarrow> w_pool w' t = w_pool w t) \<and>
     (\<forall>a. a \<noteq> chain_pool req \<longrightarrow> w_mgr w' a = w_mgr w a) \<and> w_in w' = w_in w"

definition good_status :: "char \<Rightarrow> char \<Rightarrow> char \<Rightarrow> char \<Rightarrow> char \<Rightarrow> string \<Rightarrow> bool" where
  "good_status M N x y z txt \<longleftrightarrow> is_digit M \<and> M \<noteq> CHR ''0'' \<and> is_digit N \<and> is_digit x \<and> is_digit y \<and> is_digit z \<and>
     CR \<notin> set txt \<and> LF \<notin> set txt \<and> length txt < 500000000"

text \<open>What the forwarding of a response relies on: the upstream connection \<open>c\<close> and its pair, the client \<open>p\<close>.\<close>

definition responding :: "net \<Rightarrow> 'a web_scheme \<Rightarrow> u64 \<Rightarrow> u64 \<Rightarrow> connection \<Rightarrow> connection \<Rightarrow> nat \<Rightarrow> bool" where
  "responding nt w conn req c p n \<longleftrightarrow> conn_at w conn = Some c \<and> conn_at w (cn_pair c) = Some p \<and> ev_at (w_ev w) (cn_ev c) \<noteq> None \<and>
     mgr_room w (header_pool req) 88 n \<and>
     (\<forall>pm. pool_kept (mgr_tail w (header_pool req)) (w_pool w) pm \<longrightarrow>
        pool_args (os_aligned_alloc (sy_os (nt_sys nt))) (chain_pool req) sizeof_chain CHAIN_POOL_LENGTH pm) \<and>
     ch_next (sy_junk_chain (nt_sys nt)) = 0 \<and>
     (\<forall>vs. fst (sy_writev (nt_sys nt) (w_out w) (cn_fd p) vs) = int (length (concat vs)))"

text \<open>The header of a response whose status line has been parsed.\<close>

lemma response_header_ok:
  assumes r: "req_at w req = Some r" and b: "buf_at w (hr_header_in r) = Some b"
    and q: "str_data (rq_request_line (hr_req r)) = p0" "str_length (rq_request_line (hr_req r)) = int ls" "length sl = ls + 2" "ls < 1000000000"
      "rq_state (hr_req r) = 0" "length (rq_lowcase_header (hr_req r)) = 32"
    and fs: "good_header w fs" and tx: "stored (w_mem w) p0 (response_text sl fs)" "bf_pos b = p0 + int (length sl)"
      "bf_pos b + int (length (header_text fs)) + 2 \<le> bf_last b"
    and rs: "responding nt w conn req c p (length fs)"
  shows "\<exists>w1 w'. http_process_request_headers nt req w = Some (Some (LOK, w1)) \<and> http_send_to_client nt conn req w1 = Some (Some w') \<and>
    w_out w' = w_out w @ [(cn_fd p, response_text sl (map lower_field fs))] \<and> w_ev w' = w_ev w \<and>
    w_conn w' = (w_conn w)(conn \<mapsto> c\<lparr>cn_status := L_HTTP_WROTE_RESPONSE_HEADER\<rparr>) \<and>
    w_buf w' = (w_buf w)(hr_header_in r \<mapsto> b\<lparr>bf_pos := bf_pos b + int (length (header_text fs)) + 2\<rparr>) \<and>
    (\<forall>a \<ge> bf_pos b + int (length (header_text fs)). w_mem w' a = w_mem w a) \<and> kept_pools req w w'"
proof -
  have fs': "fs \<noteq> []" "length fs \<le> 15" "\<forall>f \<in> set fs. good_field f" "\<forall>f \<in> set fs. (word_of_int (field_hash f) :: 32 word) \<noteq> w_HostHash w"
      "\<forall>f \<in> set fs. field_small f"
    using fs by (auto simp: good_header_def good_field_def field_small_def)
  have rs': "conn_at w conn = Some c" "conn_at w (cn_pair c) = Some p" "ev_at (w_ev w) (cn_ev c) \<noteq> None" "mgr_room w (header_pool req) 88 (length fs)"
     "ch_next (sy_junk_chain (nt_sys nt)) = 0" "\<And>vs. fst (sy_writev (nt_sys nt) (w_out w) (cn_fd p) vs) = int (length (concat vs))"
    using rs by (simp_all add: responding_def)
  have st: "stored (w_mem w) (bf_pos b) (header_text fs @ [CR, LF])" "stored (w_mem w) p0 sl"
    using tx(1,2) by (simp_all add: response_text_def stored_append)
  obtain pm mem q' em as where h: "http_process_request_headers nt req w = Some (Some (LOK,
        behind_headers req r b (int (length (header_text fs)) + 2) pm mem q' (if as = [] then 0 else hd as) (if as = [] then 0 else List.last as) em w))"
      "elems_at em as (field_starts (bf_pos b) fs)" "distinct as" "same_line (hr_req r) q'"
      "stored mem (bf_pos b) (header_text (map lower_field fs) @ [CR, LF])"
      "\<forall>a. a < bf_pos b \<or> bf_pos b + int (length (header_text fs)) \<le> a \<longrightarrow> mem a = w_mem w a"
      "pool_kept (mgr_tail w (header_pool req)) (w_pool w) pm"
    using request_headers_ok [OF r b fs'(3) st(1) tx(3) q(5,6) rs'(4) fs'(4), of nt] by (elim exE conjE) (rule that; assumption)
  have "as \<noteq> []" using elems_at_length [OF h(2)] fs'(1) by auto
  let ?n = "int (length (header_text fs)) + 2"
  define r1 where "r1 = r\<lparr>hr_req := q', hr_element_head := hd as, hr_element_tail := List.last as\<rparr>"
  define w1 where "w1 = w\<lparr>w_pool := pm, w_mem := mem, w_buf := (w_buf w)(hr_header_in r \<mapsto> b\<lparr>bf_pos := bf_pos b + ?n\<rparr>),
    w_req := (w_req w)(req \<mapsto> r1), w_elem := em\<rparr>"
  have w1: "behind_headers req r b ?n pm mem q' (if as = [] then 0 else hd as) (if as = [] then 0 else List.last as) em w = w1"
    using \<open>as \<noteq> []\<close> by (simp add: behind_headers_def w1_def r1_def)
  have conn1: "conn_at w1 = conn_at w" by (simp add: fun_eq_iff conn_at_def w1_def)
  have "stored mem p0 sl" using st(2) by (rule stored_frame) (use h(6) tx(2) in simp)
  then have tx1: "stored (w_mem w1) p0 (response_text sl (map lower_field fs))"
    using h(5) tx(2) by (simp add: response_text_def stored_append w1_def)
  have args: "pool_args (os_aligned_alloc (sy_os (nt_sys nt))) (chain_pool req) sizeof_chain CHAIN_POOL_LENGTH (w_pool w1)"
    using rs h(7) by (simp add: responding_def w1_def)
  have at1: "req_at w1 req = Some r1" "str_data (rq_request_line (hr_req r1)) = p0" "str_length (rq_request_line (hr_req r1)) = int ls"
      "elems_at (w_elem w1) as (field_starts (p0 + int (length sl)) fs)" "hr_element_head r1 = hd as" "hr_element_tail r1 = List.last as"
      "conn_at w1 conn = Some c" "conn_at w1 (cn_pair c) = Some p" "ev_at (w_ev w1) (cn_ev c) \<noteq> None"
      "\<And>vs. fst (sy_writev (nt_sys nt) (w_out w1) (cn_fd p) vs) = int (length (concat vs))"
    using r h(2,4) q(1,2) rs' tx(2) by (simp_all add: conn1, auto simp: w1_def r1_def req_at_def same_line_def)
  obtain w' where w': "http_send_to_client nt conn req w1 = Some (Some w')"
      "w_out w' = w_out w1 @ [(cn_fd p, response_text sl (map lower_field fs))]" "w_ev w' = w_ev w1"
      "w_conn w' = (w_conn w1)(conn \<mapsto> c\<lparr>cn_status := L_HTTP_WROTE_RESPONSE_HEADER\<rparr>)" "w_buf w' = w_buf w1" "w_mem w' = w_mem w1"
      "\<forall>t. w_pool w1 t \<noteq> None \<longrightarrow> w_pool w' t = w_pool w1 t" "\<forall>a. a \<noteq> chain_pool req \<longrightarrow> w_mgr w' a = w_mgr w1 a" "w_in w' = w_in w1"
    using send_to_client_ok [OF at1(1-3) q(3,4) at1(4) h(3) at1(5,6) fs'(1,2,5) tx1 at1(7-9) args rs'(5) at1(10)] by blast
  have "kept_pools req w w'" using w'(7-9) h(7) by (simp add: kept_pools_def pool_kept_def w1_def)
  then show ?thesis
    using h(1) [unfolded w1] w'(1-6) h(6) by (intro exI [of _ w1] exI [of _ w']) (simp add: w1_def add.assoc)
qed

lemma process_response_ok:
  assumes c: "conn_at w conn = Some c" and b: "buf_at w (cn_buf c) = Some b" "0 < bf_pos b"
    and r: "req_at w req = Some r" "hr_header_in r = cn_buf c"
    and line: "good_status M N x y z txt" and fs: "good_header w fs"
    and tx: "stored (w_mem w) (bf_pos b) (response_text (status_text M N x y z txt) fs)"
      "bf_pos b + int (length (response_text (status_text M N x y z txt) fs)) \<le> bf_last b"
    and fresh: "rq_state (hr_req r) = 0" "st_code (rq_status (hr_req r)) = 0" "st_count (rq_status (hr_req r)) = 0"
      "length (rq_lowcase_header (hr_req r)) = 32"
    and rs: "responding nt w conn req c p (length fs)"
  shows "\<exists>w'. http_process_response_line nt conn req w = Some (Some w') \<and>
    w_out w' = w_out w @ [(cn_fd p, response_text (status_text M N x y z txt) (map lower_field fs))] \<and> w_ev w' = w_ev w \<and>
    w_conn w' = (w_conn w)(conn \<mapsto> c\<lparr>cn_status := L_HTTP_WROTE_RESPONSE_HEADER\<rparr>) \<and>
    w_buf w' = (w_buf w)(cn_buf c \<mapsto> b\<lparr>bf_pos := bf_pos b + int (length (response_text (status_text M N x y z txt) fs))\<rparr>) \<and>
    (\<forall>a \<ge> bf_pos b + int (length (response_text (status_text M N x y z txt) fs)). w_mem w' a = w_mem w a) \<and> kept_pools req w w'"
proof -
  let ?sl = "status_text M N x y z txt" and ?b = "\<lparr>b_pos = bf_pos b, b_last = bf_last b\<rparr>" and ?p = "bf_pos b"
  have len: "length ?sl = length txt + 13 + 2" by (simp add: status_text_def)
  have g: "is_digit M" "M \<noteq> CHR ''0''" "is_digit N" "is_digit x" "is_digit y" "is_digit z" "CR \<notin> set txt" "LF \<notin> set txt" "length txt < 500000000"
    using line by (simp_all add: good_status_def)
  have st: "stored (w_mem w) ?p ?sl" "?p + int (length txt) + 15 \<le> bf_last b"
    using tx len by (simp_all add: response_text_def stored_append)
  obtain q where q: "ngx_http_parse_status_line (w_mem w) (hr_req r) ?b (rq_status (hr_req r)) =
      Some (LOK, fst q, ?b\<lparr>b_pos := ?p + int (length txt) + 15\<rparr>, snd q)"
      "rq_request_start (fst q) = ?p" "st_end (snd q) = ?p + int (length txt) + 13" "rq_state (fst q) = 0"
      "rq_lowcase_header (fst q) = rq_lowcase_header (hr_req r)"
    using status_line_ok [of "w_mem w" ?b M N x y z "txt" "hr_req r" "rq_status (hr_req r)"] st g fresh b(2)
    by (auto simp: status_text_def)
  define q1 where "q1 = (fst q)\<lparr>rq_status := snd q,
    rq_request_line := (rq_request_line (fst q))\<lparr>str_data := ?p, str_length := int (length txt + 13)\<rparr>,
    rq_http_protocol := (rq_http_protocol (fst q))\<lparr>str_length := i32 (rq_http_protocol_end (fst q) - str_data (rq_http_protocol (fst q)))\<rparr>\<rparr>"
  define r1 where "r1 = r\<lparr>hr_req := q1\<rparr>"
  define b1 where "b1 = b\<lparr>bf_pos := ?p + int (length txt) + 15\<rparr>"
  define w1 where "w1 = w\<lparr>w_req := (w_req w)(req \<mapsto> r1), w_buf := (w_buf w)(cn_buf c \<mapsto> b1)\<rparr>"
  have nz: "req \<noteq> 0" "cn_buf c \<noteq> 0" using r(1) b(1) by (auto simp: req_at_def buf_at_def)
  have conn1: "conn_at w1 = conn_at w" by (simp add: fun_eq_iff conn_at_def w1_def)
  have at1: "req_at w1 req = Some r1" "buf_at w1 (hr_header_in r1) = Some b1" "str_data (rq_request_line (hr_req r1)) = ?p"
      "str_length (rq_request_line (hr_req r1)) = int (length txt + 13)" "rq_state (hr_req r1) = 0" "length (rq_lowcase_header (hr_req r1)) = 32"
      "good_header w1 fs" "stored (w_mem w1) ?p (response_text ?sl fs)" "bf_pos b1 = ?p + int (length ?sl)"
      "bf_pos b1 + int (length (header_text fs)) + 2 \<le> bf_last b1" "length txt + 13 < 1000000000"
    using nz q(4,5) fresh(4) fs tx len r(2) g(9)
    by (simp_all add: w1_def r1_def b1_def q1_def req_at_def buf_at_def good_header_def response_text_def)
  have rs1: "responding nt w1 conn req c p (length fs)"
    using rs by (simp add: responding_def conn1) (simp add: w1_def)
  obtain w2 w' where w': "http_process_request_headers nt req w1 = Some (Some (LOK, w2))" "http_send_to_client nt conn req w2 = Some (Some w')"
    "w_out w' = w_out w1 @ [(cn_fd p, response_text ?sl (map lower_field fs))]" "w_ev w' = w_ev w1"
    "w_conn w' = (w_conn w1)(conn \<mapsto> c\<lparr>cn_status := L_HTTP_WROTE_RESPONSE_HEADER\<rparr>)"
    "w_buf w' = (w_buf w1)(hr_header_in r1 \<mapsto> b1\<lparr>bf_pos := bf_pos b1 + int (length (header_text fs)) + 2\<rparr>)"
    "\<forall>a \<ge> bf_pos b1 + int (length (header_text fs)). w_mem w' a = w_mem w1 a" "kept_pools req w1 w'"
    using response_header_ok [OF at1(1-4) len at1(11,5-10) rs1] by blast
  have "http_process_response_line nt conn req w = Some (Some w')"
    unfolding http_process_response_line_def using c b(1) r(1) q(1-3) w'(1,2) g(9)
    by (simp add: Let_def i32_id w1_def r1_def q1_def b1_def)
  moreover have "kept_pools req w w'" using w'(8) by (simp add: kept_pools_def mgr_tail_def w1_def)
  ultimately show ?thesis
    using w'(3-7) r(2) len by (intro exI [of _ w']) (auto simp: w1_def r1_def b1_def response_text_def algebra_simps)
qed

text \<open>
  A well-formed response header in the buffer (status line, one to fourteen header fields) is sent to the
  client exactly, its header names in lower case, in one \<open>writev\<close>; the upstream connection is marked as having written the
  header, and the buffer stands at the body, which is untouched.
\<close>

theorem response_forwarded:
  assumes "conn_at w conn = Some c" "buf_at w (cn_buf c) = Some b" "0 < bf_pos b" "req_at w req = Some r" "hr_header_in r = cn_buf c"
    and "good_status M N x y z txt" "good_header w fs"
    and "stored (w_mem w) (bf_pos b) (response_text (status_text M N x y z txt) fs)"
      "bf_pos b + int (length (response_text (status_text M N x y z txt) fs)) \<le> bf_last b"
    and "rq_state (hr_req r) = 0" "st_code (rq_status (hr_req r)) = 0" "st_count (rq_status (hr_req r)) = 0"
      "length (rq_lowcase_header (hr_req r)) = 32"
    and "responding nt w conn req c p (length fs)"
  shows "\<exists>w'. http_process_response_line nt conn req w = Some (Some w') \<and>
    w_out w' = w_out w @ [(cn_fd p, response_text (status_text M N x y z txt) (map lower_field fs))] \<and> w_ev w' = w_ev w \<and>
    w_conn w' = (w_conn w)(conn \<mapsto> c\<lparr>cn_status := L_HTTP_WROTE_RESPONSE_HEADER\<rparr>) \<and>
    w_buf w' = (w_buf w)(cn_buf c \<mapsto> b\<lparr>bf_pos := bf_pos b + int (length (response_text (status_text M N x y z txt) fs))\<rparr>) \<and>
    (\<forall>a \<ge> bf_pos b + int (length (response_text (status_text M N x y z txt) fs)). w_mem w' a = w_mem w a)"
  using process_response_ok [OF assms] by blast

lemma demo_responding:
  assumes "n \<le> 16"
  shows "responding demo_net (demo_web s) 20480 24576 (demo_conn 7 700 16384) (demo_conn 6 600 20480) n"
proof -
  have "mgr_tail (demo_web s) (header_pool 24576) = 32768" "header_pool 24576 = 25008" "chain_pool 24576 = 25056"
    by (simp_all add: mgr_tail_def header_pool_def chain_pool_def demo_web_defs)
  then show ?thesis
    using mgr_room_le [OF demo_web_room assms] demo_alloc_args
    by (simp add: responding_def demo_net_def demo_sys_def) (simp add: demo_web_defs conn_at_def demo_conn_def demo_req_def ev_at_def)
qed

theorem response_forwarded_witness:
  "\<exists>w'. http_process_response_line demo_net 20480 24576 (demo_web (''HTTP/1.1 200 OK'' @ [CR, LF] @ ''Host: x'' @ [CR, LF, CR, LF])) =
      Some (Some w') \<and>
    w_out w' = [(6, ''HTTP/1.1 200 OK'' @ [CR, LF] @ ''host: x'' @ [CR, LF, CR, LF])]"
proof -
  let ?s = "''HTTP/1.1 200 OK'' @ [CR, LF] @ ''Host: x'' @ [CR, LF, CR, LF]" and ?f = "(''Host'', ''x'')"
  let ?b = "(fresh_buffer 1048576 304)\<lparr>bf_last := 1048576 + int (length ?s)\<rparr>"
    and ?sl = "status_text (CHR ''1'') (CHR ''1'') (CHR ''2'') (CHR ''0'') (CHR ''0'') ''OK''"
  have s: "response_text ?sl [?f] = ?s"
    by (simp add: response_text_def status_text_def header_text_def field_line_def)
  have low: "response_text ?sl (map lower_field [?f]) = ''HTTP/1.1 200 OK'' @ [CR, LF] @ ''host: x'' @ [CR, LF, CR, LF]"
    by (simp add: response_text_def status_text_def header_text_def field_line_def lower_field_def tolower_def char_of_def)
  have at: "conn_at (demo_web ?s) 20480 = Some (demo_conn 7 700 16384)" "req_at (demo_web ?s) 24576 = Some demo_req"
      "buf_at (demo_web ?s) (cn_buf (demo_conn 7 700 16384)) = Some ?b" "w_out (demo_web ?s) = []" "w_mem (demo_web ?s) = mem_of 1048576 ?s"
    by (simp_all add: req_at_def buf_at_def conn_at_def demo_web_defs demo_conn_def)
  have line: "good_status (CHR ''1'') (CHR ''1'') (CHR ''2'') (CHR ''0'') (CHR ''0'') ''OK''"
    by (simp add: good_status_def is_digit_def schar_def crlf_defs)
  have head: "good_header (demo_web ?s) [?f]"
    using demo_host_hash by (simp add: good_header_def good_field_def demo_host_chars demo_web_defs crlf_defs)
  show ?thesis
    using response_forwarded [OF at(1,3) _ at(2) _ line head, unfolded s low, where nt = demo_net and p = "demo_conn 6 600 20480"]
      demo_responding [of 1 ?s] stored_mem_of [of 1048576 ?s] at(4,5)
    by (auto simp: demo_req_def blank_request_def fresh_buffer_def demo_conn_def)
qed

end
