(* ===== verification/Proxy.thy ===== *)
theory Proxy
  imports Forward_Response
begin

text \<open>
  The event callbacks of the server: accepting a client and connecting it to the upstream server (http.c, proxy.c), data from the
  client, data from the upstream server, and the setup of http.c and main.c that registers the first of them. \<open>dispatch\<close> is the table the event
  loop calls them through.
\<close>

section \<open>Data\<close>

definition DEFAULT_HEADER_BUFFER_SIZE :: u64 where "DEFAULT_HEADER_BUFFER_SIZE = 16384"
definition DEFAULT_UPSTREAM_BUFFER_SIZE :: u64 where "DEFAULT_UPSTREAM_BUFFER_SIZE = 16384"
definition CONNECTION_POOL_LENGTH :: u64 where "CONNECTION_POOL_LENGTH = 32"
definition BUFFER_POOL_LENGTH :: u64 where "BUFFER_POOL_LENGTH = 64"
definition sizeof_connection :: u64 where "sizeof_connection = 296"

definition connection_pool :: "u64 \<Rightarrow> u64" where "connection_pool http = http + 48"
definition buf_pool :: "u64 \<Rightarrow> u64" where "buf_pool http = http + 416"

definition EINPROGRESS :: int where "EINPROGRESS = 115"
definition AF_INET :: int where "AF_INET = 2"

definition conn_alloc :: "net \<Rightarrow> u64 \<Rightarrow> 'a web_scheme \<Rightarrow> (u64 \<times> 'a web_scheme) option" where
  "conn_alloc nt ma w = do {
     (a, inside, w1) \<leftarrow> mgr_alloc (nt_sys nt) ma w;
     Some (a, if inside then w1\<lparr>w_conn := (w_conn w1)(a \<mapsto> nt_junk_conn nt)\<rparr> else w1)
   }"

section \<open>The upstream connection\<close>

definition proxy_connect_writable :: "net \<Rightarrow> u64 \<Rightarrow> 'a web_scheme \<Rightarrow> (int \<times> 'a web_scheme) option option" where
  "proxy_connect_writable nt conn w =
     (case conn_at w conn of
        None \<Rightarrow> Some None
      | Some c \<Rightarrow>
          (case nt_getsockopt nt (cn_fd c) of
             (rv, err) \<Rightarrow>
               if rv \<noteq> 0 then Some (Some (LERROR, w))
               else if err = 0 then
                 (case conn_set conn (cn_status_update (\<lambda>_. L_PROXY_CONNECTED)) w of
                    None \<Rightarrow> Some None
                  | Some w1 \<Rightarrow>
                      (case lt_new_buffer_chain (nt_sys nt) (cn_buf_pool_manager c) DEFAULT_UPSTREAM_BUFFER_SIZE w1 of
                         None \<Rightarrow> None
                       | Some None \<Rightarrow> Some None
                       | Some (Some (buf, w2)) \<Rightarrow>
                           Some (map_option (Pair 0) (conn_set conn (cn_buf_update (\<lambda>_. buf)) w2))))
               else Some (Some (0, w))))"

definition proxy_get_upstream_addr :: string where
  "proxy_get_upstream_addr = ''127.0.0.1''"

text \<open>The pair's own members that are not assigned here stay what they were in memory.\<close>

definition proxy_connect :: "net \<Rightarrow> u64 \<Rightarrow> 'a web_scheme \<Rightarrow> (int \<times> 'a web_scheme) option" where
  "proxy_connect nt conn w = do {
     c0 \<leftarrow> conn_at w conn;
     w1 \<leftarrow> conn_set conn (cn_peer_addr_in_update (\<lambda>_. (AF_INET, 80, cn_peer_addr_c c0))) w;
     (pair, w2) \<leftarrow> conn_alloc nt (connection_pool (w_http w1)) w1;
     w3 \<leftarrow> conn_set conn (cn_pair_update (\<lambda>_. pair)) w2;
     c \<leftarrow> conn_at w3 conn;
     let w4 = w3\<lparr>w_mgr := (w_mgr w3)(request_pool pair := w_mgr w3 (request_pool conn))\<rparr>;
     w5 \<leftarrow> conn_set pair (\<lambda>p. p\<lparr>cn_buf_pool := cn_buf_pool c, cn_buf_pool_manager := cn_buf_pool_manager c, cn_pair := conn,
             cn_fd := nt_socket nt pair\<rparr>) w4;
     if nt_socket nt pair = - 1 then Some (LERROR, w5)
     else do {
       w6 \<leftarrow> conn_set pair (cn_status_update (\<lambda>_. L_PROXY_CONNECTING)) w5;
       let (rv, errno) = nt_connect nt (nt_socket nt pair);
       if rv < 0 \<and> errno = EINPROGRESS then do {
         c' \<leftarrow> conn_at w6 conn;
         _ \<leftarrow> ev_at (w_ev w6) (cn_ev c');
         (ev, w7) \<leftarrow> lt_io_add (sy_os (nt_sys nt)) (sy_now (nt_sys nt)) w6 (nt_socket nt pair)
                       (LV_FDWR OR LV_CONN OR LV_ONESHOT) cb_proxy_connect_writable pair NO_TIMEOUT;
         w8 \<leftarrow> conn_set pair (cn_ev_update (\<lambda>_. ev)) w7;
         Some (LAGAIN, w8)
       } else if rv = 0 then do {
         w7 \<leftarrow> conn_set pair (cn_status_update (\<lambda>_. L_PROXY_CONNECTED)) w6;
         Some (LOK, w7)
       } else Some (LERROR, w6)
     }
   }"

definition resend_chains :: "net \<Rightarrow> u64 \<Rightarrow> 'a web_scheme \<Rightarrow> 'a web_scheme option option" where
  "resend_chains nt req w = http_send_to_upstream nt req w"

text \<open>The states \<open>L_PROXY_WAITING_RESPONSE\<close> and \<open>L_HTTP_WROTE_RESPONSE_HEADER\<close> are tested one after the other.\<close>

definition proxy_data_coming :: "net \<Rightarrow> u64 \<Rightarrow> 'a web_scheme \<Rightarrow> 'a web_scheme option option" where
  "proxy_data_coming nt conn w =
     (case conn_at w conn of
        None \<Rightarrow> Some None
      | Some c \<Rightarrow>
          (case lt_new_buffer_chain (nt_sys nt) (cn_buf_pool_manager c) DEFAULT_UPSTREAM_BUFFER_SIZE w of
             None \<Rightarrow> None
           | Some None \<Rightarrow> Some None
           | Some (Some (buf, w1)) \<Rightarrow>
               (case do {
                  w2 \<leftarrow> conn_set conn (cn_buf_update (\<lambda>_. buf)) w1;
                  (rv, w3) \<leftarrow> lt_recv (nt_sys nt) (cn_fd c) buf w2;
                  if rv = LAGAIN then conn_set conn (cn_status_update (\<lambda>_. L_PROXY_WAITING_RESPONSE)) w3
                  else if rv = LCLOSE then conn_set conn (cn_status_update (\<lambda>_. L_PROXY_CLOSING)) w3
                  else if rv = LERROR then conn_set conn (cn_status_update (\<lambda>_. L_PROXY_ERROR)) w3
                  else Some w3
                } of
                  None \<Rightarrow> Some None
                | Some w4 \<Rightarrow>
                    (case (case conn_at w4 conn of
                             None \<Rightarrow> Some None
                           | Some c4 \<Rightarrow>
                               if cn_status c4 = L_PROXY_WAITING_RESPONSE then
                                 (case http_create_request nt conn w4 of
                                    None \<Rightarrow> Some None
                                  | Some (req, w5) \<Rightarrow> http_process_response_line nt conn req w5)
                               else Some (Some w4)) of
                       None \<Rightarrow> None
                     | Some None \<Rightarrow> Some None
                     | Some (Some w6) \<Rightarrow>
                         (case conn_at w6 conn of
                            None \<Rightarrow> Some None
                          | Some c6 \<Rightarrow>
                              if cn_status c6 = L_HTTP_WROTE_RESPONSE_HEADER then
                                (case do { p \<leftarrow> conn_at w6 (cn_pair c6); _ \<leftarrow> ev_at (w_ev w6) (cn_ev c6); Some (cn_fd p) } of
                                   None \<Rightarrow> Some None
                                 | Some client_fd \<Rightarrow>
                                     map_option (map_option snd) (send_buffers (nt_sys nt) client_fd (cn_buf c6) w6))
                              else Some (Some w6))))))"

section \<open>The client connection\<close>

definition http_data_coming :: "net \<Rightarrow> u64 \<Rightarrow> 'a web_scheme \<Rightarrow> 'a web_scheme option option" where
  "http_data_coming nt conn w =
     (case conn_at w conn of
        None \<Rightarrow> Some None
      | Some c \<Rightarrow>
          (case lt_new_buffer_chain (nt_sys nt) (cn_buf_pool_manager c) DEFAULT_HEADER_BUFFER_SIZE w of
             None \<Rightarrow> None
           | Some None \<Rightarrow> Some None
           | Some (Some (buf, w1)) \<Rightarrow>
               (case do {
                  w2 \<leftarrow> conn_set conn (cn_buf_update (\<lambda>_. buf)) w1;
                  (_, w3) \<leftarrow> lt_recv (nt_sys nt) (cn_fd c) buf w2;
                  Some w3
                } of
                  None \<Rightarrow> Some None
                | Some w3 \<Rightarrow>
                    if cn_status c = L_CONNECTING_ACCEPTED then
                      (case http_create_request nt conn w3 of
                         None \<Rightarrow> Some None
                       | Some (req, w4) \<Rightarrow> map_option (map_option snd) (http_process_request_line nt req w4))
                    else Some (Some w3))))"

text \<open>The result is the connection or a null pointer.\<close>

definition http_init_connection :: "net \<Rightarrow> int \<Rightarrow> 'a web_scheme \<Rightarrow> (u64 \<times> 'a web_scheme) option" where
  "http_init_connection nt fd w = do {
     (conn, w1) \<leftarrow> conn_alloc nt (connection_pool (w_http w)) w;
     w2 \<leftarrow> conn_set conn (\<lambda>c. c\<lparr>cn_fd := fd, cn_request_free_head := 0, cn_buf_pool_manager := buf_pool (w_http w),
             cn_status := L_CONNECTING_ACCEPTED\<rparr>) w1;
     w3 \<leftarrow> mgr_new (nt_sys nt) (request_pool conn) sizeof_request 4 w2;
     (ev, w4) \<leftarrow> lt_io_add (sy_os (nt_sys nt)) (sy_now (nt_sys nt)) w3 fd (LV_FDRD OR LV_CONN) cb_http_data_coming conn NO_TIMEOUT;
     w5 \<leftarrow> conn_set conn (\<lambda>c. c\<lparr>cn_ev := ev, cn_peer_addr_c := proxy_get_upstream_addr\<rparr>) w4;
     (rv, w6) \<leftarrow> proxy_connect nt conn w5;
     Some (if rv = LERROR then 0 else conn, w6)
   }"

text \<open>\<open>start_accept\<close> returns a number, or ends the process.\<close>

datatype 'w accept_end = Ret int 'w | Exit 'w

fun accept_loop :: "net \<Rightarrow> nat \<Rightarrow> 'a web_scheme \<Rightarrow> 'a web_scheme accept_end option" where
  "accept_loop nt 0 w = Some (Ret 0 w)"
| "accept_loop nt (Suc k) w =
     (case lt_accept (w_listen_fd w) w of
        (fd, w1) \<Rightarrow>
          if fd = LAGAIN then Some (Ret (- 1) w1)
          else if fd = LABORT then accept_loop nt k w1
          else if fd = LERROR then Some (Exit w1)
          else do {
            (_, w2) \<leftarrow> http_init_connection nt fd w1;
            accept_loop nt k w2
          })"

definition start_accept :: "net \<Rightarrow> 'a web_scheme \<Rightarrow> 'a web_scheme accept_end option" where
  "start_accept nt w = accept_loop nt (nt_somaxconn nt) w"

section \<open>Setup\<close>

text \<open>
  \<open>get_addrinfo_with_bind\<close>: \<open>gai\<close> is the result of \<open>getaddrinfo\<close>, and each address found comes with the descriptor \<open>socket\<close> returns and
  the result of \<open>bind\<close>.
\<close>

fun bind_first :: "(int \<times> int) list \<Rightarrow> int option \<Rightarrow> int \<times> int option" where
  "bind_first [] fd = (- 1, fd)"
| "bind_first ((sock, bound) # ps) fd =
     (if sock = - 1 then bind_first ps fd
      else if bound = - 1 then bind_first ps (Some sock)
      else (0, Some sock))"

definition get_addrinfo_with_bind :: "int \<Rightarrow> (int \<times> int) list \<Rightarrow> 'a web_scheme \<Rightarrow> int \<times> 'a web_scheme" where
  "get_addrinfo_with_bind gai ps w =
     (if gai \<noteq> 0 then (- 1, w)
      else
        case bind_first ps None of
          (rv, fd) \<Rightarrow> (rv, case fd of None \<Rightarrow> w | Some sock \<Rightarrow> w\<lparr>w_listen_fd := sock\<rparr>))"

definition http_add_listen :: "net \<Rightarrow> int \<Rightarrow> (int \<times> int) list \<Rightarrow> int \<Rightarrow> 'a web_scheme \<Rightarrow> (int \<times> 'a web_scheme) option" where
  "http_add_listen nt gai ps listen_rv w =
     (case get_addrinfo_with_bind gai ps w of
        (rv, w1) \<Rightarrow>
          if rv \<noteq> 0 then Some (- 1, w1)
          else if listen_rv \<noteq> 0 then Some (- 1, w1)
          else do {
            (ev, w2) \<leftarrow> lt_io_add (sy_os (nt_sys nt)) (sy_now (nt_sys nt)) w1 (w_listen_fd w1) (LV_CONN OR LV_FDRD)
                          cb_start_accept (w_http w1) NO_TIMEOUT;
            Some (0, w2\<lparr>w_listen_ev := ev\<rparr>)
          })"

text \<open>\<open>http_worker_new\<close>: \<open>malloc_http\<close> and \<open>sigpipe\<close> are the results of \<open>malloc\<close> and \<open>lt_ignore_sigpipe\<close>; \<open>sizeof("Host")\<close> is 5.\<close>

definition http_worker_new ::
  "net \<Rightarrow> u64 \<Rightarrow> int \<Rightarrow> (int \<times> int) list \<Rightarrow> int \<Rightarrow> int \<Rightarrow> 'a web_scheme \<Rightarrow> (u64 \<times> 'a web_scheme) option" where
  "http_worker_new nt malloc_http gai ps listen_rv sigpipe w =
     (if malloc_http = 0 then Some (0, w)
      else do {
        w1 \<leftarrow> mgr_new (nt_sys nt) (connection_pool malloc_http) sizeof_connection CONNECTION_POOL_LENGTH (w\<lparr>w_http := malloc_http\<rparr>);
        (rv, w2) \<leftarrow> http_add_listen nt gai ps listen_rv (w1\<lparr>w_HostHash := BKDRhash (mem_of 0 ''Host'') 0 5\<rparr>);
        if rv \<noteq> 0 then Some (0, w2)
        else if sigpipe \<noteq> 0 then Some (0, w2)
        else do {
          w3 \<leftarrow> mgr_new (nt_sys nt) (buf_pool malloc_http) (16432) BUFFER_POOL_LENGTH w2;
          Some (malloc_http, w3)
        }
      })"

section \<open>Dispatch\<close>

text \<open>
  The callback of an event: \<^const>\<open>None\<close> when it is undefined, does not return, or ends the process.
\<close>

definition dispatch :: "net \<Rightarrow> 'a web_ext bufs_ext callbacks" where
  "dispatch nt cb ev arg w =
     (if cb = cb_start_accept then
        (case start_accept nt w of None \<Rightarrow> None | Some (Exit _) \<Rightarrow> None | Some (Ret _ w') \<Rightarrow> Some w')
      else if cb = cb_http_data_coming then Option.bind (http_data_coming nt arg w) id
      else if cb = cb_proxy_connect_writable then map_option snd (Option.bind (proxy_connect_writable nt arg w) id)
      else if cb = cb_proxy_data_coming then Option.bind (proxy_data_coming nt arg w) id
      else if cb = cb_resend_chains then Option.bind (resend_chains nt arg w) id
      else None)"

section \<open>The Host field\<close>

lemma io_add_more: "lt_io_add os now w fd fl cb arg to = Some (ev, w') \<Longrightarrow> lea.more w' = lea.more w"
  by (auto simp: lt_io_add_def lt_new_event_def set_timeout_def lt_timeout_add_def lt_add_to_epfd_def lt_epoll_ctl_def Let_def
      split: Option.bind_splits if_splits prod.splits)

lemma HostHash_more: "lea.more w' = lea.more w \<Longrightarrow> w_HostHash w' = w_HostHash w"
  by (cases w; cases w') simp

lemma mgr_new_HostHash: "mgr_new sy ma e n w = Some w' \<Longrightarrow> w_HostHash w' = w_HostHash w"
  by (auto simp: mgr_new_def split: Option.bind_splits)

lemma add_listen_HostHash: "http_add_listen nt gai ps listen_rv w = Some (rv, w') \<Longrightarrow> w_HostHash w' = w_HostHash w"
  by (auto simp: http_add_listen_def get_addrinfo_with_bind_def split: if_splits Option.bind_splits prod.splits option.splits
      dest!: io_add_more HostHash_more)

text \<open>
  Claim C37: \<open>HostHash\<close> is the hash of the five characters \<open>Host\<close> and NUL, while the parser hashes the
  lower case name: the hash of a \<open>Host\<close> field, in whatever case it is written, is never the one \<open>http_process_element\<close> looks for.
\<close>

theorem host_header_not_recognised:
  assumes "http_worker_new nt http gai ps listen_rv sigpipe w = Some (a, w')" "a \<noteq> 0" "map lowcase (fst f) = ''host''"
  shows "(word_of_int (field_hash f) :: 32 word) \<noteq> w_HostHash w'"
proof -
  have "field_hash f = foldl ngx_hash 0 ''host''" using assms(3) by (simp add: field_hash_def)
  moreover have "(word_of_int (foldl ngx_hash 0 ''host'') :: 32 word) \<noteq> BKDRhash (mem_of 0 ''Host'') 0 5" by code_simp
  moreover have "w_HostHash w' = BKDRhash (mem_of 0 ''Host'') 0 5"
    using assms(1,2) by (auto simp: http_worker_new_def split: if_splits Option.bind_splits dest!: add_listen_HostHash mgr_new_HostHash)
  ultimately show ?thesis by simp
qed

definition demo_idle :: web where
  "demo_idle = bufs.extend (lea.extend demo_lea (bufs.fields Map.empty (\<lambda>_. NUL) Map.empty Map.empty [] (\<lambda>_. []) (\<lambda>_. [])))
     (web.fields Map.empty Map.empty Map.empty 0 0 0 0)"

theorem host_header_not_recognised_witness:
  "\<exists>w'. http_worker_new demo_net 8192 0 [(3, 0)] 0 0 demo_idle = Some (8192, w') \<and>
    (word_of_int (field_hash (''HOST'', ''x'')) :: 32 word) \<noteq> w_HostHash w'"
proof -
  have "\<exists>w'. http_worker_new demo_net 8192 0 [(3, 0)] 0 0 demo_idle = Some (8192, w')"
    by (simp add: http_worker_new_def http_add_listen_def get_addrinfo_with_bind_def mgr_new_def demo_idle_def demo_lea_def lea.defs bufs.defs web.defs
      demo_net_def demo_sys_def demo_os_def lt_new_memory_pool_manager_def lt_new_memory_pool_def Let_def pool_block_size_def
      connection_pool_def buf_pool_def lt_io_add_def lt_new_event_def ev_at_def demo_event_def
      lt_alloc_def pool_at_def alignment_ptr_def new_event_at_def lt_ev_init_def ev_set_def set_timeout_def NO_TIMEOUT_def lt_add_to_epfd_def lt_epoll_ctl_def sizeof_event_def)
  moreover have "map lowcase (fst (''HOST'', ''x'')) = ''host''" by (simp add: lowcase_def lowcase_table_def nth_append)
  ultimately show ?thesis using host_header_not_recognised by fastforce
qed

end
