(* ===== verification/Worker.thy ===== *)
theory Worker
  imports Proxy
begin

text \<open>
  The process of main.c: set up the event base and the server, and run the loop over the callbacks of the server.
\<close>

section \<open>The process\<close>

text \<open>
  \<open>child\<close> of main.c: \<open>conf\<close> is what \<open>main\<close> got from \<open>malloc\<close> and does not check; the next three arguments are what
  the system calls of \<open>lt_base_init\<close> return, then those of \<open>http_worker_new\<close>, then the clock and the rounds of the loop.
\<close>

datatype 'w child_end = Exit_failure 'w | Child_returns int 'w | Child_waits 'w | Child_hangs

definition child ::
  "net \<Rightarrow> u64 \<Rightarrow> u64 \<times> int \<times> u64 \<Rightarrow> u64 \<times> int \<times> (int \<times> int) list \<times> int \<times> int \<Rightarrow> lt_time \<Rightarrow> round list \<Rightarrow>
   'a web_scheme \<Rightarrow> 'a web_scheme child_end option" where
  "child nt conf init worker start rounds w =
     (case init of (malloc_base, epfd, malloc_head) \<Rightarrow>
      case worker of (malloc_http, gai, ps, listen_rv, sigpipe) \<Rightarrow> do {
        (base, w1) \<leftarrow> lt_base_init (sy_os (nt_sys nt)) malloc_base epfd malloc_head w;
        if base = 0 then Some (Exit_failure w1)
        else if conf = 0 then None
        else do {
          (http, w2) \<leftarrow> http_worker_new nt malloc_http gai ps listen_rv sigpipe w1;
          if http = 0 then Some (Exit_failure w2)
          else
            (case lt_base_loop (dispatch nt) NO_TIMEOUT start rounds w2 of
               None \<Rightarrow> None
             | Some (Returned _ w3) \<Rightarrow> Some (Child_returns 0 w3)
             | Some (Waiting w3) \<Rightarrow> Some (Child_waits w3)
             | Some Hung \<Rightarrow> Some Child_hangs)
        }
      })"

end
