(* ===== verification/Incoming.thy ===== *)
theory Incoming
  imports Proxy
begin

text \<open>
  What \<open>http_data_coming\<close> and \<open>proxy_data_coming\<close> have in common: a new buffer, receiving into it, and a new request. The result
  is the state in which the message is parsed.
\<close>

section \<open>Data that fits one buffer\<close>

lemma poke_append: "poke (poke mem p as) (p + int (length as)) bs = poke mem p (as @ bs)"
proof -
  have "nat (a - (p + int (length as))) = nat (a - p) - length as" for a by linarith
  then show ?thesis by (auto simp: poke_def fun_eq_iff nth_append nat_less_iff)
qed

lemma poke_Nil [simp]: "poke mem p [] = mem"
  by (auto simp: poke_def fun_eq_iff)

lemma poke_stored: "stored (poke mem p cs) p cs"
proof -
  have "stored mem' p cs" if "\<And>i. i < length cs \<Longrightarrow> mem' (p + int i) = cs ! i" for mem'
    using that
  proof (induction cs arbitrary: p)
    case (Cons c cs)
    have "mem' (p + 1 + int i) = cs ! i" if "i < length cs" for i
      using Cons.prems [of "Suc i"] that by (simp add: algebra_simps)
    then show ?case using Cons.IH [of "p + 1"] Cons.prems [of 0] by simp
  qed simp
  then show ?thesis by (simp add: poke_def)
qed

lemma recv_fits:
  assumes "open_buffer w ma x b" "used x b + length (concat dss) < 16384" "\<forall>ds \<in> set dss. ds \<noteq> []" "no_data rest" "0 \<le> n"
  shows "recv_loop sy fd (map Data dss @ rest) x n w = Some (recv_code (n + int (length (concat dss))) rest, tl rest,
    w\<lparr>w_mem := poke (w_mem w) (bf_last b) (concat dss), w_buf := (w_buf w)(x \<mapsto> b\<lparr>bf_last := bf_last b + int (length (concat dss))\<rparr>)\<rparr>)"
  using assms
proof (induction dss arbitrary: w b n)
  case Nil
  have "buf_at w x = Some b" using Nil.prems(1) by (simp add: open_buffer_def buf_at_def)
  moreover have e: "w\<lparr>w_mem := poke (w_mem w) (bf_last b) (concat []),
      w_buf := (w_buf w)(x \<mapsto> b\<lparr>bf_last := bf_last b + int (length (concat []))\<rparr>)\<rparr> = w"
    using Nil.prems(1) by (simp add: open_buffer_def fun_upd_idem)
  ultimately show ?case using recv_stop [OF Nil.prems(4) _ Nil.prems(5)] unfolding e by simp
next
  case (Cons ds dss)
  define b1 where "b1 = b\<lparr>bf_last := bf_last b + int (length ds)\<rparr>"
  define w1 where "w1 = w\<lparr>w_mem := poke (w_mem w) (bf_last b) ds, w_buf := (w_buf w)(x \<mapsto> b1)\<rparr>"
  have ds: "ds \<noteq> []" "used x b + length ds < 16384" using Cons.prems(2,3) by simp_all
  note st = received_part [OF Cons.prems(1) ds b1_def w1_def]
  have "recv_loop sy fd (map Data dss @ rest) x (n + int (length ds)) w1 =
      Some (recv_code (n + int (length ds) + int (length (concat dss))) rest, tl rest,
        w1\<lparr>w_mem := poke (w_mem w1) (bf_last b1) (concat dss), w_buf := (w_buf w1)(x \<mapsto> b1\<lparr>bf_last := bf_last b1 + int (length (concat dss))\<rparr>)\<rparr>)"
    by (rule Cons.IH [OF st(1)]) (use Cons.prems st(2) in simp_all)
  moreover have "w1\<lparr>w_mem := poke (w_mem w1) (bf_last b1) (concat dss), w_buf := (w_buf w1)(x \<mapsto> b1\<lparr>bf_last := bf_last b1 + int (length (concat dss))\<rparr>)\<rparr> =
      w\<lparr>w_mem := poke (w_mem w) (bf_last b) (concat (ds # dss)),
        w_buf := (w_buf w)(x \<mapsto> b\<lparr>bf_last := bf_last b + int (length (concat (ds # dss)))\<rparr>)\<rparr>"
    by (simp add: w1_def b1_def poke_append add.assoc)
  moreover have "n + int (length ds) + int (length (concat dss)) = n + int (length (concat (ds # dss)))" by simp
  ultimately show ?case
    unfolding list.map append.simps st(4) by (simp only:)
qed

text \<open>What a socket has after the next message: it is read up to the answer that there is no more, and with it.\<close>

fun unread :: "rx list \<Rightarrow> rx list" where
  "unread (Data ds # q) = unread q"
| "unread q = tl q"

lemma unread_data: "no_data rest \<Longrightarrow> unread (map Data dss @ rest) = tl rest"
  by (induction dss) (cases rest; simp; cases "hd rest"; simp)+

lemma new_chain_one:
  assumes "mgr_room w ma 16432 (Suc j)" and a: "a = word_of_nat (mgr_next w ma)" and sz: "sz \<le> 16384"
  shows "\<exists>pm. lt_new_buffer_chain sy ma sz w =
      Some (Some (a, w\<lparr>w_pool := pm, w_buf := (w_buf w)(a \<mapsto> fresh_buffer a ma\<lparr>bf_head := 1\<rparr>)\<rparr>)) \<and>
    mgr_next (w\<lparr>w_pool := pm\<rparr>) ma = mgr_next w ma + 16432 \<and> unat a = mgr_next w ma \<and> a \<noteq> 0 \<and>
    mgr_room (w\<lparr>w_pool := pm\<rparr>) ma 16432 j \<and> pool_kept (mgr_tail w ma) (w_pool w) pm"
proof -
  obtain pm where pm: "mgr_alloc sy ma w = Some (a, True, w\<lparr>w_pool := pm\<rparr>)" "mgr_room (w\<lparr>w_pool := pm\<rparr>) ma 16432 j" "mgr_next (w\<lparr>w_pool := pm\<rparr>) ma = mgr_next w ma + 16432"
      "40 \<le> mgr_next w ma" "mgr_next w ma + Suc j * 16432 < 2 ^ 64" "pool_kept (mgr_tail w ma) (w_pool w) pm"
    using mgr_alloc_ok [OF assms(1)] unfolding a by blast
  have ua: "unat a = mgr_next w ma" using pm(5) unfolding a by (intro unat_of_nat64) simp
  then have "a \<noteq> 0" using pm(4) by (metis not_numeral_le_zero unat_0)
  moreover have "\<not> 16384 < sz" using sz by simp
  ultimately show ?thesis
    using pm ua by (intro exI [of _ pm]) (simp add: lt_new_buffer_chain_def lt_new_buffer_def fresh_buffer_all buf_set_def buf_at_def)
qed

section \<open>The allocator\<close>

text \<open>
  \<open>supplies aa szs m\<close>: whatever elements are handed out from the blocks of \<open>m\<close> meanwhile, \<open>aligned_alloc\<close> gives fresh blocks
  of the sizes \<open>szs\<close>, one after the other.
\<close>

definition pools_like :: "pool_mem \<Rightarrow> pool_mem \<Rightarrow> bool" where
  "pools_like m m' \<longleftrightarrow> (\<forall>t. map_option (mp_pos_update (\<lambda>_. 0)) (m' t) = map_option (mp_pos_update (\<lambda>_. 0)) (m t))"

definition block_added :: "u64 \<Rightarrow> u64 \<Rightarrow> pool_mem \<Rightarrow> pool_mem \<Rightarrow> bool" where
  "block_added blk sz m m' \<longleftrightarrow> (\<forall>t. t \<noteq> blk \<longrightarrow> m' t = m t) \<and> (\<exists>h. m' blk = Some h \<and> mp_start h = blk \<and> mp_end h = blk + sz)"

fun supplies :: "aligned_alloc \<Rightarrow> u64 list \<Rightarrow> pool_mem \<Rightarrow> bool" where
  "supplies aa [] m \<longleftrightarrow> True"
| "supplies aa (sz # szs) m \<longleftrightarrow> (\<forall>m'. pools_like m m' \<longrightarrow> fresh_block aa m' sz \<and> aa m' sz \<noteq> 0 \<and>
     (\<forall>m''. block_added (aa m' sz) sz m' m'' \<longrightarrow> supplies aa szs m''))"

lemma pool_kept_like: "pool_kept tb m m' \<Longrightarrow> pools_like m m'"
  by (auto simp: pool_kept_def pools_like_def)

lemma pools_like_trans: "pools_like m m' \<Longrightarrow> pools_like m' m'' \<Longrightarrow> pools_like m m''"
  by (simp add: pools_like_def)

lemma pools_like_header: "pools_like m m' \<Longrightarrow> m' a = Some h \<Longrightarrow> \<exists>h0. m a = Some h0 \<and> mp_start h0 = mp_start h \<and> mp_end h0 = mp_end h"
proof -
  assume "pools_like m m'" "m' a = Some h"
  then have "map_option (mp_pos_update (\<lambda>_. 0)) (m a) = Some (h\<lparr>mp_pos := 0\<rparr>)"
    unfolding pools_like_def by (metis option.map(2))
  then obtain h0 where "m a = Some h0" and e: "h0\<lparr>mp_pos := 0\<rparr> = h\<lparr>mp_pos := 0\<rparr>" by auto
  moreover have "mp_start h0 = mp_start h" "mp_end h0 = mp_end h"
    using arg_cong [OF e, of mp_start] arg_cong [OF e, of mp_end] by simp_all
  ultimately show ?thesis by blast
qed

lemma pools_like_None: "pools_like m m' \<Longrightarrow> m' a = None \<longleftrightarrow> m a = None"
  by (metis pools_like_def map_option_is_None)

lemma supplies_args:
  assumes "supplies aa ((sizeof_pool_manager + n * e) # szs) m" "pools_like m m'" "ma \<noteq> 0"
    and "8 dvd unat e" "8 < unat e" "unat e < 2 ^ 62" "48 + unat n * unat e < 2 ^ 62"
  shows "pool_args aa ma e n m'"
  using assms by (simp add: pool_args_def)

lemma mgr_room_kept:
  assumes "pool_kept tb (w_pool w) pm" "tb \<noteq> mgr_tail w ma"
  shows "mgr_room (w\<lparr>w_pool := pm\<rparr>) ma e j = mgr_room w ma e j" "mgr_next (w\<lparr>w_pool := pm\<rparr>) ma = mgr_next w ma"
  using assms
  by (auto simp: mgr_room_def mgr_next_def mgr_tail_def pool_kept_def pool_room_def tail_used_def tail_next_def pool_at_def split: option.splits)

lemma mgr_room_cong:
  assumes "w_mgr w' ma = w_mgr w ma" "w_pool w' (mgr_tail w ma) = w_pool w (mgr_tail w ma)"
  shows "mgr_room w' ma = mgr_room w ma" "mgr_next w' ma = mgr_next w ma" "mgr_tail w' ma = mgr_tail w ma"
  using assms by (auto simp: fun_eq_iff mgr_room_def mgr_next_def mgr_tail_def pool_room_def tail_used_def tail_next_def pool_at_def split: option.splits)

lemma room_tail_live: "mgr_room w ma e j \<Longrightarrow> w_pool w (mgr_tail w ma) \<noteq> None"
  by (auto simp: mgr_room_def mgr_tail_def pool_room_def tail_used_def pool_at_def split: option.splits if_splits)

lemma supplies_like: "supplies aa szs m \<Longrightarrow> pools_like m m' \<Longrightarrow> supplies aa szs m'"
  by (cases szs) (auto intro: pools_like_trans)

section \<open>A request for new data\<close>

definition fresh_request :: "net \<Rightarrow> u64 \<Rightarrow> connection \<Rightarrow> http_request" where
  "fresh_request nt conn c = (nt_junk_req nt)\<lparr>hr_conn := conn, hr_header_in := cn_buf c, hr_req := (hr_req (nt_junk_req nt))\<lparr>rq_state := 0\<rparr>\<rparr>"

lemma req_alloc_ok:
  assumes "mgr_room w ma 552 (Suc j)" and req: "req = word_of_nat (mgr_next w ma)"
  shows "\<exists>pm. req_alloc nt ma w = Some (req, w\<lparr>w_pool := pm, w_req := (w_req w)(req \<mapsto> nt_junk_req nt)\<rparr>) \<and>
    req \<noteq> 0 \<and> unat req + 552 < 2 ^ 64 \<and> pool_kept (mgr_tail w ma) (w_pool w) pm \<and> mgr_room (w\<lparr>w_pool := pm\<rparr>) ma 552 j \<and>
    mgr_next (w\<lparr>w_pool := pm\<rparr>) ma = mgr_next w ma + 552"
proof -
  obtain pm where pm: "mgr_alloc (nt_sys nt) ma w = Some (req, True, w\<lparr>w_pool := pm\<rparr>)"
      "40 \<le> mgr_next w ma" "mgr_next w ma + Suc j * 552 < 2 ^ 64" "pool_kept (mgr_tail w ma) (w_pool w) pm" "mgr_room (w\<lparr>w_pool := pm\<rparr>) ma 552 j"
      "mgr_next (w\<lparr>w_pool := pm\<rparr>) ma = mgr_next w ma + 552"
    using mgr_alloc_ok [OF assms(1)] unfolding req by blast
  have u: "unat req = mgr_next w ma" using pm(3) unfolding req by (intro unat_of_nat64) simp
  then have "req \<noteq> 0" using pm(2) by (metis not_numeral_le_zero unat_0)
  then show ?thesis using pm u by (intro exI [of _ pm]) (simp add: req_alloc_def)
qed

lemma member_not_null: "unat req + 552 < 2 ^ 64 \<Longrightarrow> header_pool req \<noteq> 0 \<and> chain_pool req \<noteq> 0"
proof -
  assume "unat req + 552 < 2 ^ 64"
  then have "unat (req + 432) = unat req + 432" "unat (req + 480) = unat req + 480" by (simp_all add: unat_word_ariths)
  then show ?thesis by (auto simp: header_pool_def chain_pool_def)
qed

text \<open>The sizes of the blocks a request asks for.\<close>

definition request_blocks :: "u64 list" where
  "request_blocks = [sizeof_pool_manager + DEFAULT_HEADER_ELEMENT_COUNT * sizeof_element, sizeof_pool_manager + CHAIN_POOL_LENGTH * sizeof_chain]"

definition header_block :: u64 where
  "header_block = sizeof_pool_manager + DEFAULT_HEADER_ELEMENT_COUNT * sizeof_element"

text \<open>
  What making a request takes: an element of the pool of requests, and a new block, at which the pool of header elements starts.
\<close>

definition request_made :: "net \<Rightarrow> u64 \<Rightarrow> u64 \<Rightarrow> nat \<Rightarrow> 'a web_scheme \<Rightarrow> 'a web_scheme \<Rightarrow> bool" where
  "request_made nt conn req k w w' \<longleftrightarrow> (\<exists>m. pool_kept (mgr_tail w (request_pool conn)) (w_pool w) m \<and>
     mgr_room (w\<lparr>w_pool := m\<rparr>) (request_pool conn) 552 k \<and> mgr_next (w\<lparr>w_pool := m\<rparr>) (request_pool conn) = mgr_next w (request_pool conn) + 552 \<and>
     m (mgr_tail w' (header_pool req)) = None \<and>
     mgr_tail w' (header_pool req) = os_aligned_alloc (sy_os (nt_sys nt)) m header_block \<and>
     block_added (mgr_tail w' (header_pool req)) header_block m (w_pool w'))"

lemma create_request_ok:
  assumes c: "conn_at w conn = Some c" "cn_request_free_head c = 0"
    and room: "mgr_room w (request_pool conn) 552 (Suc j)" and req: "req = word_of_nat (mgr_next w (request_pool conn))"
    and sup: "supplies (os_aligned_alloc (sy_os (nt_sys nt))) request_blocks m" "pools_like m (w_pool w)"
  shows "\<exists>mg pm w'. http_create_request nt conn w = Some (req, w') \<and>
    w' = w\<lparr>w_pool := pm, w_mgr := (w_mgr w)(header_pool req \<mapsto> mg), w_req := (w_req w)(req \<mapsto> fresh_request nt conn c)\<rparr> \<and>
    mgr_room w' (header_pool req) 88 16 \<and> req \<noteq> 0 \<and>
    (\<forall>pm'. pools_like pm pm' \<longrightarrow> pool_args (os_aligned_alloc (sy_os (nt_sys nt))) (chain_pool req) sizeof_chain CHAIN_POOL_LENGTH pm') \<and>
    request_made nt conn req j w w'"
proof -
  let ?aa = "os_aligned_alloc (sy_os (nt_sys nt))"
  obtain pm1 where a: "req_alloc nt (request_pool conn) w = Some (req, w\<lparr>w_pool := pm1, w_req := (w_req w)(req \<mapsto> nt_junk_req nt)\<rparr>)"
      "req \<noteq> 0" "unat req + 552 < 2 ^ 64" "pool_kept (mgr_tail w (request_pool conn)) (w_pool w) pm1"
      "mgr_room (w\<lparr>w_pool := pm1\<rparr>) (request_pool conn) 552 j"
      "mgr_next (w\<lparr>w_pool := pm1\<rparr>) (request_pool conn) = mgr_next w (request_pool conn) + 552"
    using req_alloc_ok [OF room req] by blast
  define w2 where "w2 = w\<lparr>w_pool := pm1, w_req := (w_req w)(req \<mapsto> fresh_request nt conn c)\<rparr>"
  have like: "pools_like m pm1" using pools_like_trans [OF sup(2) pool_kept_like [OF a(4)]] .
  have args: "pool_args ?aa (header_pool req) sizeof_element DEFAULT_HEADER_ELEMENT_COUNT (w_pool w2)"
    by (rule supplies_args [OF sup(1) [unfolded request_blocks_def]])
      (use like member_not_null [OF a(3)] in \<open>simp_all add: w2_def sizeof_element_def DEFAULT_HEADER_ELEMENT_COUNT_def\<close>)
  let ?sz = "sizeof_pool_manager + DEFAULT_HEADER_ELEMENT_COUNT * sizeof_element"
  obtain mg pm where n: "mgr_new (nt_sys nt) (header_pool req) sizeof_element DEFAULT_HEADER_ELEMENT_COUNT w2 =
        Some (w2\<lparr>w_mgr := (w_mgr w2)(header_pool req \<mapsto> mg), w_pool := pm\<rparr>)"
      "mgr_room (w2\<lparr>w_mgr := (w_mgr w2)(header_pool req \<mapsto> mg), w_pool := pm\<rparr>) (header_pool req) 88 16"
      "own_block (?aa pm1 ?sz) sizeof_element DEFAULT_HEADER_ELEMENT_COUNT mg pm" "\<forall>t. t \<noteq> ?aa pm1 ?sz \<longrightarrow> pm t = pm1 t"
      "mgr_tail (w2\<lparr>w_mgr := (w_mgr w2)(header_pool req \<mapsto> mg), w_pool := pm\<rparr>) (header_pool req) = ?aa pm1 ?sz"
    using mgr_new_ok [OF args refl] by (auto simp: w2_def sizeof_element_def DEFAULT_HEADER_ELEMENT_COUNT_def)
  have added: "block_added (?aa pm1 ?sz) ?sz pm1 pm" using n(3,4) by (auto simp: block_added_def own_block_def)
  moreover have "pm1 (?aa pm1 ?sz) = None" using args by (simp add: pool_args_def fresh_block_def w2_def)
  ultimately have made: "request_made nt conn req j w (w2\<lparr>w_mgr := (w_mgr w2)(header_pool req \<mapsto> mg), w_pool := pm\<rparr>)"
    using a(4-6) n(5) unfolding request_made_def header_block_def by (intro exI [of _ pm1]) simp
  from added have sup2: "supplies ?aa [sizeof_pool_manager + CHAIN_POOL_LENGTH * sizeof_chain] pm"
    using sup(1) like unfolding request_blocks_def supplies.simps(2) [of _ ?sz] by blast
  have chains: "pool_args ?aa (chain_pool req) sizeof_chain CHAIN_POOL_LENGTH pm'" if "pools_like pm pm'" for pm'
    by (rule supplies_args [OF sup2 that]) (use member_not_null [OF a(3)] in \<open>simp_all add: sizeof_chain_def CHAIN_POOL_LENGTH_def\<close>)
  have "req_set req (\<lambda>r. r\<lparr>hr_conn := conn, hr_header_in := cn_buf c, hr_req := (hr_req r)\<lparr>rq_state := 0\<rparr>\<rparr>)
      (w\<lparr>w_pool := pm1, w_req := (w_req w)(req \<mapsto> nt_junk_req nt)\<rparr>) = Some w2"
    using a(2) by (simp add: req_set_def req_at_def w2_def fresh_request_def)
  then have "http_create_request nt conn w = Some (req, w2\<lparr>w_mgr := (w_mgr w2)(header_pool req \<mapsto> mg), w_pool := pm\<rparr>)"
    using c a(1) n(1) by (simp add: http_create_request_def)
  then show ?thesis
    using n(2) a(2) chains made
    by (intro exI [of _ mg] exI [of _ pm] exI [of _ "w2\<lparr>w_mgr := (w_mgr w2)(header_pool req \<mapsto> mg), w_pool := pm\<rparr>"]) (simp add: w2_def)
qed

section \<open>Receiving into a new buffer\<close>

definition filled :: "u64 \<Rightarrow> u64 \<Rightarrow> string \<Rightarrow> lt_buffer" where
  "filled a ma s = (fresh_buffer a ma)\<lparr>bf_head := 1, bf_last := uint a + int (length s)\<rparr>"

definition after_recv :: "u64 \<Rightarrow> connection \<Rightarrow> u64 \<Rightarrow> string \<Rightarrow> rx list \<Rightarrow> pool_mem \<Rightarrow> 'a web_scheme \<Rightarrow> 'a web_scheme" where
  "after_recv conn c a s rest pm w = w\<lparr>w_pool := pm, w_mem := poke (w_mem w) (uint a) s,
     w_buf := (w_buf w)(a \<mapsto> filled a (cn_buf_pool_manager c) s), w_in := (w_in w)(cn_fd c := rest),
     w_conn := (w_conn w)(conn \<mapsto> c\<lparr>cn_buf := a\<rparr>)\<rparr>"

lemma receive_ok:
  assumes c: "conn_at w conn = Some c" and room: "mgr_room w (cn_buf_pool_manager c) 16432 (Suc j)"
    and a: "a = word_of_nat (mgr_next w (cn_buf_pool_manager c))"
    and q: "w_in w (cn_fd c) = map Data dss @ rest" "\<forall>ds \<in> set dss. ds \<noteq> []" "no_data rest" "length (concat dss) < 16384"
  shows "\<exists>pm w1 w2. lt_new_buffer_chain sy (cn_buf_pool_manager c) 16384 w = Some (Some (a, w1)) \<and>
    conn_set conn (cn_buf_update (\<lambda>_. a)) w1 = Some w2 \<and>
    lt_recv sy (cn_fd c) a w2 = Some (recv_code (int (length (concat dss))) rest, after_recv conn c a (concat dss) (tl rest) pm w) \<and>
    a \<noteq> 0 \<and> pool_kept (mgr_tail w (cn_buf_pool_manager c)) (w_pool w) pm \<and> mgr_room (w\<lparr>w_pool := pm\<rparr>) (cn_buf_pool_manager c) 16432 j"
proof -
  let ?ma = "cn_buf_pool_manager c" and ?b = "fresh_buffer a (cn_buf_pool_manager c)\<lparr>bf_head := 1\<rparr>"
  obtain pm where pm: "lt_new_buffer_chain sy ?ma 16384 w = Some (Some (a, w\<lparr>w_pool := pm, w_buf := (w_buf w)(a \<mapsto> ?b)\<rparr>))"
      "mgr_next (w\<lparr>w_pool := pm\<rparr>) ?ma = mgr_next w ?ma + 16432" "unat a = mgr_next w ?ma" "a \<noteq> 0" "mgr_room (w\<lparr>w_pool := pm\<rparr>) ?ma 16432 j" "pool_kept (mgr_tail w ?ma) (w_pool w) pm"
    using new_chain_one [OF room a order_refl, of sy] by blast
  define w1 where "w1 = w\<lparr>w_pool := pm, w_buf := (w_buf w)(a \<mapsto> ?b)\<rparr>"
  define w2 where "w2 = w1\<lparr>w_conn := (w_conn w)(conn \<mapsto> c\<lparr>cn_buf := a\<rparr>)\<rparr>"
  have set: "conn_set conn (cn_buf_update (\<lambda>_. a)) w1 = Some w2"
  proof -
    have "conn_at w1 = conn_at w" by (simp add: fun_eq_iff conn_at_def w1_def)
    then show ?thesis using c by (simp add: conn_set_def w2_def) (simp add: w1_def)
  qed
  have ob: "open_buffer w2 ?ma a ?b" "used a ?b = 0"
    using pm(2-4) by (simp_all add: open_buffer_def used_def w2_def w1_def fresh_buffer_def DEFAULT_BUF_SIZE_def)
  have "recv_loop sy (cn_fd c) (map Data dss @ rest) a 0 w2 = Some (recv_code (0 + int (length (concat dss))) rest, tl rest,
      w2\<lparr>w_mem := poke (w_mem w2) (bf_last ?b) (concat dss), w_buf := (w_buf w2)(a \<mapsto> ?b\<lparr>bf_last := bf_last ?b + int (length (concat dss))\<rparr>)\<rparr>)"
    by (rule recv_fits [OF ob(1)]) (use q ob(2) in simp_all)
  moreover have "w_in w2 (cn_fd c) = map Data dss @ rest" using q(1) by (simp add: w2_def w1_def)
  moreover have "(w2\<lparr>w_mem := poke (w_mem w2) (bf_last ?b) (concat dss), w_buf := (w_buf w2)(a \<mapsto> ?b\<lparr>bf_last := bf_last ?b + int (length (concat dss))\<rparr>)\<rparr>)
      \<lparr>w_in := (w_in w)(cn_fd c := tl rest)\<rparr> = after_recv conn c a (concat dss) (tl rest) pm w"
    by (simp add: after_recv_def filled_def w2_def w1_def fresh_buffer_def)
  ultimately have "lt_recv sy (cn_fd c) a w2 = Some (recv_code (int (length (concat dss))) rest, after_recv conn c a (concat dss) (tl rest) pm w)"
    by (simp add: lt_recv_def w2_def w1_def)
  with pm(1,4-6) set show ?thesis by (intro exI [of _ pm] exI [of _ w1] exI [of _ w2]) (simp add: w1_def)
qed

section \<open>Incoming messages\<close>

text \<open>
  What serving a connection \<open>c\<close> with pair \<open>p\<close> relies on: room for one buffer and one request, in different blocks; an allocator
  that supplies the request's two pools; a cleared \<open>next\<close> in fresh chains, and a \<open>writev\<close> that takes everything.
\<close>

definition served :: "net \<Rightarrow> 'a web_scheme \<Rightarrow> u64 \<Rightarrow> connection \<Rightarrow> connection \<Rightarrow> bool" where
  "served nt w conn c p \<longleftrightarrow> conn_at w conn = Some c \<and> conn_at w (cn_pair c) = Some p \<and> cn_pair c \<noteq> conn \<and>
     cn_request_free_head c = 0 \<and> ev_at (w_ev w) (cn_ev c) \<noteq> None \<and>
     mgr_room w (cn_buf_pool_manager c) 16432 1 \<and> mgr_room w (request_pool conn) 552 1 \<and>
     mgr_tail w (cn_buf_pool_manager c) \<noteq> mgr_tail w (request_pool conn) \<and>
     supplies (os_aligned_alloc (sy_os (nt_sys nt))) request_blocks (w_pool w) \<and>
     ch_next (sy_junk_chain (nt_sys nt)) = 0 \<and> length (rq_lowcase_header (hr_req (nt_junk_req nt))) = 32 \<and>
     (\<forall>out vs. fst (sy_writev (nt_sys nt) out (cn_fd p) vs) = int (length (concat vs)))"

text \<open>The socket delivers \<open>s\<close> in pieces of any sizes and then has no more for now.\<close>

definition arrives :: "'a bufs_scheme \<Rightarrow> int \<Rightarrow> string \<Rightarrow> bool" where
  "arrives w fd s \<longleftrightarrow> length s < 16384 \<and> (\<exists>dss rest. w_in w fd = map Data dss @ rest \<and> (\<forall>ds \<in> set dss. ds \<noteq> []) \<and> concat dss = s \<and>
     (rest = [] \<or> hd rest = Err EAGAIN))"

text \<open>The state in which the message is parsed.\<close>

definition ready_to_parse :: "net \<Rightarrow> 'a web_scheme \<Rightarrow> u64 \<Rightarrow> connection \<Rightarrow> connection \<Rightarrow> string \<Rightarrow> u64 \<Rightarrow> u64 \<Rightarrow> 'a web_scheme \<Rightarrow> bool" where
  "ready_to_parse nt w conn c p s a req w4 \<longleftrightarrow> conn_at w4 conn = Some (c\<lparr>cn_buf := a\<rparr>) \<and> conn_at w4 (cn_pair c) = Some p \<and>
     w_conn w4 = (w_conn w)(conn \<mapsto> c\<lparr>cn_buf := a\<rparr>) \<and> w_ev w4 = w_ev w \<and> w_out w4 = w_out w \<and> w_HostHash w4 = w_HostHash w \<and>
     req_at w4 req = Some (fresh_request nt conn (c\<lparr>cn_buf := a\<rparr>)) \<and> buf_at w4 a = Some (filled a (cn_buf_pool_manager c) s) \<and>
     0 < uint a \<and> stored (w_mem w4) (uint a) s \<and> mgr_room w4 (header_pool req) 88 16 \<and>
     (\<forall>pm'. pools_like (w_pool w4) pm' \<longrightarrow>
        pool_args (os_aligned_alloc (sy_os (nt_sys nt))) (chain_pool req) sizeof_chain CHAIN_POOL_LENGTH pm')"

text \<open>What is left in the pools when a message has been received and its request has been made and \<open>m\<close> are the blocks.\<close>

definition pools_used :: "net \<Rightarrow> u64 \<Rightarrow> u64 \<Rightarrow> nat \<Rightarrow> nat \<Rightarrow> 'a web_scheme \<Rightarrow> pool_mem \<Rightarrow> bool" where
  "pools_used nt conn ma j k w m \<longleftrightarrow> mgr_room (w\<lparr>w_pool := m\<rparr>) ma 16432 j \<and> mgr_room (w\<lparr>w_pool := m\<rparr>) (request_pool conn) 552 k \<and>
     mgr_next (w\<lparr>w_pool := m\<rparr>) (request_pool conn) = mgr_next w (request_pool conn) + 552 \<and>
     (\<forall>szs. supplies (os_aligned_alloc (sy_os (nt_sys nt))) (header_block # szs) (w_pool w) \<longrightarrow> supplies (os_aligned_alloc (sy_os (nt_sys nt))) szs m)"

lemma pools_used_ok:
  assumes recv: "pool_kept (mgr_tail w ma) (w_pool w) (w_pool v)" "mgr_room (w\<lparr>w_pool := w_pool v\<rparr>) ma 16432 j"
    and made: "request_made nt conn req k v v'" and same: "w_mgr v = w_mgr w"
    and nx: "mgr_next v (request_pool conn) = mgr_next w (request_pool conn)" and apart: "mgr_tail w ma \<noteq> mgr_tail w (request_pool conn)"
    and live: "w_pool w (mgr_tail w (request_pool conn)) \<noteq> None" "w_pool w (mgr_tail w ma) \<noteq> None"
    and kept: "pool_kept (mgr_tail v' (header_pool req)) (w_pool v') m"
  shows "pools_used nt conn ma j k w m" "mgr_tail v' (header_pool req) \<noteq> mgr_tail w ma"
proof -
  let ?hb = "mgr_tail v' (header_pool req)" and ?rt = "mgr_tail w (request_pool conn)"
  have tails: "mgr_tail v = mgr_tail w" using same by (simp add: fun_eq_iff mgr_tail_def)
  obtain m1 where m1: "pool_kept ?rt (w_pool v) m1" "mgr_room (v\<lparr>w_pool := m1\<rparr>) (request_pool conn) 552 k" "m1 ?hb = None"
      "?hb = os_aligned_alloc (sy_os (nt_sys nt)) m1 header_block" "block_added ?hb header_block m1 (w_pool v')"
      "mgr_next (v\<lparr>w_pool := m1\<rparr>) (request_pool conn) = mgr_next v (request_pool conn) + 552"
    using made unfolding request_made_def tails by blast
  have hb: "?hb \<noteq> ?rt" "?hb \<noteq> mgr_tail w ma"
    using m1(3) live pool_kept_like [OF m1(1)] pool_kept_like [OF recv(1)] pools_like_None by metis+
  then have m: "m ?rt = m1 ?rt" "m (mgr_tail w ma) = w_pool v (mgr_tail w ma)"
    using kept m1(1,5) apart by (simp_all add: pool_kept_def block_added_def)
  show "?hb \<noteq> mgr_tail w ma" using hb(2) .
  have "mgr_room (w\<lparr>w_pool := m\<rparr>) ma 16432 j"
    using recv(2) m(2) mgr_room_cong(1) [of "w\<lparr>w_pool := m\<rparr>" ma "w\<lparr>w_pool := w_pool v\<rparr>"] by (simp add: mgr_tail_def)
  moreover have "mgr_room (w\<lparr>w_pool := m\<rparr>) (request_pool conn) 552 k" "mgr_next (w\<lparr>w_pool := m\<rparr>) (request_pool conn) = mgr_next w (request_pool conn) + 552"
    using m1(2,6) m(1) same nx mgr_room_cong [of "w\<lparr>w_pool := m\<rparr>" "request_pool conn" "v\<lparr>w_pool := m1\<rparr>"] by (simp_all add: mgr_tail_def)
  moreover have "supplies (os_aligned_alloc (sy_os (nt_sys nt))) szs m"
    if s: "supplies (os_aligned_alloc (sy_os (nt_sys nt))) (header_block # szs) (w_pool w)" for szs
  proof -
    have "pools_like (w_pool w) m1" using pools_like_trans [OF pool_kept_like [OF recv(1)] pool_kept_like [OF m1(1)]] .
    then have "supplies (os_aligned_alloc (sy_os (nt_sys nt))) szs (w_pool v')" using s m1(4,5) by auto
    then show ?thesis using supplies_like pool_kept_like [OF kept] by blast
  qed
  ultimately show "pools_used nt conn ma j k w m" by (simp add: pools_used_def)
qed

lemma incoming_ok:
  assumes sv: "served nt w conn c p" and ar: "arrives w (cn_fd c) s" "s \<noteq> []"
    and room: "mgr_room w (cn_buf_pool_manager c) 16432 (Suc j)" "mgr_room w (request_pool conn) 552 (Suc k)"
  shows "\<exists>a w1 w2 w3 req w4. lt_new_buffer_chain (nt_sys nt) (cn_buf_pool_manager c) 16384 w = Some (Some (a, w1)) \<and>
    conn_set conn (cn_buf_update (\<lambda>_. a)) w1 = Some w2 \<and> lt_recv (nt_sys nt) (cn_fd c) a w2 = Some (int (length s), w3) \<and>
    conn_at w3 conn = Some (c\<lparr>cn_buf := a\<rparr>) \<and> http_create_request nt conn w3 = Some (req, w4) \<and> ready_to_parse nt w conn c p s a req w4 \<and>
    req = word_of_nat (mgr_next w (request_pool conn)) \<and> (\<forall>x. x \<noteq> header_pool req \<longrightarrow> w_mgr w4 x = w_mgr w x) \<and>
    w_in w4 = (w_in w)(cn_fd c := unread (w_in w (cn_fd c))) \<and> mgr_tail w4 (header_pool req) \<noteq> mgr_tail w (cn_buf_pool_manager c) \<and>
    (\<forall>m. pool_kept (mgr_tail w4 (header_pool req)) (w_pool w4) m \<longrightarrow> pools_used nt conn (cn_buf_pool_manager c) j k w m)"
proof -
  let ?ma = "cn_buf_pool_manager c"
  have sv': "conn_at w conn = Some c" "conn_at w (cn_pair c) = Some p" "cn_pair c \<noteq> conn" "cn_request_free_head c = 0"
     "mgr_tail w ?ma \<noteq> mgr_tail w (request_pool conn)"
     "supplies (os_aligned_alloc (sy_os (nt_sys nt))) request_blocks (w_pool w)"
    using sv by (simp_all add: served_def)
  obtain dss rest where q: "w_in w (cn_fd c) = map Data dss @ rest" "\<forall>ds \<in> set dss. ds \<noteq> []" "concat dss = s" "rest = [] \<or> hd rest = Err EAGAIN"
      "length (concat dss) < 16384"
    using ar(1) by (auto simp: arrives_def)
  have rest: "no_data rest" "recv_code (int (length s)) rest = int (length s)" using q(4) ar(2) by (cases rest; auto)+
  obtain a pm w1 w2 where rc: "lt_new_buffer_chain (nt_sys nt) ?ma 16384 w = Some (Some (a, w1))" "conn_set conn (cn_buf_update (\<lambda>_. a)) w1 = Some w2"
      "lt_recv (nt_sys nt) (cn_fd c) a w2 = Some (int (length s), after_recv conn c a s (tl rest) pm w)"
      "a \<noteq> 0" "pool_kept (mgr_tail w ?ma) (w_pool w) pm" "mgr_room (w\<lparr>w_pool := pm\<rparr>) ?ma 16432 j"
    using receive_ok [OF sv'(1) room(1) refl q(1,2) rest(1) q(5), of "nt_sys nt"] unfolding q(3) rest(2) by blast
  define w3 where "w3 = after_recv conn c a s (tl rest) pm w"
  have conn: "conn \<noteq> 0" "conn_at w3 = (conn_at w)(conn \<mapsto> c\<lparr>cn_buf := a\<rparr>)"
    using sv'(1) by (auto simp: w3_def after_recv_def conn_at_def fun_eq_iff split: if_splits)
  have same: "w_mgr w3 = w_mgr w" "w_pool w3 = pm" by (simp_all add: w3_def after_recv_def)
  have "mgr_room w3 (request_pool conn) 552 (Suc k) = mgr_room (w\<lparr>w_pool := pm\<rparr>) (request_pool conn) 552 (Suc k)"
    by (rule fun_cong [OF fun_cong [OF fun_cong [OF mgr_cong(1)]]]) (simp_all add: w3_def after_recv_def)
  then have room3: "mgr_room w3 (request_pool conn) 552 (Suc k)" using mgr_room_kept(1) [OF rc(5) sv'(5)] room(2) by simp
  have "mgr_tail w3 = mgr_tail w" using same(1) by (simp add: fun_eq_iff mgr_tail_def)
  then have "pm (mgr_tail w (request_pool conn)) = w_pool w (mgr_tail w (request_pool conn))" using rc(5) sv'(5) by (simp add: pool_kept_def)
  then have nx: "mgr_next w3 (request_pool conn) = mgr_next w (request_pool conn)"
    using mgr_room_cong(2) [of w3 "request_pool conn" w] same by simp
  have c3: "conn_at w3 conn = Some (c\<lparr>cn_buf := a\<rparr>)" "cn_request_free_head (c\<lparr>cn_buf := a\<rparr>) = 0" "pools_like (w_pool w) (w_pool w3)"
    using conn sv'(4) pool_kept_like [OF rc(5)] by (simp_all add: w3_def after_recv_def)
  obtain req mg pm4 w4 where cr: "http_create_request nt conn w3 = Some (req, w4)"
      "w4 = w3\<lparr>w_pool := pm4, w_mgr := (w_mgr w3)(header_pool req \<mapsto> mg), w_req := (w_req w3)(req \<mapsto> fresh_request nt conn (c\<lparr>cn_buf := a\<rparr>))\<rparr>"
      "mgr_room w4 (header_pool req) 88 16" "req \<noteq> 0"
      "\<forall>pm'. pools_like pm4 pm' \<longrightarrow> pool_args (os_aligned_alloc (sy_os (nt_sys nt))) (chain_pool req) sizeof_chain CHAIN_POOL_LENGTH pm'"
      "request_made nt conn req k w3 w4" "req = word_of_nat (mgr_next w (request_pool conn))"
    using create_request_ok [OF c3(1,2) room3 refl sv'(6) c3(3)] unfolding nx by blast
  have conn4: "conn_at w4 = conn_at w3" by (simp add: fun_eq_iff conn_at_def cr(2))
  have "0 < uint a" using rc(4) by (simp add: word_gt_0_no uint_0_iff order_less_le)
  then have "ready_to_parse nt w conn c p s a req w4"
    using cr(3-5) rc(4) conn sv'(2,3) unfolding ready_to_parse_def conn4
    by (simp add: cr(2) req_at_def buf_at_def w3_def after_recv_def poke_stored)
  moreover have kept: "pool_kept (mgr_tail w ?ma) (w_pool w) (w_pool w3)" "mgr_room (w\<lparr>w_pool := w_pool w3\<rparr>) ?ma 16432 j"
    using rc(5,6) same(2) by simp_all
  note used = pools_used_ok [OF kept cr(6) same(1) nx sv'(5) room_tail_live [OF room(2)] room_tail_live [OF room(1)]]
  have "pool_kept (mgr_tail w4 (header_pool req)) (w_pool w4) (w_pool w4)" by (rule pool_kept_refl)
  then have "mgr_tail w4 (header_pool req) \<noteq> mgr_tail w ?ma" by (rule used(2))
  moreover have "\<forall>x. x \<noteq> header_pool req \<longrightarrow> w_mgr w4 x = w_mgr w x" "w_in w4 = (w_in w)(cn_fd c := unread (w_in w (cn_fd c)))"
    by (simp_all add: cr(2) same(1), simp add: w3_def after_recv_def q(1) unread_data [OF rest(1)])
  ultimately show ?thesis using rc(1-3) c3(1) cr(1,7) used(1) unfolding w3_def by blast
qed

end
