(* ===== verification/Data_Coming.thy ===== *)
theory Data_Coming
  imports Incoming
begin

text \<open>
  The two callbacks of a proxied exchange, from the socket to the socket: \<open>http_data_coming\<close> (http.c) receives a request of the
  client, makes the request structure, parses it and sends it on to the upstream server; \<open>proxy_data_coming\<close> (proxy.c) does the
  same with the response, and sends what follows the header after it.
\<close>

section \<open>From the client to the upstream server\<close>

text \<open>What is left in the pools, the managers and the sockets when a message that came on \<open>c\<close> has been sent on.\<close>

definition message_used :: "net \<Rightarrow> u64 \<Rightarrow> connection \<Rightarrow> nat \<Rightarrow> nat \<Rightarrow> 'a web_scheme \<Rightarrow> 'a web_scheme \<Rightarrow> bool" where
  "message_used nt conn c j k w w' \<longleftrightarrow> pools_used nt conn (cn_buf_pool_manager c) j k w (w_pool w') \<and>
     (\<forall>a req. req = word_of_nat (mgr_next w (request_pool conn)) \<longrightarrow> a \<noteq> header_pool req \<longrightarrow> a \<noteq> chain_pool req \<longrightarrow> w_mgr w' a = w_mgr w a) \<and>
     w_in w' = (w_in w)(cn_fd c := unread (w_in w (cn_fd c)))"

lemma client_data_full:
  assumes sv: "served nt w conn c p" and st: "cn_status c = L_CONNECTING_ACCEPTED"
    and ar: "arrives w (cn_fd c) (request_text name t M N fs)" and line: "good_line name t M N" and fs: "good_header w fs"
    and junk: "rq_complex_uri (hr_req (nt_junk_req nt)) = 0" "rq_quoted_uri (hr_req (nt_junk_req nt)) = 0"
    and ev: "ev_at (w_ev w) (cn_ev p) = Some e"
    and room: "mgr_room w (cn_buf_pool_manager c) 16432 (Suc j)" "mgr_room w (request_pool conn) 552 (Suc k)"
  shows "\<exists>w' a. http_data_coming nt conn w = Some (Some w') \<and>
    w_out w' = w_out w @ [(cn_fd p, request_text name t M N (map lower_field fs))] \<and>
    w_conn w' = (w_conn w)(conn \<mapsto> c\<lparr>cn_buf := a\<rparr>, cn_pair c \<mapsto> p\<lparr>cn_status := L_PROXY_WAITING_RESPONSE\<rparr>) \<and>
    w_ev w' = (w_ev w)(cn_ev p \<mapsto> mod_event (LV_FDRD OR LV_CONN) cb_proxy_data_coming (cn_pair c) e) \<and> message_used nt conn c j k w w'"
proof -
  let ?s = "request_text name t M N fs"
  have ne: "?s \<noteq> []" by (simp add: request_text_def)
  obtain a w1 w2 w3 req w4 where i: "lt_new_buffer_chain (nt_sys nt) (cn_buf_pool_manager c) 16384 w = Some (Some (a, w1))"
      "conn_set conn (cn_buf_update (\<lambda>_. a)) w1 = Some w2" "lt_recv (nt_sys nt) (cn_fd c) a w2 = Some (int (length ?s), w3)"
      "http_create_request nt conn w3 = Some (req, w4)" "ready_to_parse nt w conn c p ?s a req w4"
      "req = word_of_nat (mgr_next w (request_pool conn))" "\<forall>x. x \<noteq> header_pool req \<longrightarrow> w_mgr w4 x = w_mgr w x"
      "w_in w4 = (w_in w)(cn_fd c := unread (w_in w (cn_fd c)))"
      "\<forall>m. pool_kept (mgr_tail w4 (header_pool req)) (w_pool w4) m \<longrightarrow> pools_used nt conn (cn_buf_pool_manager c) j k w m"
    using incoming_ok [OF sv ar ne room] by (elim exE conjE) (rule that; assumption)
  let ?c = "c\<lparr>cn_buf := a\<rparr>" and ?b = "filled a (cn_buf_pool_manager c) ?s"
  define r where "r = fresh_request nt conn ?c"
  have rd: "conn_at w4 conn = Some ?c" "conn_at w4 (cn_pair c) = Some p" "w_conn w4 = (w_conn w)(conn \<mapsto> ?c)" "w_ev w4 = w_ev w" "w_out w4 = w_out w"
      "w_HostHash w4 = w_HostHash w" "req_at w4 req = Some r" "buf_at w4 a = Some ?b" "0 < uint a" "stored (w_mem w4) (uint a) ?s"
      "mgr_room w4 (header_pool req) 88 16"
      "\<forall>pm'. pools_like (w_pool w4) pm' \<longrightarrow> pool_args (os_aligned_alloc (sy_os (nt_sys nt))) (chain_pool req) sizeof_chain CHAIN_POOL_LENGTH pm'"
    using i(5) by (simp_all add: ready_to_parse_def r_def)
  have sv': "cn_pair c \<noteq> conn" "ev_at (w_ev w) (cn_ev c) \<noteq> None" "ch_next (sy_junk_chain (nt_sys nt)) = 0"
      "length (rq_lowcase_header (hr_req (nt_junk_req nt))) = 32" "\<forall>out vs. fst (sy_writev (nt_sys nt) out (cn_fd p) vs) = int (length (concat vs))"
    using sv by (simp_all add: served_def)
  have "length fs \<le> 16" using fs by (simp add: good_header_def)
  then have fw: "forwarding nt w4 req r ?c p e (length fs)"
    using rd(1,2) sv' ev mgr_room_le [OF rd(11)] rd(12) pool_kept_like by (simp add: forwarding_def r_def fresh_request_def rd(4))
  have r: "hr_header_in r = a" "hr_conn r = conn" "rq_state (hr_req r) = 0" "rq_complex_uri (hr_req r) = 0" "rq_quoted_uri (hr_req r) = 0"
      "length (rq_lowcase_header (hr_req r)) = 32"
    using junk sv'(4) by (simp_all add: r_def fresh_request_def)
  have b: "bf_pos ?b = uint a" "bf_last ?b = bf_pos ?b + int (length ?s)" by (simp_all add: filled_def fresh_buffer_def)
  have at: "buf_at w4 (hr_header_in r) = Some ?b" "0 < bf_pos ?b" "good_header w4 fs" "stored (w_mem w4) (bf_pos ?b) ?s"
    using rd(6,8-10) fs b(1) r(1) by (simp_all add: good_header_def)
  obtain w' where w': "http_process_request_line nt req w4 = Some (Some (LAGAIN, w'))" "forwarded w4 r ?c p e (request_text name t M N (map lower_field fs)) w'"
      "left_pools req w4 w'"
    using process_request_ok [OF rd(7) at(1,2) line at(3,4) b(2) r(3-6) fw] by blast
  have "http_data_coming nt conn w = Some (Some w')"
    using sv i(1-4) st w'(1) by (simp add: http_data_coming_def served_def DEFAULT_HEADER_BUFFER_SIZE_def)
  moreover have "?c\<lparr>cn_status := L_CONNECTING_ACCEPTED\<rparr> = ?c" using st by (cases c) simp
  moreover have "message_used nt conn c j k w w'"
    using w'(3) i(6-9) by (simp add: message_used_def left_pools_def)
  ultimately show ?thesis
    using w'(2) rd(3-5) r(2) by (intro exI [of _ w'] exI [of _ a]) (simp add: forwarded_def)
qed

lemma client_data_ok:
  assumes "served nt w conn c p" "cn_status c = L_CONNECTING_ACCEPTED"
    and "arrives w (cn_fd c) (request_text name t M N fs)" "good_line name t M N" "good_header w fs"
    and "rq_complex_uri (hr_req (nt_junk_req nt)) = 0" "rq_quoted_uri (hr_req (nt_junk_req nt)) = 0"
    and "ev_at (w_ev w) (cn_ev p) = Some e"
  shows "\<exists>w' a. http_data_coming nt conn w = Some (Some w') \<and>
    w_out w' = w_out w @ [(cn_fd p, request_text name t M N (map lower_field fs))] \<and>
    w_conn w' = (w_conn w)(conn \<mapsto> c\<lparr>cn_buf := a\<rparr>, cn_pair c \<mapsto> p\<lparr>cn_status := L_PROXY_WAITING_RESPONSE\<rparr>) \<and>
    w_ev w' = (w_ev w)(cn_ev p \<mapsto> mod_event (LV_FDRD OR LV_CONN) cb_proxy_data_coming (cn_pair c) e)"
  using client_data_full [OF assms, of 0 0] assms(1) by (auto simp: served_def)

section \<open>From the upstream server to the client\<close>

lemma send_body_ok:
  assumes b: "buf_at w a = Some b" "bf_next b = 0" "bf_last b = bf_pos b + int (length body)" "length body < 2147483648"
    and tx: "stored (w_mem w) (bf_pos b) body" and wv: "fst (sy_writev sy (w_out w) fd [body]) = int (length body)"
  shows "\<exists>rc. send_buffers sy fd a w = Some (Some (rc, if body = [] then w else w\<lparr>w_out := w_out w @ [(fd, body)]\<rparr>))"
proof (cases "body = []")
  case True
  have "a \<noteq> 0" using b(1) by (auto simp: buf_at_def)
  then show ?thesis using b True by (simp add: send_buffers_def)
next
  case False
  have bs: "bytes (w_mem w) (bf_pos b) (length body) = body" using stored_bytes [OF tx] .
  obtain errno where "sy_writev sy (w_out w) fd [bytes (w_mem w) (bf_pos b) (length body)] = (int (length body), errno)"
    using wv unfolding bs by (metis prod.collapse)
  then show ?thesis
    using buffers_single_ok [OF b(1,2), of "length body" sy fd "int (length body)" errno] b(3,4) False by (simp add: bs)
qed

text \<open>
  A response leaves the pool of its chains in place, so of the pools only that of the buffers is told: \<open>j\<close> more fit in, if its manager is not one
  of the two that lie in the request.
\<close>

definition response_left :: "u64 \<Rightarrow> connection \<Rightarrow> nat \<Rightarrow> 'a web_scheme \<Rightarrow> 'a web_scheme \<Rightarrow> bool" where
  "response_left conn c j w w' \<longleftrightarrow> w_in w' = (w_in w)(cn_fd c := unread (w_in w (cn_fd c))) \<and>
     (\<forall>req. req = word_of_nat (mgr_next w (request_pool conn)) \<longrightarrow> cn_buf_pool_manager c \<notin> {header_pool req, chain_pool req} \<longrightarrow>
        mgr_room w' (cn_buf_pool_manager c) 16432 j)"

lemma response_left_ok:
  assumes used: "pools_used nt conn (cn_buf_pool_manager c) j k w (w_pool w4)" and req: "req = word_of_nat (mgr_next w (request_pool conn))"
    and mgr: "\<forall>x. x \<noteq> header_pool req \<longrightarrow> w_mgr w4 x = w_mgr w x" and "in": "w_in w4 = (w_in w)(cn_fd c := unread (w_in w (cn_fd c)))"
    and apart: "mgr_tail w4 (header_pool req) \<noteq> mgr_tail w (cn_buf_pool_manager c)" and kept: "kept_pools req w4 w5"
  shows "response_left conn c j w (if body = [] then w5 else w5\<lparr>w_out := out\<rparr>)"
proof -
  let ?ma = "cn_buf_pool_manager c" and ?w' = "if body = [] then w5 else w5\<lparr>w_out := out\<rparr>"
  have room: "mgr_room (w\<lparr>w_pool := w_pool w4\<rparr>) ?ma 16432 j" using used by (simp add: pools_used_def)
  have live: "w_pool w4 (mgr_tail w ?ma) \<noteq> None" using room_tail_live [OF room] by (simp add: mgr_tail_def)
  have "mgr_room ?w' ?ma 16432 j" if ne: "?ma \<notin> {header_pool req, chain_pool req}"
  proof -
    have "w_mgr ?w' ?ma = w_mgr w ?ma" using mgr kept ne by (simp add: kept_pools_def)
    moreover have "w_pool ?w' (mgr_tail w ?ma) = w_pool w4 (mgr_tail w ?ma)" using kept apart live by (simp add: kept_pools_def)
    ultimately show ?thesis
      using room mgr_room_cong(1) [of ?w' ?ma "w\<lparr>w_pool := w_pool w4\<rparr>"] by (simp add: mgr_tail_def)
  qed
  then show ?thesis using "in" kept unfolding response_left_def req [symmetric] by (simp add: kept_pools_def)
qed

lemma upstream_data_full:
  assumes sv: "served nt w conn c p" and st: "cn_status c = L_PROXY_WAITING_RESPONSE"
    and ar: "arrives w (cn_fd c) (response_text (status_text M N x y z txt) fs @ body)" and line: "good_status M N x y z txt"
    and fs: "good_header w fs"
    and junk: "st_code (rq_status (hr_req (nt_junk_req nt))) = 0" "st_count (rq_status (hr_req (nt_junk_req nt))) = 0"
    and room: "mgr_room w (cn_buf_pool_manager c) 16432 (Suc j)"
  shows "\<exists>w' a. proxy_data_coming nt conn w = Some (Some w') \<and>
    w_out w' = w_out w @ (cn_fd p, response_text (status_text M N x y z txt) (map lower_field fs)) # (if body = [] then [] else [(cn_fd p, body)]) \<and>
    w_conn w' = (w_conn w)(conn \<mapsto> c\<lparr>cn_buf := a, cn_status := L_HTTP_WROTE_RESPONSE_HEADER\<rparr>) \<and> w_ev w' = w_ev w \<and> response_left conn c j w w'"
proof -
  let ?h = "response_text (status_text M N x y z txt) fs" let ?s = "?h @ body"
  have ne: "?s \<noteq> []" by (simp add: response_text_def)
  obtain a w1 w2 w3 req w4 where i: "lt_new_buffer_chain (nt_sys nt) (cn_buf_pool_manager c) 16384 w = Some (Some (a, w1))"
      "conn_set conn (cn_buf_update (\<lambda>_. a)) w1 = Some w2" "lt_recv (nt_sys nt) (cn_fd c) a w2 = Some (int (length ?s), w3)"
      "conn_at w3 conn = Some (c\<lparr>cn_buf := a\<rparr>)"
      "http_create_request nt conn w3 = Some (req, w4)" "ready_to_parse nt w conn c p ?s a req w4"
      "req = word_of_nat (mgr_next w (request_pool conn))" "\<forall>x. x \<noteq> header_pool req \<longrightarrow> w_mgr w4 x = w_mgr w x"
      "w_in w4 = (w_in w)(cn_fd c := unread (w_in w (cn_fd c)))" "mgr_tail w4 (header_pool req) \<noteq> mgr_tail w (cn_buf_pool_manager c)"
      "\<forall>m. pool_kept (mgr_tail w4 (header_pool req)) (w_pool w4) m \<longrightarrow> pools_used nt conn (cn_buf_pool_manager c) j 0 w m"
  proof -
    have "mgr_room w (request_pool conn) 552 (Suc 0)" using sv by (simp add: served_def)
    from incoming_ok [OF sv ar ne room this] show ?thesis by (elim exE conjE) (rule that; assumption)
  qed
  let ?c = "c\<lparr>cn_buf := a\<rparr>" and ?b = "filled a (cn_buf_pool_manager c) ?s"
  define r where "r = fresh_request nt conn ?c"
  have rd: "conn_at w4 conn = Some ?c" "conn_at w4 (cn_pair c) = Some p" "w_conn w4 = (w_conn w)(conn \<mapsto> ?c)" "w_ev w4 = w_ev w" "w_out w4 = w_out w"
      "w_HostHash w4 = w_HostHash w" "req_at w4 req = Some r" "buf_at w4 a = Some ?b" "0 < uint a" "stored (w_mem w4) (uint a) ?s"
      "mgr_room w4 (header_pool req) 88 16"
      "\<forall>pm'. pools_like (w_pool w4) pm' \<longrightarrow> pool_args (os_aligned_alloc (sy_os (nt_sys nt))) (chain_pool req) sizeof_chain CHAIN_POOL_LENGTH pm'"
    using i(6) by (simp_all add: ready_to_parse_def r_def)
  have sv': "conn_at w conn = Some c" "cn_pair c \<noteq> conn" "ev_at (w_ev w) (cn_ev c) \<noteq> None" "ch_next (sy_junk_chain (nt_sys nt)) = 0"
      "length (rq_lowcase_header (hr_req (nt_junk_req nt))) = 32" "\<forall>out vs. fst (sy_writev (nt_sys nt) out (cn_fd p) vs) = int (length (concat vs))"
    using sv by (simp_all add: served_def)
  have "length fs \<le> 16" using fs by (simp add: good_header_def)
  then have rs: "responding nt w4 conn req ?c p (length fs)"
    using rd(1,2) sv' mgr_room_le [OF rd(11)] rd(12) pool_kept_like by (simp add: responding_def rd(4))
  have r: "hr_header_in r = cn_buf ?c" "rq_state (hr_req r) = 0" "st_code (rq_status (hr_req r)) = 0" "st_count (rq_status (hr_req r)) = 0"
      "length (rq_lowcase_header (hr_req r)) = 32"
    using junk sv'(5) by (simp_all add: r_def fresh_request_def)
  have b: "bf_pos ?b = uint a" "bf_last ?b = uint a + int (length ?s)" "bf_next ?b = 0" by (simp_all add: filled_def fresh_buffer_def)
  have at: "buf_at w4 (cn_buf ?c) = Some ?b" "0 < bf_pos ?b" "good_header w4 fs" "stored (w_mem w4) (bf_pos ?b) ?h"
      "bf_pos ?b + int (length ?h) \<le> bf_last ?b" "stored (w_mem w4) (uint a + int (length ?h)) body"
    using rd(6,8-10) fs b(1,2) by (simp_all add: good_header_def stored_append)
  obtain w5 where w5: "http_process_response_line nt conn req w4 = Some (Some w5)"
      "w_out w5 = w_out w4 @ [(cn_fd p, response_text (status_text M N x y z txt) (map lower_field fs))]" "w_ev w5 = w_ev w4"
      "w_conn w5 = (w_conn w4)(conn \<mapsto> ?c\<lparr>cn_status := L_HTTP_WROTE_RESPONSE_HEADER\<rparr>)"
      "w_buf w5 = (w_buf w4)(cn_buf ?c \<mapsto> ?b\<lparr>bf_pos := bf_pos ?b + int (length ?h)\<rparr>)"
      "\<forall>x \<ge> bf_pos ?b + int (length ?h). w_mem w5 x = w_mem w4 x" "kept_pools req w4 w5"
    using process_response_ok [OF rd(1) at(1,2) rd(7) r(1) line at(3-5) r(2-5) rs] by blast
  have nz: "conn \<noteq> 0" "a \<noteq> 0" "cn_pair c \<noteq> 0" using sv'(1) rd(2,9) by (auto simp: conn_at_def)
  have c5: "conn_at w5 conn = Some (?c\<lparr>cn_status := L_HTTP_WROTE_RESPONSE_HEADER\<rparr>)" "conn_at w5 (cn_pair c) = Some p"
    using nz sv'(2) rd(2) w5(4) by (simp_all add: conn_at_def)
  have b5: "buf_at w5 a = Some (?b\<lparr>bf_pos := uint a + int (length ?h)\<rparr>)" using nz w5(5) b(1) by (simp add: buf_at_def)
  have "length body < 16384" using ar by (simp add: arrives_def)
  have "stored (w_mem w5) (uint a + int (length ?h)) body"
    using at(6) by (rule stored_frame) (use w5(6) b(1) in simp)
  then obtain rc where sb: "send_buffers (nt_sys nt) (cn_fd p) a w5 =
      Some (Some (rc, if body = [] then w5 else w5\<lparr>w_out := w_out w5 @ [(cn_fd p, body)]\<rparr>))"
    using send_body_ok [OF b5, of body "nt_sys nt" "cn_fd p"] b sv'(6) \<open>length body < 16384\<close> by auto
  obtain ec where "ev_at (w_ev w5) (cn_ev c) = Some ec" using sv'(3) rd(4) w5(3) by auto
  then have "proxy_data_coming nt conn w = Some (Some (if body = [] then w5 else w5\<lparr>w_out := w_out w5 @ [(cn_fd p, body)]\<rparr>))"
    using sv'(1) i(1-5) st ne w5(1) c5 sb unfolding proxy_data_coming_def
    by (simp add: DEFAULT_UPSTREAM_BUFFER_SIZE_def rc_defs)
  moreover have "response_left conn c j w (if body = [] then w5 else w5\<lparr>w_out := w_out w5 @ [(cn_fd p, body)]\<rparr>)"
    by (rule response_left_ok [OF i(11) [THEN spec, THEN mp, OF pool_kept_refl] i(7-10) w5(7)])
  ultimately show ?thesis
    using w5(2-4) rd(3-5)
    by (intro exI [of _ "if body = [] then w5 else w5\<lparr>w_out := w_out w5 @ [(cn_fd p, body)]\<rparr>"] exI [of _ a]) simp
qed

lemma upstream_data_ok:
  assumes "served nt w conn c p" "cn_status c = L_PROXY_WAITING_RESPONSE"
    and "arrives w (cn_fd c) (response_text (status_text M N x y z txt) fs @ body)" "good_status M N x y z txt" "good_header w fs"
    and "st_code (rq_status (hr_req (nt_junk_req nt))) = 0" "st_count (rq_status (hr_req (nt_junk_req nt))) = 0"
  shows "\<exists>w' a. proxy_data_coming nt conn w = Some (Some w') \<and>
    w_out w' = w_out w @ (cn_fd p, response_text (status_text M N x y z txt) (map lower_field fs)) # (if body = [] then [] else [(cn_fd p, body)]) \<and>
    w_conn w' = (w_conn w)(conn \<mapsto> c\<lparr>cn_buf := a, cn_status := L_HTTP_WROTE_RESPONSE_HEADER\<rparr>) \<and> w_ev w' = w_ev w"
  using upstream_data_full [OF assms, of 0] assms(1) by (auto simp: served_def)

section \<open>Properties\<close>

text \<open>
  Claim C3: when a client sends a well-formed request without a body (a request line and one to fourteen header fields) and
  the kernel delivers it in pieces of any sizes before it has no more, \<open>http_data_coming\<close> returns, the upstream server is sent
  exactly that request, its header names in lower case, in one \<open>writev\<close>, the upstream connection waits for the response and its
  event is registered for it with \<open>proxy_data_coming\<close>.
\<close>

theorem client_data_forwarded:
  assumes "served nt w conn c p" "cn_status c = L_CONNECTING_ACCEPTED"
    and "arrives w (cn_fd c) (request_text name t M N fs)" "good_line name t M N" "good_header w fs"
    and "rq_complex_uri (hr_req (nt_junk_req nt)) = 0" "rq_quoted_uri (hr_req (nt_junk_req nt)) = 0"
    and "ev_at (w_ev w) (cn_ev p) = Some e"
  shows "\<exists>w' a. http_data_coming nt conn w = Some (Some w') \<and>
    w_out w' = w_out w @ [(cn_fd p, request_text name t M N (map lower_field fs))] \<and>
    w_conn w' = (w_conn w)(conn \<mapsto> c\<lparr>cn_buf := a\<rparr>, cn_pair c \<mapsto> p\<lparr>cn_status := L_PROXY_WAITING_RESPONSE\<rparr>) \<and>
    w_ev w' = (w_ev w)(cn_ev p \<mapsto> mod_event (LV_FDRD OR LV_CONN) cb_proxy_data_coming (cn_pair c) e)"
  using assms by (rule client_data_ok)

text \<open>
  A served pair: the client's connection at 16384, the upstream's at 20480, nothing handed out of their pools yet, an allocator
  with two blocks left, and the pieces \<open>ds\<close> waiting on every socket.
\<close>

definition demo_pair :: "int \<Rightarrow> string list \<Rightarrow> web" where
  "demo_pair k ds = bufs.extend (lea.extend (demo_lea\<lparr>w_ev := [600 \<mapsto> (demo_event 0 0)\<lparr>ev_callback := cb_http_data_coming, ev_arg := 16384\<rparr>, 700 \<mapsto> demo_event 0 0],
       w_pool := [1048576 \<mapsto> \<lparr>mp_start = 1048576, mp_end = 2100272, mp_pos = 1048616, mp_next = 0, mp_manager = 304\<rparr>,
         524288 \<mapsto> \<lparr>mp_start = 524288, mp_end = 526544, mp_pos = 524328, mp_next = 0, mp_manager = 16536\<rparr>]\<rparr>)
     (bufs.fields [304 \<mapsto> \<lparr>pm_cur = 1048576, pm_one_element_size = 16432, pm_element_count = 64, pm_head = 1048576,
           pm_tail = 1048576, pm_heterogeneous_next = 0\<rparr>,
         16536 \<mapsto> \<lparr>pm_cur = 524288, pm_one_element_size = 552, pm_element_count = 4, pm_head = 524288,
           pm_tail = 524288, pm_heterogeneous_next = 0\<rparr>]
       (\<lambda>_. NUL) Map.empty Map.empty [] (\<lambda>_. map Data ds) (\<lambda>_. [])))
     (web.fields [16384 \<mapsto> (demo_conn 6 600 20480)\<lparr>cn_status := k\<rparr>, 20480 \<mapsto> demo_conn 7 700 16384] Map.empty Map.empty 8192 3 512
       (BKDRhash (mem_of 0 ''Host'') 0 5))"

definition demo_alloc :: aligned_alloc where
  "demo_alloc = (\<lambda>m _. if m 4194304 = None then 4194304 else 8388608)"

definition demo_pair_net :: net where
  "demo_pair_net = demo_net\<lparr>nt_sys := (nt_sys demo_net)\<lparr>sy_os := (sy_os (nt_sys demo_net))\<lparr>os_aligned_alloc := demo_alloc\<rparr>\<rparr>\<rparr>"

lemmas demo_pair_defs = demo_pair_def demo_lea_def lea.defs bufs.defs web.defs

lemma demo_pair_room: "mgr_room (demo_pair k ds) 304 16432 1" "mgr_room (demo_pair k ds) 16536 552 1"
  unfolding mgr_room_def
  by (simp_all add: demo_pair_defs pool_room_def well_sized_def tail_used_def pool_at_def)
    (rule exI [of _ "64::nat"], simp, rule exI [of _ "4::nat"], simp)

lemma demo_blocks_low:
  assumes "pools_like (w_pool (demo_pair k ds)) m" "m a = Some h"
  shows "unat (mp_end h) \<le> 2100272"
proof -
  obtain h0 where "w_pool (demo_pair k ds) a = Some h0" "mp_end h0 = mp_end h" using pools_like_header [OF assms] by blast
  then show ?thesis by (auto simp: demo_pair_defs split: if_splits)
qed

lemma demo_supplies: "supplies demo_alloc request_blocks (w_pool (demo_pair k ds))"
proof -
  let ?m = "w_pool (demo_pair k ds)" and ?sz = "sizeof_pool_manager + DEFAULT_HEADER_ELEMENT_COUNT * sizeof_element"
  have free: "m' t = None" if "pools_like ?m m'" "?m t = None" for m' t using pools_like_None [OF that(1)] that(2) by simp
  have sz: "unat ?sz = 1456" "unat (sizeof_pool_manager + CHAIN_POOL_LENGTH * sizeof_chain) \<le> 1000000"
    by (simp_all add: sizeof_pool_manager_def DEFAULT_HEADER_ELEMENT_COUNT_def sizeof_element_def CHAIN_POOL_LENGTH_def sizeof_chain_def)
  have two: "supplies demo_alloc [sizeof_pool_manager + CHAIN_POOL_LENGTH * sizeof_chain] m2"
    if l: "pools_like ?m m1" and m2: "block_added 4194304 ?sz m1 m2" for m1 m2
  proof -
    have "unat (mp_end h) \<le> 4195760" if "m2 a = Some h" for a h
      using demo_blocks_low [OF l, of a h] m2 that sz(1) by (cases "a = 4194304") (auto simp: block_added_def sizeof_pool_manager_def DEFAULT_HEADER_ELEMENT_COUNT_def sizeof_element_def)
    moreover have "m2 4194304 \<noteq> None" "m2 8388608 = None"
      using m2 free [OF l, of 8388608] by (auto simp: block_added_def demo_pair_defs)
    ultimately have "fresh_block demo_alloc m3 (sizeof_pool_manager + CHAIN_POOL_LENGTH * sizeof_chain) \<and> demo_alloc m3 sz = 8388608"
      if "pools_like m2 m3" for m3 sz
      using pools_like_None [OF that] pools_like_header [OF that] sz(2) by (fastforce simp: demo_alloc_def fresh_block_def)
    then show ?thesis by simp
  qed
  have "fresh_block demo_alloc m1 ?sz \<and> demo_alloc m1 ?sz = 4194304" if "pools_like ?m m1" for m1
    using free [OF that, of 4194304] demo_blocks_low [OF that] sz(1)
    by (fastforce simp: demo_alloc_def fresh_block_def demo_pair_defs)
  then show ?thesis using two by (simp add: request_blocks_def)
qed

lemma demo_served: "served demo_pair_net (demo_pair k ds) 16384 ((demo_conn 6 600 20480)\<lparr>cn_status := k\<rparr>) (demo_conn 7 700 16384)"
proof -
  have "cn_buf_pool_manager ((demo_conn 6 600 20480)\<lparr>cn_status := k\<rparr>) = 304" "request_pool 16384 = 16536"
    by (simp_all add: demo_conn_def request_pool_def)
  then show ?thesis
    using demo_pair_room demo_supplies unfolding served_def
    by (simp add: demo_pair_net_def demo_net_def demo_sys_def)
      (simp add: demo_pair_defs conn_at_def demo_conn_def ev_at_def mgr_tail_def demo_req_def blank_request_def)
qed

lemma demo_arrives: "concat ds = s \<Longrightarrow> [] \<notin> set ds \<Longrightarrow> length s < 16384 \<Longrightarrow> arrives (demo_pair k ds) fd s"
  unfolding arrives_def by (intro conjI exI [of _ ds] exI [of _ "[]"]) (auto simp: demo_pair_defs)

lemma demo_pair_header: "good_header (demo_pair k ds) [(''Host'', ''x'')]"
  using demo_host_hash by (simp add: good_header_def good_field_def demo_host_chars demo_pair_defs crlf_defs)

lemma demo_pair_event: "ev_at (w_ev (demo_pair k ds)) (cn_ev (demo_conn 7 700 16384)) = Some (demo_event 0 0)" "w_out (demo_pair k ds) = []"
  by (simp_all add: demo_pair_defs demo_conn_def ev_at_def)

theorem client_data_forwarded_witness:
  "\<exists>w'. http_data_coming demo_pair_net 16384 (demo_pair L_CONNECTING_ACCEPTED [''GET /a HT'', ''TP/1.1'' @ [CR, LF] @ ''Ho'', ''st: x'' @ [CR, LF, CR, LF]]) =
      Some (Some w') \<and> w_out w' = [(7, ''GET /a HTTP/1.1'' @ [CR, LF] @ ''host: x'' @ [CR, LF, CR, LF])]"
proof -
  let ?f = "(''Host'', ''x'')" and ?ds = "[''GET /a HT'', ''TP/1.1'' @ [CR, LF] @ ''Ho'', ''st: x'' @ [CR, LF, CR, LF]]"
  have low: "request_text ''GET'' ''a'' (CHR ''1'') (CHR ''1'') (map lower_field [?f]) = ''GET /a HTTP/1.1'' @ [CR, LF] @ ''host: x'' @ [CR, LF, CR, LF]"
    by (simp add: request_text_def line_text_def header_text_def field_line_def lower_field_def tolower_def char_of_def)
  have ar: "arrives (demo_pair L_CONNECTING_ACCEPTED ?ds) 6 (request_text ''GET'' ''a'' (CHR ''1'') (CHR ''1'') [?f])"
    by (rule demo_arrives) (simp_all add: request_text_def line_text_def header_text_def field_line_def)
  have line: "good_line ''GET'' ''a'' (CHR ''1'') (CHR ''1'')"
    by (simp add: good_line_def not_method_char_def uri_char_def is_digit_def schar_def crlf_defs)
  have junk: "rq_complex_uri (hr_req (nt_junk_req demo_pair_net)) = 0" "rq_quoted_uri (hr_req (nt_junk_req demo_pair_net)) = 0"
    by (simp_all add: demo_pair_net_def demo_net_def demo_req_def blank_request_def)
  have c: "cn_status ((demo_conn 6 600 20480)\<lparr>cn_status := L_CONNECTING_ACCEPTED\<rparr>) = L_CONNECTING_ACCEPTED"
      "cn_fd ((demo_conn 6 600 20480)\<lparr>cn_status := L_CONNECTING_ACCEPTED\<rparr>) = 6" "cn_fd (demo_conn 7 700 16384) = 7"
    by (simp_all add: demo_conn_def)
  show ?thesis
    using client_data_forwarded [where w = "demo_pair L_CONNECTING_ACCEPTED ?ds" and fs = "[?f]" and name = "''GET''" and t = "''a''" and M = "CHR ''1''" and N = "CHR ''1''",
        OF demo_served c(1) _ line demo_pair_header junk demo_pair_event(1)] ar
    unfolding low c(2,3) demo_pair_event(2) append_Nil by blast
qed

text \<open>
  Claim C4: when the upstream server answers with a well-formed header and any part of the body, delivered by the
  kernel in pieces of any sizes, \<open>proxy_data_coming\<close> returns and the client is sent exactly that: the header, its names in lower
  case, in one \<open>writev\<close>, and then the bytes of the body as they are, in another; the connection is marked as having written the header.
\<close>

theorem upstream_data_relayed:
  assumes "served nt w conn c p" "cn_status c = L_PROXY_WAITING_RESPONSE"
    and "arrives w (cn_fd c) (response_text (status_text M N x y z txt) fs @ body)" "good_status M N x y z txt" "good_header w fs"
    and "st_code (rq_status (hr_req (nt_junk_req nt))) = 0" "st_count (rq_status (hr_req (nt_junk_req nt))) = 0"
  shows "\<exists>w' a. proxy_data_coming nt conn w = Some (Some w') \<and>
    w_out w' = w_out w @ (cn_fd p, response_text (status_text M N x y z txt) (map lower_field fs)) # (if body = [] then [] else [(cn_fd p, body)]) \<and>
    w_conn w' = (w_conn w)(conn \<mapsto> c\<lparr>cn_buf := a, cn_status := L_HTTP_WROTE_RESPONSE_HEADER\<rparr>) \<and> w_ev w' = w_ev w"
  using assms by (rule upstream_data_ok)

lemma demo_response:
  "response_text (status_text (CHR ''1'') (CHR ''1'') (CHR ''2'') (CHR ''0'') (CHR ''0'') ''OK'') [(''Host'', ''x'')] =
     ''HTTP/1.1 200 OK'' @ [CR, LF] @ ''Host: x'' @ [CR, LF, CR, LF]"
  "response_text (status_text (CHR ''1'') (CHR ''1'') (CHR ''2'') (CHR ''0'') (CHR ''0'') ''OK'') (map lower_field [(''Host'', ''x'')]) =
     ''HTTP/1.1 200 OK'' @ [CR, LF] @ ''host: x'' @ [CR, LF, CR, LF]"
  "good_status (CHR ''1'') (CHR ''1'') (CHR ''2'') (CHR ''0'') (CHR ''0'') ''OK''"
  by (simp_all add: response_text_def status_text_def header_text_def field_line_def lower_field_def tolower_def char_of_def
      good_status_def is_digit_def schar_def crlf_defs)

theorem upstream_data_relayed_witness:
  "\<exists>w'. proxy_data_coming demo_pair_net 16384 (demo_pair L_PROXY_WAITING_RESPONSE [''HTTP/1.1 20'', ''0 OK'' @ [CR, LF], ''Host: x'' @ [CR, LF, CR, LF] @ ''bo'', ''dy'']) =
      Some (Some w') \<and> w_out w' = [(7, ''HTTP/1.1 200 OK'' @ [CR, LF] @ ''host: x'' @ [CR, LF, CR, LF]), (7, ''body'')]"
proof -
  let ?f = "(''Host'', ''x'')" and ?ds = "[''HTTP/1.1 20'', ''0 OK'' @ [CR, LF], ''Host: x'' @ [CR, LF, CR, LF] @ ''bo'', ''dy'']"
    and ?sl = "status_text (CHR ''1'') (CHR ''1'') (CHR ''2'') (CHR ''0'') (CHR ''0'') ''OK''"
  have ar: "arrives (demo_pair L_PROXY_WAITING_RESPONSE ?ds) 6 (response_text ?sl [?f] @ ''body'')"
    unfolding demo_response(1) by (rule demo_arrives) simp_all
  have junk: "st_code (rq_status (hr_req (nt_junk_req demo_pair_net))) = 0" "st_count (rq_status (hr_req (nt_junk_req demo_pair_net))) = 0"
    by (simp_all add: demo_pair_net_def demo_net_def demo_req_def blank_request_def)
  have c: "cn_status ((demo_conn 6 600 20480)\<lparr>cn_status := L_PROXY_WAITING_RESPONSE\<rparr>) = L_PROXY_WAITING_RESPONSE"
      "cn_fd ((demo_conn 6 600 20480)\<lparr>cn_status := L_PROXY_WAITING_RESPONSE\<rparr>) = 6" "cn_fd (demo_conn 7 700 16384) = 7"
    by (simp_all add: demo_conn_def)
  show ?thesis
    using upstream_data_relayed [where w = "demo_pair L_PROXY_WAITING_RESPONSE ?ds" and fs = "[?f]" and body = "''body''" and M = "CHR ''1''" and N = "CHR ''1''" and
        x = "CHR ''2''" and y = "CHR ''0''" and z = "CHR ''0''", OF demo_served c(1) _ demo_response(3) demo_pair_header junk] ar
    unfolding demo_response(2) c(2,3) demo_pair_event(2) append_Nil by auto
qed

end
