(* ===== verification/Callback_Steps.thy ===== *)
theory Callback_Steps
  imports Proxy
begin

text \<open>
  What the callbacks of the server cannot do, whatever arrives and whatever the system calls return: no operation takes a connection, a
  request, a header element, a buffer or an event away, makes an event lagging, changes the members that are set up once, or takes back
  what was written. \<open>advances\<close> is that relation; there is one lemma per operation, and \<open>dispatch_steps\<close> for the table of callbacks.
  The lemmas are applied backwards along the code: \<open>steps\<close> has a rule for every operation and \<open>res_rules\<close> one for every construct.
\<close>

section \<open>The relation\<close>

definition lagging :: "event \<Rightarrow> bool" where
  "lagging e \<longleftrightarrow> ev_flag e AND LV_LAG \<noteq> 0"

text \<open>Events stay, and none becomes lagging, apart from the event at \<open>x\<close> (all events, when \<open>x\<close> is the null pointer).\<close>

definition ev_step :: "u64 \<Rightarrow> ev_mem \<Rightarrow> ev_mem \<Rightarrow> bool" where
  "ev_step x m m' \<longleftrightarrow> dom m \<subseteq> dom m' \<and>
     (\<forall>a e'. m' a = Some e' \<longrightarrow> lagging e' \<longrightarrow> a = x \<and> x \<noteq> 0 \<or> (\<exists>e. m a = Some e \<and> lagging e))"

text \<open>The members of the base and of the server that are set up once.\<close>

definition fixed_part :: "'a web_scheme \<Rightarrow> (u64 \<times> u64 \<times> u64 \<times> int \<times> u64 \<times> min_heap) \<times> u64 \<times> int \<times> u64 \<times> 32 word" where
  "fixed_part w = ((bs_active_head w, bs_active_tail w, bs_free_ev_head w, bs_epfd w, w_self w, bs_timeheap w),
     w_http w, w_listen_fd w, w_listen_ev w, w_HostHash w)"

definition advances_but :: "u64 \<Rightarrow> 'a web_scheme \<Rightarrow> 'a web_scheme \<Rightarrow> bool" where
  "advances_but x w w' \<longleftrightarrow> fixed_part w' = fixed_part w \<and> ev_step x (w_ev w) (w_ev w') \<and> dom (w_conn w) \<subseteq> dom (w_conn w') \<and>
     dom (w_req w) \<subseteq> dom (w_req w') \<and> dom (w_elem w) \<subseteq> dom (w_elem w') \<and> dom (w_buf w) \<subseteq> dom (w_buf w') \<and>
     (\<exists>out. w_out w' = w_out w @ out)"

abbreviation advances :: "'a web_scheme \<Rightarrow> 'a web_scheme \<Rightarrow> bool" where
  "advances \<equiv> advances_but 0"

lemma ev_step_refl [simp]: "ev_step x m m"
  by (simp add: ev_step_def)

lemma ev_step_trans: "ev_step x m m' \<Longrightarrow> ev_step x m' m'' \<Longrightarrow> ev_step x m m''"
  unfolding ev_step_def by (meson order_trans)

lemma ev_step_set:
  assumes "ev_set m a f = Some m'" "\<And>e. lagging (f e) \<Longrightarrow> lagging e"
  shows "ev_step x m m'"
  using assms by (auto simp: ev_set_def ev_step_def ev_at_def split: if_splits)

lemma advances_refl: "advances_but x w w"
  by (simp add: advances_but_def)

lemma advances_trans:
  assumes "advances_but x w w'" "advances_but x w' w''"
  shows "advances_but x w w''"
proof -
  have "\<exists>out. w_out w'' = w_out w @ out"
    using assms unfolding advances_but_def by (metis append_assoc)
  then show ?thesis
    using assms ev_step_trans [of x "w_ev w" "w_ev w'" "w_ev w''"] unfolding advances_but_def
    by (elim conjE) (intro conjI; (assumption | simp; fail | rule order_trans; assumption))
qed

lemma advances_frame:
  assumes "advances_but x w w'"
  shows "advances_but x w (w'\<lparr>w_pool := p\<rparr>)" "advances_but x w (w'\<lparr>w_chain := c\<rparr>)" "advances_but x w (w'\<lparr>w_mem := m\<rparr>)"
    "advances_but x w (w'\<lparr>w_in := i\<rparr>)" "advances_but x w (w'\<lparr>w_pending := q\<rparr>)" "advances_but x w (w'\<lparr>w_calls := cs\<rparr>)"
    "advances_but x w (w'\<lparr>w_mgr := fm\<rparr>)" "advances_but x w (w'\<lparr>bs_event_pool_manager := mg\<rparr>)" "advances_but x w (w'\<lparr>w_out := w_out w' @ out\<rparr>)"
  using assms by (auto simp: advances_but_def fixed_part_def)

lemma advances_new:
  assumes "advances_but x w w'"
  shows "dom (w_conn w') \<subseteq> dom fc \<Longrightarrow> advances_but x w (w'\<lparr>w_conn := fc\<rparr>)"
    "dom (w_req w') \<subseteq> dom fr \<Longrightarrow> advances_but x w (w'\<lparr>w_req := fr\<rparr>)"
    "dom (w_elem w') \<subseteq> dom fe \<Longrightarrow> advances_but x w (w'\<lparr>w_elem := fe\<rparr>)"
    "dom (w_buf w') \<subseteq> dom fb \<Longrightarrow> advances_but x w (w'\<lparr>w_buf := fb\<rparr>)"
  using assms by (simp_all add: advances_but_def fixed_part_def) (elim conjE, erule (1) order_trans)+

lemma advances_if: "(b \<Longrightarrow> advances_but x w s) \<Longrightarrow> (\<not> b \<Longrightarrow> advances_but x w t) \<Longrightarrow> advances_but x w (if b then s else t)"
  by simp

lemma dom_upd: "dom m \<subseteq> dom (m(a \<mapsto> b))"
  by auto

declare subset_insertI [simp]

lemmas advances_rules = advances_if advances_frame advances_new dom_upd

section \<open>Results\<close>

text \<open>What holds of a result, when there is one; \<open>res2\<close> for a result that may also be undefined.\<close>

definition res :: "('r \<Rightarrow> bool) \<Rightarrow> 'r option \<Rightarrow> bool" where
  "res P m \<longleftrightarrow> (\<forall>r. m = Some r \<longrightarrow> P r)"

fun opt_all :: "('r \<Rightarrow> bool) \<Rightarrow> 'r option \<Rightarrow> bool" where
  "opt_all P None = True"
| "opt_all P (Some r) = P r"

abbreviation res2 :: "('r \<Rightarrow> bool) \<Rightarrow> 'r option option \<Rightarrow> bool" where
  "res2 P \<equiv> res (opt_all P)"

lemma resI: "(\<And>r. m = Some r \<Longrightarrow> P r) \<Longrightarrow> res P m"
  by (simp add: res_def)

lemma resD: "res P m \<Longrightarrow> m = Some r \<Longrightarrow> P r"
  by (simp add: res_def)

lemma res_bind: "res (\<lambda>x. res P (f x)) m \<Longrightarrow> res P (m \<bind> f)"
  by (cases m) (simp_all add: res_def)

lemma res_Some: "P x \<Longrightarrow> res P (Some x)"
  by (simp add: res_def)

lemma res_None: "res P None"
  by (simp add: res_def)

lemma res_case: "res (\<lambda>x. res P (f x)) m \<Longrightarrow> res P n \<Longrightarrow> res P (case m of None \<Rightarrow> n | Some x \<Rightarrow> f x)"
  by (cases m) (simp_all add: res_def)

lemma res_if: "(b \<Longrightarrow> res P x) \<Longrightarrow> (\<not> b \<Longrightarrow> res P y) \<Longrightarrow> res P (if b then x else y)"
  by simp

lemma res_prod: "(\<And>a b. res P (f a b)) \<Longrightarrow> res P (case x of (a, b) \<Rightarrow> f a b)"
  by (cases x) simp

lemma res_map: "res (\<lambda>x. P (f x)) m \<Longrightarrow> res P (map_option f m)"
  by (cases m) (simp_all add: res_def)

lemma res_Let: "res P (f t) \<Longrightarrow> res P (Let t f)"
  by simp

lemma opt_all_map: "opt_all (\<lambda>x. P (f x)) m \<Longrightarrow> opt_all P (map_option f m)"
  by (cases m) simp_all

lemma opt_all_res: "res P m \<Longrightarrow> opt_all P m"
  by (cases m) (simp_all add: res_def)

lemmas res_rules = res_Some res_None res_Let res_if res_prod res_map res_bind res_case opt_all_map opt_all_res

text \<open>The state in a result.\<close>

abbreviation to1 :: "'a web_scheme \<Rightarrow> 'b \<times> 'a web_scheme \<Rightarrow> bool" where
  "to1 w \<equiv> \<lambda>(a, w'). advances w w'"

abbreviation to2 :: "'a web_scheme \<Rightarrow> 'b \<times> 'c \<times> 'a web_scheme \<Rightarrow> bool" where
  "to2 w \<equiv> \<lambda>(a, b, w'). advances w w'"

lemma conseq0: "res (advances w0) m \<Longrightarrow> (\<And>w'. advances w0 w' \<Longrightarrow> Q w') \<Longrightarrow> res Q m"
  and conseq1: "res (to1 w0) m1 \<Longrightarrow> (\<And>a w'. advances w0 w' \<Longrightarrow> Q1 (a, w')) \<Longrightarrow> res Q1 m1"
  and conseq2: "res (to2 w0) m2 \<Longrightarrow> (\<And>a b w'. advances w0 w' \<Longrightarrow> Q2 (a, b, w')) \<Longrightarrow> res Q2 m2"
  by (auto simp: res_def)

lemma conseq20: "res2 (advances w0) m \<Longrightarrow> (\<And>w'. advances w0 w' \<Longrightarrow> Q (Some w')) \<Longrightarrow> Q None \<Longrightarrow> res Q m"
  and conseq21: "res2 (to1 w0) m1 \<Longrightarrow> (\<And>a w'. advances w0 w' \<Longrightarrow> Q1 (Some (a, w'))) \<Longrightarrow> Q1 None \<Longrightarrow> res Q1 m1"
  and conseq22: "res2 (to2 w0) m2 \<Longrightarrow> (\<And>a b w'. advances w0 w' \<Longrightarrow> Q2 (Some (a, b, w'))) \<Longrightarrow> Q2 None \<Longrightarrow> res Q2 m2"
  apply (auto simp: res_def)
  subgoal for r by (cases r) auto
  subgoal for r by (cases r) auto
  subgoal for r by (cases r) auto
  done

section \<open>Objects and pools\<close>

named_theorems steps

lemma set_steps:
  assumes "advances w0 w"
  shows "res (advances w0) (conn_set a f w)" "res (advances w0) (req_set a g w)" "res (advances w0) (elem_set a h w)"
    "res (advances w0) (buf_set a k w)" "res (advances w0) (chain_set a l w)"
  using assms
  by (auto simp: res_def conn_set_def req_set_def elem_set_def buf_set_def chain_set_def intro!: advances_rules)

lemmas [steps] = set_steps [THEN conseq0]

lemma mgr_alloc_steps: "advances w0 w \<Longrightarrow> res (to2 w0) (mgr_alloc sy ma w)"
  by (auto simp: res_def mgr_alloc_def split: if_splits Option.bind_splits intro!: advances_rules)

lemma mgr_new_steps: "advances w0 w \<Longrightarrow> res (advances w0) (mgr_new sy ma e n w)"
  by (auto simp: res_def mgr_new_def split: Option.bind_splits intro!: advances_rules)

lemmas [steps] = mgr_alloc_steps [THEN conseq2] mgr_new_steps [THEN conseq0]

lemma alloc_steps:
  assumes "advances w0 w"
  shows "res (to1 w0) (chain_alloc sy ma w)" "res (to1 w0) (req_alloc nt ma w)" "res (to1 w0) (elem_alloc nt ma w)" "res (to1 w0) (conn_alloc nt ma w)"
  unfolding chain_alloc_def req_alloc_def elem_alloc_def conn_alloc_def
  by (assumption | simp only: prod.case | rule assms steps res_rules advances_rules | (simp; fail) | fastforce)+

lemmas [steps] = alloc_steps [THEN conseq1]

lemma new_buffer_steps: "advances w0 w \<Longrightarrow> res (to1 w0) (lt_new_buffer sy ma w)"
  unfolding lt_new_buffer_def Let_def by (assumption | simp only: prod.case | rule steps res_rules advances_rules | (simp; fail) | fastforce)+

lemmas [steps] = new_buffer_steps [THEN conseq1]

section \<open>Buffers and chains\<close>

lemma buffer_chain_loop_steps: "advances w0 w \<Longrightarrow> res2 (advances w0) (buffer_chain_loop sy ma sz now old w)"
  apply (rule resI)
  subgoal premises p for y
    apply (rule buffer_chain_loop.raw_induct [where P = "\<lambda>sy ma sz now old w y. advances w0 w \<longrightarrow> opt_all (advances w0) y", OF _ p(2), THEN mp, OF _ p(1)])
    apply (intro impI, erule resD [rotated])
    subgoal premises p for loop sy ma sz now old w y
    proof -
      have "advances w0 w \<Longrightarrow> res2 (advances w0) (loop sy ma sz now old w)" for sy ma sz now old w
        by (rule resI) (rule p(1) [THEN mp])
      note ih = this [THEN conseq20]
      show ?thesis
        by (insert p(2)) (assumption | simp only: prod.case opt_all.simps option.case | rule ih steps res_rules advances_rules | (simp; fail) | fastforce)+
    qed
    done
  done

lemmas [steps] = buffer_chain_loop_steps [THEN conseq20]

lemma new_buffer_chain_steps: "advances w0 w \<Longrightarrow> res2 (to1 w0) (lt_new_buffer_chain sy ma sz w)"
  unfolding lt_new_buffer_chain_def by (assumption | simp only: prod.case opt_all.simps option.case | rule steps res_rules advances_rules | (simp; fail) | fastforce)+

lemmas [steps] = new_buffer_chain_steps [THEN conseq21]

lemma writev_steps:
  "advances w0 w \<Longrightarrow> (\<And>rv errno w'. advances w0 w' \<Longrightarrow> res P (f rv errno w')) \<Longrightarrow>
    res P (case lt_writev sy w fd vec of (rv, errno, w') \<Rightarrow> f rv errno w')"
proof -
  assume "advances w0 w"
  then have "advances w0 w'" if "lt_writev sy w fd vec = (rv, errno, w')" for rv errno w'
    using that by (auto simp: lt_writev_def Let_def split: prod.splits if_splits intro: advances_rules)
  then show "(\<And>rv errno w'. advances w0 w' \<Longrightarrow> res P (f rv errno w')) \<Longrightarrow>
      res P (case lt_writev sy w fd vec of (rv, errno, w') \<Rightarrow> f rv errno w')"
    by (cases "lt_writev sy w fd vec") simp
qed

lemmas [steps] = writev_steps

lemma chains_advance_steps: "advances w0 w \<Longrightarrow> res2 (to1 w0) (chains_advance cc cur rv n w)"
  apply (rule resI)
  subgoal premises p for y
    apply (rule chains_advance.raw_induct [where P = "\<lambda>cc cur rv n w y. advances w0 w \<longrightarrow> opt_all (to1 w0) y", OF _ p(2), THEN mp, OF _ p(1)])
    apply (intro impI, erule resD [rotated])
    subgoal premises p for loop cc cur rv n w y
    proof -
      have "advances w0 w \<Longrightarrow> res2 (to1 w0) (loop cc cur rv n w)" for cc cur rv n w
        by (rule resI) (rule p(1) [THEN mp])
      note ih = this [THEN conseq21]
      show ?thesis
        by (insert p(2)) (assumption | simp only: prod.case opt_all.simps option.case | rule ih steps res_rules advances_rules resI | (simp; fail) | fastforce)+
    qed
    done
  done

lemmas [steps] = chains_advance_steps [THEN conseq21]

lemma send_chains_steps: "advances w0 w \<Longrightarrow> res2 (to2 w0) (send_chains sy fd out w)"
  unfolding send_chains_def by (assumption | simp only: prod.case opt_all.simps option.case | rule steps res_rules advances_rules resI | (simp; fail) | fastforce)+

lemmas [steps] = send_chains_steps [THEN conseq22]

lemma buffers_advance_steps: "advances w0 w \<Longrightarrow> res (to1 w0) (buffers_advance vec n c w)"
proof (induction vec arbitrary: n c w)
  case (Cons v vec)
  obtain p l where v: "v = (p, l)" by (cases v)
  note ih = Cons.IH [THEN conseq1]
  show ?case
    unfolding v buffers_advance.simps
    by (insert Cons.prems) (assumption | simp only: prod.case opt_all.simps option.case | rule ih steps res_rules advances_rules resI| (simp; fail) | fastforce)+
qed (simp add: res_def)

lemmas [steps] = buffers_advance_steps [THEN conseq1]

lemma send_buffers_steps: "advances w0 w \<Longrightarrow> res2 (to1 w0) (send_buffers sy fd a w)"
  unfolding send_buffers_def by (assumption | simp only: prod.case opt_all.simps option.case | rule steps res_rules advances_rules resI | (simp; fail) | fastforce)+

lemmas [steps] = send_buffers_steps [THEN conseq21]

lemma recv_call_steps:
  assumes "\<And>n errno got q'. (n > 0 \<Longrightarrow> sum_list (map rx_size q') < sum_list (map rx_size q)) \<Longrightarrow> res P (f n errno got q')"
  shows "res P (case lt_recv_call q len of (n, errno, got, q') \<Rightarrow> f n errno got q')"
proof -
  obtain n errno got q' where c: "lt_recv_call q len = (n, errno, got, q')" by (metis prod_cases4)
  show ?thesis using assms [of n q' errno got] recv_call_shrinks [OF c] by (simp add: c)
qed

lemma recv_loop_steps: "advances w0 w \<Longrightarrow> res (to2 w0) (recv_loop sy fd q a n w)"
proof (induction "sum_list (map rx_size q)" arbitrary: q a n w rule: less_induct)
  case less
  note ih = less(1) [THEN conseq2]
  show ?case
    unfolding recv_loop.simps [of sy fd q a n w]
    by (insert less(2)) (assumption | simp only: prod.case opt_all.simps option.case | rule recv_call_steps ih steps res_rules advances_rules resI| (simp; fail) | fastforce)+
qed

lemmas [steps] = recv_loop_steps [THEN conseq2]

lemma recv_steps: "advances w0 w \<Longrightarrow> res (to1 w0) (lt_recv sy fd a w)"
  unfolding lt_recv_def by (assumption | simp only: prod.case opt_all.simps option.case | rule steps res_rules advances_rules | (simp; fail) | fastforce)+

lemmas [steps] = recv_steps [THEN conseq1]

section \<open>Requests\<close>

lemma create_request_steps: "advances w0 w \<Longrightarrow> res (to1 w0) (http_create_request nt conn w)"
  unfolding http_create_request_def by (assumption | simp only: prod.case opt_all.simps option.case | rule steps res_rules advances_rules resI | (simp; fail) | fastforce)+

lemmas [steps] = create_request_steps [THEN conseq1]

lemma process_element_steps: "advances w0 w \<Longrightarrow> res (to1 w0) (http_process_element req el w)"
  unfolding http_process_element_def by (assumption | simp only: prod.case opt_all.simps option.case | rule steps res_rules advances_rules resI | (simp; fail) | fastforce)+

lemmas [steps] = process_element_steps [THEN conseq1]

lemma add_element_steps: "advances w0 w \<Longrightarrow> res (to1 w0) (add_header_element nt req prev w)"
  unfolding add_header_element_def by (assumption | simp only: prod.case opt_all.simps option.case | rule steps res_rules advances_rules resI | (simp; fail) | fastforce)+

lemmas [steps] = add_element_steps [THEN conseq1]

lemma headers_round_steps: "advances w0 w \<Longrightarrow> res (to2 w0) (headers_round nt req prev w)"
  unfolding headers_round_def by (assumption | simp only: prod.case opt_all.simps option.case | rule steps res_rules advances_rules resI | (simp; fail) | fastforce)+

lemmas [steps] = headers_round_steps [THEN conseq2]

lemma headers_loop_steps: "advances w0 w \<Longrightarrow> res2 (to1 w0) (headers_loop nt req prev w)"
  apply (rule resI)
  subgoal premises p for y
    apply (rule headers_loop.raw_induct [where P = "\<lambda>nt req prev w y. advances w0 w \<longrightarrow> opt_all (to1 w0) y", OF _ p(2), THEN mp, OF _ p(1)])
    apply (intro impI, erule resD [rotated])
    subgoal premises p for loop nt req prev w y
    proof -
      have "advances w0 w \<Longrightarrow> res2 (to1 w0) (loop nt req prev w)" for nt req prev w
        by (rule resI) (rule p(1) [THEN mp])
      note ih = this [THEN conseq21]
      show ?thesis
        by (insert p(2)) (assumption | simp only: prod.case opt_all.simps option.case | rule ih steps res_rules advances_rules | (simp; fail) | fastforce)+
    qed
    done
  done

lemmas [steps] = headers_loop_steps [THEN conseq21]

lemma process_headers_steps: "advances w0 w \<Longrightarrow> res2 (to1 w0) (http_process_request_headers nt req w)"
  unfolding http_process_request_headers_def by (assumption | simp only: prod.case opt_all.simps option.case | rule steps res_rules advances_rules | (simp; fail) | fastforce)+

lemmas [steps] = process_headers_steps [THEN conseq21]

section \<open>Chains of messages\<close>

lemma set_iov_steps: "advances w0 w \<Longrightarrow> res (advances w0) (set_iov a s k w)"
  unfolding set_iov_def by (rule set_steps)

lemmas [steps] = set_iov_steps [THEN conseq0]

lemma element_chains_steps: "advances w0 w \<Longrightarrow> res2 (to1 w0) (element_chains nt ma tail el cur n w)"
  apply (rule resI)
  subgoal premises p for y
    apply (rule element_chains.raw_induct [where P = "\<lambda>nt ma tail el cur n w y. advances w0 w \<longrightarrow> opt_all (to1 w0) y", OF _ p(2), THEN mp, OF _ p(1)])
    apply (intro impI, erule resD [rotated])
    subgoal premises p for loop nt ma tail el cur n w y
    proof -
      have "advances w0 w \<Longrightarrow> res2 (to1 w0) (loop nt ma tail el cur n w)" for nt ma tail el cur n w
        by (rule resI) (rule p(1) [THEN mp])
      note ih = this [THEN conseq21]
      show ?thesis
        by (insert p(2)) (assumption | simp only: prod.case opt_all.simps option.case | rule ih steps res_rules advances_rules resI | (simp; fail) | fastforce)+
    qed
    done
  done

lemmas [steps] = element_chains_steps [THEN conseq21]

lemma request_line_chains_steps: "advances w0 w \<Longrightarrow> res (to2 w0) (request_line_chains nt ma r w)"
  unfolding request_line_chains_def by (assumption | simp only: prod.case opt_all.simps option.case | rule steps res_rules advances_rules | (simp; fail) | fastforce)+

lemmas [steps] = request_line_chains_steps [THEN conseq2]

lemma construct_request_steps: "advances w0 w \<Longrightarrow> res2 (to1 w0) (http_construct_request_chains nt req w)"
  unfolding http_construct_request_chains_def by (assumption | simp only: prod.case opt_all.simps option.case | rule steps res_rules advances_rules resI | (simp; fail) | fastforce)+

lemmas [steps] = construct_request_steps [THEN conseq21]

lemma construct_response_steps: "advances w0 w \<Longrightarrow> res2 (to1 w0) (construct_response_chains nt rep w)"
  unfolding construct_response_chains_def by (assumption | simp only: prod.case opt_all.simps option.case | rule steps res_rules advances_rules resI | (simp; fail) | fastforce)+

lemmas [steps] = construct_response_steps [THEN conseq21]

lemma destructor_steps: "advances w0 w \<Longrightarrow> res (advances w0) (destructor_chains req w)"
  unfolding destructor_chains_def by (assumption | simp only: prod.case opt_all.simps option.case | rule steps res_rules advances_rules resI | (simp; fail) | fastforce)+

lemmas [steps] = destructor_steps [THEN conseq0]

section \<open>Events\<close>

lemma advances_ev: "advances_but x w w' \<Longrightarrow> ev_step z (w_ev w) m \<Longrightarrow> advances_but z w (w'\<lparr>w_ev := m\<rparr>)"
  by (simp add: advances_but_def fixed_part_def)

lemma advances_ev_step: "advances_but x w w' \<Longrightarrow> ev_step x (w_ev w) (w_ev w')"
  by (simp add: advances_but_def)

lemma ev_set_steps:
  assumes "advances_but x w w'" "ev_set (w_ev w') a f = Some m" "\<And>e. lagging (f e) = lagging e"
  shows "advances_but x w (w'\<lparr>w_ev := m\<rparr>)"
  using assms by (intro advances_ev [OF assms(1)] ev_step_trans [OF advances_ev_step [OF assms(1)]] ev_step_set [OF assms(2)]) simp

text \<open>An event that is initialised with flags that do not say lagging is not lagging, whatever it was.\<close>

lemma ev_set_clears:
  assumes "advances_but a w w'" "ev_set (w_ev w') a f = Some m" "\<And>e. \<not> lagging (f e)"
  shows "advances w (w'\<lparr>w_ev := m\<rparr>)"
proof (rule advances_ev [OF assms(1)])
  obtain e where m: "a \<noteq> 0" "m = (w_ev w')(a \<mapsto> f e)" using assms(2) by (auto dest!: ev_set_SomeD ev_at_SomeD)
  then show "ev_step 0 (w_ev w) m"
    using advances_ev_step [OF assms(1)] assms(3) by (auto simp: ev_step_def split: if_splits)
qed

lemma lagging_updates [simp]:
  "lagging (e\<lparr>ev_next := a\<rparr>) = lagging e" "lagging (e\<lparr>ev_prev := a\<rparr>) = lagging e" "lagging (e\<lparr>ev_min_heap_idx := i\<rparr>) = lagging e"
  "lagging (e\<lparr>ev_base := a\<rparr>) = lagging e"
  by (simp_all add: lagging_def)

lemma advances_weaken: "advances w w' \<Longrightarrow> advances_but x w w'"
  by (auto simp: advances_but_def ev_step_def)

lemma new_event_at_step: "a \<noteq> 0 \<Longrightarrow> ev_step a (w_ev w) (new_event_at os w a)"
  by (auto simp: new_event_at_def ev_step_def split: option.splits)

lemma new_event_steps:
  assumes w0: "advances w0 w" and n: "lt_new_event os w = Some (e, w')" and e: "e \<noteq> 0"
  shows "advances_but e w0 w'"
proof -
  obtain head where head: "ev_at (w_ev w) (bs_free_ev_head w) = Some head"
    using n by (auto simp: lt_new_event_def split: Option.bind_splits)
  note w0' = advances_weaken [OF w0, of e]
  show ?thesis
  proof (cases "ev_next head = 0")
    case True
    then obtain mg p where "w' = w\<lparr>bs_event_pool_manager := mg, w_pool := p, w_ev := new_event_at os w e\<rparr>"
      using n head by (auto simp: lt_new_event_def split: Option.bind_splits)
    then show ?thesis
      using ev_step_trans [OF advances_ev_step [OF w0'] new_event_at_step [OF e, of w os]] w0'
      by (auto intro!: advances_ev advances_frame)
  next
    case False
    then obtain a m1 i b m2 j where m: "ev_set (w_ev w) a (ev_next_update i) = Some m1" "ev_set m1 b (ev_prev_update j) = Some m2" "w' = w\<lparr>w_ev := m2\<rparr>"
      using n head by (auto simp: lt_new_event_def Let_def split: Option.bind_splits)
    have "ev_step e (w_ev w) m2"
      by (rule ev_step_trans [OF ev_step_set [OF m(1)] ev_step_set [OF m(2)]]) (simp_all add: lagging_def)
    then show ?thesis
      unfolding m(3) by (intro advances_ev [OF w0'] ev_step_trans [OF advances_ev_step [OF w0']])
  qed
qed

lemma post_callback_steps: "advances w0 w \<Longrightarrow> res (to1 w0) (lt_new_post_callback os w cb fd arg)"
proof (rule resI)
  fix r assume w0: "advances w0 w" and "lt_new_post_callback os w cb fd arg = Some r"
  then obtain e w1 m where n: "lt_new_event os w = Some (e, w1)" "lt_ev_init (w_ev w1) e LV_ONESHOT fd cb arg 0 = Some m" "r = (0, w1\<lparr>w_ev := m\<rparr>)"
    by (auto simp: lt_new_post_callback_def split: Option.bind_splits)
  have "e \<noteq> 0" using n(2) by (auto simp: lt_ev_init_def dest!: ev_set_SomeD ev_at_SomeD)
  then show "to1 w0 r"
    using ev_set_clears [OF new_event_steps [OF w0 n(1)] n(2) [unfolded lt_ev_init_def]] by (simp add: n(3) lagging_def LV_ONESHOT_def LV_LAG_def)
qed

lemmas [steps] = post_callback_steps [THEN conseq1]

lemma io_mod_steps: "advances w0 w \<Longrightarrow> fl AND LV_LAG = 0 \<Longrightarrow> res (to1 w0) (lt_io_mod os now w ev fl cb arg NO_TIMEOUT)"
proof (rule resI)
  fix r assume w0: "advances w0 w" and fl: "fl AND LV_LAG = 0" and m: "lt_io_mod os now w ev fl cb arg NO_TIMEOUT = Some r"
  show "to1 w0 r"
  proof (cases "ev = 0")
    case True
    then show ?thesis using m w0 by (auto simp: lt_io_mod_def)
  next
    case False
    then obtain m1 m2 cs where s: "ev_set (w_ev w) ev (ev_min_heap_idx_update (\<lambda>_. - 1)) = Some m1"
        "ev_set m1 ev (\<lambda>e. e\<lparr>ev_flag := fl, ev_callback := cb, ev_arg := arg\<rparr>) = Some m2" "r = (ev, w\<lparr>w_ev := m2, w_calls := cs\<rparr>)"
      using m by (auto simp: lt_io_mod_def set_timeout_def NO_TIMEOUT_def lt_mod_to_epfd_def lt_epoll_ctl_def Let_def split: Option.bind_splits)
    have w1: "advances w0 (w\<lparr>w_ev := m1\<rparr>)" by (rule ev_set_steps [OF w0 s(1)]) simp
    have "advances w0 (w\<lparr>w_ev := m1\<rparr>\<lparr>w_ev := m2\<rparr>)"
      by (rule ev_set_clears [where a = ev and f = "\<lambda>e. e\<lparr>ev_flag := fl, ev_callback := cb, ev_arg := arg\<rparr>", OF advances_weaken [OF w1]]) (use s(2) fl in \<open>simp_all add: lagging_def\<close>)
    then show ?thesis by (simp add: s(3) advances_frame)
  qed
qed

lemma io_add_steps: "advances w0 w \<Longrightarrow> fl AND LV_LAG = 0 \<Longrightarrow> res (to1 w0) (lt_io_add os now w fd fl cb arg NO_TIMEOUT)"
proof (rule resI)
  fix r assume w0: "advances w0 w" and fl: "fl AND LV_LAG = 0" and m: "lt_io_add os now w fd fl cb arg NO_TIMEOUT = Some r"
  obtain e w1 m1 m2 m3 cs i where s: "lt_new_event os w = Some (e, w1)" "lt_ev_init (w_ev w1) e fl fd cb arg 0 = Some m1"
      "ev_set m1 e (ev_min_heap_idx_update (\<lambda>_. - 1)) = Some m2" "ev_set m2 e (ev_base_update i) = Some m3" "r = (e, w1\<lparr>w_calls := cs, w_ev := m3\<rparr>)"
    using m by (auto simp: lt_io_add_def set_timeout_def NO_TIMEOUT_def lt_add_to_epfd_def lt_epoll_ctl_def Let_def split: Option.bind_splits)
  have "e \<noteq> 0" using s(2) by (auto simp: lt_ev_init_def dest!: ev_set_SomeD ev_at_SomeD)
  then have "advances w0 (w1\<lparr>w_ev := m1\<rparr>)"
    using ev_set_clears [OF new_event_steps [OF w0 s(1)] s(2) [unfolded lt_ev_init_def]] fl by (simp add: lagging_def)
  then have "advances w0 (w1\<lparr>w_ev := m1\<rparr>\<lparr>w_ev := m2\<rparr>)" by (rule ev_set_steps [where a = e and f = "ev_min_heap_idx_update (\<lambda>_. - 1)"]) (use s(3) in simp_all)
  then have "advances w0 (w1\<lparr>w_ev := m1\<rparr>\<lparr>w_ev := m2\<rparr>\<lparr>w_ev := m3\<rparr>)" by (rule ev_set_steps [where a = e and f = "ev_base_update i"]) (use s(4) in \<open>simp_all add: lagging_def\<close>)
  then have "advances w0 (w1\<lparr>w_ev := m3, w_calls := cs\<rparr>)" by (simp add: advances_frame)
  also have "w1\<lparr>w_ev := m3, w_calls := cs\<rparr> = w1\<lparr>w_calls := cs, w_ev := m3\<rparr>" by (cases w1) simp
  finally show "to1 w0 r" by (simp add: s(5))
qed

lemma flags_not_lagging: "(LV_FDRD OR LV_CONN) AND LV_LAG = 0" "(LV_FDWR OR LV_CONN OR LV_ONESHOT) AND LV_LAG = 0" "(LV_CONN OR LV_FDRD) AND LV_LAG = 0"
  by (simp_all add: LV_FDRD_def LV_FDWR_def LV_CONN_def LV_ONESHOT_def LV_LAG_def)

lemmas [steps] = io_mod_steps [OF _ flags_not_lagging(1), THEN conseq1] io_add_steps [OF _ flags_not_lagging(1), THEN conseq1]
  io_add_steps [OF _ flags_not_lagging(2), THEN conseq1] io_add_steps [OF _ flags_not_lagging(3), THEN conseq1]

section \<open>Forwarding\<close>

lemma send_to_upstream_steps: "advances w0 w \<Longrightarrow> res2 (advances w0) (http_send_to_upstream nt req w)"
  unfolding http_send_to_upstream_def by (assumption | simp only: prod.case opt_all.simps option.case | rule steps res_rules advances_rules resI | (simp; fail) | fastforce)+

lemmas [steps] = send_to_upstream_steps [THEN conseq20]

lemma send_to_client_steps: "advances w0 w \<Longrightarrow> res2 (advances w0) (http_send_to_client nt conn req w)"
  unfolding http_send_to_client_def by (assumption | simp only: prod.case opt_all.simps option.case | rule steps res_rules advances_rules resI | (simp; fail) | fastforce)+

lemmas [steps] = send_to_client_steps [THEN conseq20]

lemma parse_request_steps: "advances w0 w \<Longrightarrow> res (to1 w0) (parse_request req w)"
  unfolding parse_request_def by (assumption | simp only: prod.case opt_all.simps option.case | rule steps res_rules advances_rules resI | (simp; fail) | fastforce)+

lemmas [steps] = parse_request_steps [THEN conseq1]

lemma forward_request_steps: "advances w0 w \<Longrightarrow> res2 (advances w0) (forward_request nt req w)"
  unfolding forward_request_def by (assumption | simp only: prod.case opt_all.simps option.case | rule steps res_rules advances_rules | (simp; fail) | fastforce)+

lemmas [steps] = forward_request_steps [THEN conseq20]

lemma http_process_request_line_steps: "advances w0 w \<Longrightarrow> res2 (to1 w0) (http_process_request_line nt req w)"
  apply (rule resI)
  subgoal premises p for y
    apply (rule http_process_request_line.raw_induct [where P = "\<lambda>nt req w y. advances w0 w \<longrightarrow> opt_all (to1 w0) y", OF _ p(2), THEN mp, OF _ p(1)])
    apply (intro impI, erule resD [rotated])
    subgoal premises p for loop nt req w y
    proof -
      have "advances w0 w \<Longrightarrow> res2 (to1 w0) (loop nt req w)" for nt req w
        by (rule resI) (rule p(1) [THEN mp])
      note ih = this [THEN conseq21]
      show ?thesis
        by (insert p(2)) (assumption | simp only: prod.case opt_all.simps option.case | rule ih steps res_rules advances_rules | (simp; fail) | fastforce)+
    qed
    done
  done

lemmas [steps] = http_process_request_line_steps [THEN conseq21]

lemma process_response_steps: "advances w0 w \<Longrightarrow> res2 (advances w0) (http_process_response_line nt conn req w)"
  unfolding http_process_response_line_def by (assumption | simp only: prod.case opt_all.simps option.case | rule steps res_rules advances_rules resI | (simp; fail) | fastforce)+

lemmas [steps] = process_response_steps [THEN conseq20]

section \<open>Callbacks\<close>

lemma connect_writable_steps: "advances w0 w \<Longrightarrow> res2 (to1 w0) (proxy_connect_writable nt conn w)"
  unfolding proxy_connect_writable_def by (assumption | simp only: prod.case opt_all.simps option.case | rule steps res_rules advances_rules resI | (simp; fail) | fastforce)+

lemmas [steps] = connect_writable_steps [THEN conseq21]

lemma connect_steps: "advances w0 w \<Longrightarrow> res (to1 w0) (proxy_connect nt conn w)"
  unfolding proxy_connect_def by (assumption | simp only: prod.case opt_all.simps option.case | rule steps res_rules advances_rules resI | (simp; fail) | fastforce)+

lemmas [steps] = connect_steps [THEN conseq1]

lemma resend_steps: "advances w0 w \<Longrightarrow> res2 (advances w0) (resend_chains nt req w)"
  unfolding resend_chains_def by (assumption | simp only: prod.case opt_all.simps option.case | rule steps res_rules advances_rules resI | (simp; fail) | fastforce)+

lemmas [steps] = resend_steps [THEN conseq20]

lemma proxy_data_steps: "advances w0 w \<Longrightarrow> res2 (advances w0) (proxy_data_coming nt conn w)"
  unfolding proxy_data_coming_def by (assumption | simp only: prod.case opt_all.simps option.case | rule steps res_rules advances_rules resI | (simp; fail) | fastforce)+

lemmas [steps] = proxy_data_steps [THEN conseq20]

lemma http_data_steps: "advances w0 w \<Longrightarrow> res2 (advances w0) (http_data_coming nt conn w)"
  unfolding http_data_coming_def by (assumption | simp only: prod.case opt_all.simps option.case | rule steps res_rules advances_rules resI | (simp; fail) | fastforce)+

lemmas [steps] = http_data_steps [THEN conseq20]

lemma init_connection_steps: "advances w0 w \<Longrightarrow> res (to1 w0) (http_init_connection nt fd w)"
  unfolding http_init_connection_def by (assumption | simp only: prod.case opt_all.simps option.case | rule steps res_rules advances_rules resI | (simp; fail) | fastforce)+

lemmas [steps] = init_connection_steps [THEN conseq1]

lemma accept_step: "lt_accept fd w = (rv, w') \<Longrightarrow> advances w0 w \<Longrightarrow> advances w0 w'"
  by (auto simp: lt_accept_def Let_def split: list.splits prod.splits if_splits intro: advances_rules)

fun end_state :: "'w accept_end \<Rightarrow> 'w" where
  "end_state (Ret rv w) = w"
| "end_state (Exit w) = w"

lemma accept_loop_steps: "advances w0 w \<Longrightarrow> res (\<lambda>r. advances w0 (end_state r)) (accept_loop nt k w)"
proof (induction k arbitrary: w)
  case (Suc k)
  obtain fd w1 where a: "lt_accept (w_listen_fd w) w = (fd, w1)" by (cases "lt_accept (w_listen_fd w) w")
  have w1: "advances w0 w1" by (rule accept_step [OF a Suc.prems])
  show ?case
    unfolding accept_loop.simps a prod.case
    by (insert w1) (assumption | simp only: prod.case end_state.simps | rule Suc.IH steps res_rules advances_rules | (simp; fail))+
qed (simp add: res_def)

lemma dispatch_steps: "advances w0 w \<Longrightarrow> res (advances w0) (dispatch nt cb ev arg w)"
proof -
  assume w0: "advances w0 w"
  have two: "res2 (advances w0) m \<Longrightarrow> res (advances w0) (Option.bind m id)" for m :: "'a web_scheme option option"
    by (cases m) (auto simp: res_def)
  have start: "res (advances w0) (case start_accept nt w of None \<Rightarrow> None | Some (Exit _) \<Rightarrow> None | Some (Ret _ w') \<Rightarrow> Some w')"
    using accept_loop_steps [OF w0, of nt "nt_somaxconn nt"]
    by (auto simp: res_def start_accept_def split: option.splits accept_end.splits)
  have wr: "res (advances w0) (map_option snd (Option.bind (proxy_connect_writable nt arg w) id))"
    using connect_writable_steps [OF w0, of nt arg]
    by (cases "proxy_connect_writable nt arg w") (auto simp: res_def)
  show ?thesis
    unfolding dispatch_def
    by (intro res_if start wr two http_data_steps proxy_data_steps resend_steps w0 res_None)
qed

lemma run_calls_steps: "advances w0 w \<Longrightarrow> res (advances w0) (run_calls (dispatch nt) as w)"
proof (induction as arbitrary: w)
  case (Cons a as)
  note ih = Cons.IH [THEN conseq0] dispatch_steps [THEN conseq0]
  show ?case
    unfolding run_calls.simps by (insert Cons.prems) (assumption | rule ih res_rules resI | (simp; fail))+
qed (simp add: res_def)

section \<open>Quiet\<close>

lemma quiet_lagging: "quiet w \<longleftrightarrow> bs_active_head w = 0 \<and> bs_active_tail w = 0 \<and> (\<forall>a e. w_ev w a = Some e \<longrightarrow> \<not> lagging e)"
  by (simp add: quiet_def lagging_def)

lemma advances_quiet: "advances w w' \<Longrightarrow> quiet w \<Longrightarrow> quiet w'"
  unfolding quiet_lagging advances_but_def fixed_part_def ev_step_def by (elim conjE) (simp, blast)

lemma dispatch_quiet: "keeps_quiet (dispatch nt)"
  unfolding keeps_quiet_def using resD [OF dispatch_steps [OF advances_refl]] advances_quiet by blast

end
