(* ===== verification/Accepting.thy ===== *)
theory Accepting
  imports Data_Coming
begin

text \<open>
  Taking a client: \<open>http_init_connection\<close> (http.c) makes the client's connection and \<open>proxy_connect\<close> (proxy.c) the upstream one, and the
  state they leave is one in which data of the client is served (\<open>served\<close> of \<open>Incoming\<close>).
\<close>

section \<open>A new connection\<close>

lemma conn_alloc_ok:
  assumes "mgr_room w ma 296 (Suc j)" and a: "a = word_of_nat (mgr_next w ma)"
  shows "\<exists>pm. conn_alloc nt ma w = Some (a, w\<lparr>w_pool := pm, w_conn := (w_conn w)(a \<mapsto> nt_junk_conn nt)\<rparr>) \<and>
    mgr_room (w\<lparr>w_pool := pm\<rparr>) ma 296 j \<and> mgr_next (w\<lparr>w_pool := pm\<rparr>) ma = mgr_next w ma + 296 \<and>
    unat a = mgr_next w ma \<and> a \<noteq> 0 \<and> mgr_next w ma + Suc j * 296 < 2 ^ 64 \<and> pool_kept (mgr_tail w ma) (w_pool w) pm"
proof -
  obtain pm where pm: "mgr_alloc (nt_sys nt) ma w = Some (a, True, w\<lparr>w_pool := pm\<rparr>)" "mgr_room (w\<lparr>w_pool := pm\<rparr>) ma 296 j"
      "mgr_next (w\<lparr>w_pool := pm\<rparr>) ma = mgr_next w ma + 296" "40 \<le> mgr_next w ma" "mgr_next w ma + Suc j * 296 < 2 ^ 64"
      "pool_kept (mgr_tail w ma) (w_pool w) pm"
    using mgr_alloc_ok [OF assms(1)] unfolding a by blast
  have ua: "unat a = mgr_next w ma" using pm(5) unfolding a by (intro unat_of_nat64) simp
  then have "a \<noteq> 0" using pm(4) by (metis not_numeral_le_zero unat_0)
  then show ?thesis using pm ua by (intro exI [of _ pm]) (simp add: conn_alloc_def)
qed

text \<open>Room for events and room in a manager depend on little of the state.\<close>

lemma ev_room_cong:
  assumes "ev_room w j" "bs_event_pool_manager w' = bs_event_pool_manager w" "bs_free_ev_head w' = bs_free_ev_head w" "w_ev w' = w_ev w"
    and "w_pool w' (pm_tail (bs_event_pool_manager w)) = w_pool w (pm_tail (bs_event_pool_manager w))"
  shows "ev_room w' j" "slot_of w' = slot_of w"
proof -
  have t: "tail_next (bs_event_pool_manager w) (w_pool w') = tail_next (bs_event_pool_manager w) (w_pool w)"
      "tail_used (bs_event_pool_manager w) (w_pool w') = tail_used (bs_event_pool_manager w) (w_pool w)"
    using assms(5) by (simp_all add: tail_next_def tail_used_def pool_at_def fun_eq_iff)
  then show "slot_of w' = slot_of w" using assms(2) by (simp add: slot_of_def fun_eq_iff)
  then show "ev_room w' j" using assms t by (simp add: ev_room_def pool_room_def)
qed

lemma ev_tail_live: "ev_room w j \<Longrightarrow> w_pool w (pm_tail (bs_event_pool_manager w)) \<noteq> None"
  by (auto simp: ev_room_def pool_room_def tail_used_def pool_at_def split: if_splits)

lemma pool_kept_dom: "pool_kept tb m m' \<Longrightarrow> m' t = None \<longleftrightarrow> m t = None"
  by (cases "t = tb") (auto simp: pool_kept_def)

section \<open>The upstream connection\<close>

text \<open>\<open>socket\<close> gives a descriptor, and the non-blocking \<open>connect\<close> has begun.\<close>

definition connects :: "net \<Rightarrow> u64 \<Rightarrow> bool" where
  "connects nt pair \<longleftrightarrow> nt_socket nt pair \<noteq> - 1 \<and> fst (nt_connect nt (nt_socket nt pair)) < 0 \<and> snd (nt_connect nt (nt_socket nt pair)) = EINPROGRESS"

definition upstream_conn :: "net \<Rightarrow> u64 \<Rightarrow> connection \<Rightarrow> u64 \<Rightarrow> u64 \<Rightarrow> connection" where
  "upstream_conn nt conn c pair ev = (nt_junk_conn nt)\<lparr>cn_buf_pool := cn_buf_pool c, cn_buf_pool_manager := cn_buf_pool_manager c, cn_pair := conn,
     cn_fd := nt_socket nt pair, cn_status := L_PROXY_CONNECTING, cn_ev := ev\<rparr>"

definition add_call :: "'a lea_scheme \<Rightarrow> int \<Rightarrow> 32 word \<Rightarrow> u64 \<Rightarrow> ep_call" where
  "add_call w fd fl ev = \<lparr>ec_epfd = bs_epfd w, ec_op = EPOLL_CTL_ADD, ec_fd = fd, ec_events = ep_mask fl, ec_ptr = ev\<rparr>"

lemma proxy_connect_ok:
  assumes c: "conn_at w conn = Some c" "ev_at (w_ev w) (cn_ev c) \<noteq> None"
    and room: "mgr_room w (connection_pool (w_http w)) 296 (Suc j)" "ev_room w (Suc k)"
    and apart: "mgr_tail w (connection_pool (w_http w)) \<noteq> pm_tail (bs_event_pool_manager w)"
    and pair: "pair = word_of_nat (mgr_next w (connection_pool (w_http w)))" "pair \<noteq> conn" and net: "connects nt pair"
    and ev: "ev = slot_of w 0"
  shows "\<exists>pm w'. proxy_connect nt conn w = Some (LAGAIN, w') \<and> ev \<noteq> 0 \<and> w_ev w ev = None \<and> pair \<noteq> 0 \<and>
    w' = w\<lparr>w_conn := (w_conn w)(conn \<mapsto> c\<lparr>cn_peer_addr_in := (AF_INET, 80, cn_peer_addr_c c), cn_pair := pair\<rparr>,
        pair \<mapsto> upstream_conn nt conn c pair ev), w_pool := pm,
      w_mgr := (w_mgr w)(request_pool pair := w_mgr w (request_pool conn)),
      w_ev := (w_ev w)(ev \<mapsto> registered (sy_os (nt_sys nt)) w (nt_socket nt pair) (LV_FDWR OR LV_CONN OR LV_ONESHOT) cb_proxy_connect_writable pair),
      w_calls := w_calls w @ [add_call w (nt_socket nt pair) (LV_FDWR OR LV_CONN OR LV_ONESHOT) ev]\<rparr> \<and>
    pools_like (w_pool w) pm \<and>
    (\<forall>t. t \<noteq> mgr_tail w (connection_pool (w_http w)) \<longrightarrow> t \<noteq> pm_tail (bs_event_pool_manager w) \<longrightarrow> pm t = w_pool w t) \<and>
    mgr_room (w\<lparr>w_pool := pm\<rparr>) (connection_pool (w_http w)) 296 j \<and>
    mgr_next (w\<lparr>w_pool := pm\<rparr>) (connection_pool (w_http w)) = mgr_next w (connection_pool (w_http w)) + 296 \<and> ev_room w' k"
proof -
  let ?cp = "connection_pool (w_http w)" and ?fl = "LV_FDWR OR LV_CONN OR LV_ONESHOT" and ?os = "sy_os (nt_sys nt)"
  let ?c1 = "c\<lparr>cn_peer_addr_in := (AF_INET, 80, cn_peer_addr_c c)\<rparr>" and ?sock = "nt_socket nt pair"
  have nz: "conn \<noteq> 0" using c(1) by (auto simp: conn_at_def)
  define w1 where "w1 = w\<lparr>w_conn := (w_conn w)(conn \<mapsto> ?c1)\<rparr>"
  have room1: "mgr_room w1 ?cp 296 (Suc j)" "mgr_next w1 ?cp = mgr_next w ?cp" "mgr_tail w1 ?cp = mgr_tail w ?cp"
    using room(1) by (simp_all add: mgr_room_cong [where w' = w1 and w = w] w1_def)
  obtain p1 where a: "conn_alloc nt ?cp w1 = Some (pair, w1\<lparr>w_pool := p1, w_conn := (w_conn w1)(pair \<mapsto> nt_junk_conn nt)\<rparr>)"
      "pair \<noteq> 0" "pool_kept (mgr_tail w ?cp) (w_pool w) p1" "mgr_room (w1\<lparr>w_pool := p1\<rparr>) ?cp 296 j" "mgr_next (w1\<lparr>w_pool := p1\<rparr>) ?cp = mgr_next w ?cp + 296"
    using conn_alloc_ok [OF room1(1), of pair nt] pair(1) unfolding room1(2,3) by (auto simp: w1_def)
  let ?c = "?c1\<lparr>cn_pair := pair\<rparr>"
  let ?p = "(nt_junk_conn nt)\<lparr>cn_buf_pool := cn_buf_pool c, cn_buf_pool_manager := cn_buf_pool_manager c, cn_pair := conn, cn_fd := ?sock\<rparr>"
  define w5 where "w5 = w\<lparr>w_conn := (w_conn w)(conn \<mapsto> ?c, pair \<mapsto> ?p\<lparr>cn_status := L_PROXY_CONNECTING\<rparr>), w_pool := p1,
      w_mgr := (w_mgr w)(request_pool pair := w_mgr w (request_pool conn))\<rparr>"
  have ev5: "ev_room w5 (Suc k)" "slot_of w5 = slot_of w"
    using a(3) apart by (auto simp: w5_def pool_kept_def intro!: ev_room_cong [OF room(2)])
  obtain p2 w6 where io: "lt_io_add ?os (sy_now (nt_sys nt)) w5 ?sock ?fl cb_proxy_connect_writable pair NO_TIMEOUT = Some (ev, w6)"
      "ev \<noteq> 0" "w_ev w5 ev = None"
      "w6 = w5\<lparr>w_pool := p2, w_ev := (w_ev w5)(ev \<mapsto> registered ?os w5 ?sock ?fl cb_proxy_connect_writable pair),
         w_calls := w_calls w5 @ [add_call w5 ?sock ?fl ev]\<rparr>" "pool_kept (pm_tail (bs_event_pool_manager w5)) (w_pool w5) p2"
      "ev_room w6 k"
    using io_add_ok [OF ev5(1), of NO_TIMEOUT ev ?os "sy_now (nt_sys nt)" ?sock ?fl cb_proxy_connect_writable pair] ev
    unfolding ev5(2) by (auto simp: NO_TIMEOUT_def add_call_def)
  define w7 where "w7 = w\<lparr>w_conn := (w_conn w)(conn \<mapsto> ?c, pair \<mapsto> upstream_conn nt conn c pair ev), w_pool := p2,
      w_mgr := (w_mgr w)(request_pool pair := w_mgr w (request_pool conn)),
      w_ev := (w_ev w)(ev \<mapsto> registered ?os w ?sock ?fl cb_proxy_connect_writable pair),
      w_calls := w_calls w @ [add_call w ?sock ?fl ev]\<rparr>"
  define w3 where "w3 = w\<lparr>w_conn := (w_conn w)(conn \<mapsto> ?c, pair \<mapsto> nt_junk_conn nt), w_pool := p1\<rparr>"
  define w4 where "w4 = w\<lparr>w_conn := (w_conn w)(conn \<mapsto> ?c, pair \<mapsto> ?p), w_pool := p1,
      w_mgr := (w_mgr w)(request_pool pair := w_mgr w (request_pool conn))\<rparr>"
  have s1: "conn_set conn (cn_peer_addr_in_update (\<lambda>_. (AF_INET, 80, cn_peer_addr_c c))) w = Some w1" "w_http w1 = w_http w"
    using c(1) by (simp_all add: conn_set_def w1_def)
  have s3: "conn_set conn (cn_pair_update (\<lambda>_. pair)) (w1\<lparr>w_pool := p1, w_conn := (w_conn w1)(pair \<mapsto> nt_junk_conn nt)\<rparr>) = Some w3"
      "conn_at w3 conn = Some ?c"
    using nz pair(2) by (auto simp: conn_set_def conn_at_def w1_def w3_def fun_upd_twist)
  have s4: "conn_set pair (\<lambda>p. p\<lparr>cn_buf_pool := cn_buf_pool ?c, cn_buf_pool_manager := cn_buf_pool_manager ?c, cn_pair := conn, cn_fd := ?sock\<rparr>)
      (w3\<lparr>w_mgr := (w_mgr w3)(request_pool pair := w_mgr w3 (request_pool conn))\<rparr>) = Some w4"
    using a(2) by (simp add: conn_set_def conn_at_def w3_def w4_def)
  have s5: "conn_set pair (cn_status_update (\<lambda>_. L_PROXY_CONNECTING)) w4 = Some w5" "conn_at w5 conn = Some ?c" "w_ev w5 = w_ev w"
    using a(2) nz pair(2) by (simp_all add: conn_set_def conn_at_def w4_def w5_def)
  have s7: "conn_set pair (cn_ev_update (\<lambda>_. ev)) w6 = Some w7"
    using a(2) by (simp add: conn_set_def conn_at_def io(4) w5_def w7_def upstream_conn_def registered_def add_call_def)
  obtain e0 where e0: "ev_at (w_ev w) (cn_ev c) = Some e0" using c(2) by blast
  obtain rv errno where n: "?sock \<noteq> - 1" "nt_connect nt ?sock = (rv, errno)" "rv < 0" "errno = EINPROGRESS"
    using net unfolding connects_def by (metis prod.collapse)
  have "proxy_connect nt conn w = Some (LAGAIN, w7)"
    unfolding proxy_connect_def
    by (simp only: c(1) s1 a(1) s3 s4 s5 s7 io(1) n bind.bind_lunit prod.case Let_def if_False if_True simp_thms)
      (simp add: e0 io(1) s7)
  moreover have "pools_like (w_pool w) p2"
    using pools_like_trans [OF pool_kept_like [OF a(3)]] pool_kept_like [OF io(5)] by (simp add: w5_def)
  moreover have "\<forall>t. t \<noteq> mgr_tail w ?cp \<longrightarrow> t \<noteq> pm_tail (bs_event_pool_manager w) \<longrightarrow> p2 t = w_pool w t"
    using a(3) io(5) by (simp add: pool_kept_def w5_def)
  moreover have "p2 (mgr_tail w ?cp) = p1 (mgr_tail w ?cp)" using io(5) apart by (simp add: pool_kept_def w5_def)
  then have "mgr_room (w\<lparr>w_pool := p2\<rparr>) ?cp 296 j" "mgr_next (w\<lparr>w_pool := p2\<rparr>) ?cp = mgr_next w ?cp + 296"
    using mgr_room_cong [of "w\<lparr>w_pool := p2\<rparr>" ?cp "w1\<lparr>w_pool := p1\<rparr>"] a(4,5) by (simp_all add: w1_def mgr_tail_def)
  moreover have "ev_room w7 k" by (rule ev_room_cong [OF io(6)]) (simp_all add: io(4) w5_def w7_def registered_def)
  ultimately show ?thesis using io(2,3) a(2) by (intro exI [of _ p2] exI [of _ w7]) (simp add: w7_def, simp add: w5_def)
qed

section \<open>A client\<close>

text \<open>
  What the server needs to take one client: room for two connections and two events in blocks of their own, and an allocator that gives
  the block for the requests (and those of \<open>szs\<close> after it); the connections do not lie inside the \<open>http_t\<close>.
\<close>

definition accepting :: "net \<Rightarrow> u64 list \<Rightarrow> 'a web_scheme \<Rightarrow> bool" where
  "accepting nt szs w \<longleftrightarrow> mgr_room w (connection_pool (w_http w)) 296 2 \<and> (\<exists>k. ev_room w (Suc (Suc k))) \<and>
     mgr_tail w (connection_pool (w_http w)) \<noteq> pm_tail (bs_event_pool_manager w) \<and>
     (\<forall>a. mgr_next w (connection_pool (w_http w)) \<le> unat a \<and> unat a < mgr_next w (connection_pool (w_http w)) + 592 \<longrightarrow>
        a \<noteq> connection_pool (w_http w) \<and> a \<noteq> buf_pool (w_http w)) \<and>
     supplies (os_aligned_alloc (sy_os (nt_sys nt))) ((sizeof_pool_manager + 4 * sizeof_request) # szs) (w_pool w)"

definition client_conn :: "net \<Rightarrow> u64 \<Rightarrow> int \<Rightarrow> u64 \<Rightarrow> u64 \<Rightarrow> connection" where
  "client_conn nt http fd pair ev = (nt_junk_conn nt)\<lparr>cn_fd := fd, cn_request_free_head := 0, cn_buf_pool_manager := buf_pool http,
     cn_status := L_CONNECTING_ACCEPTED, cn_ev := ev, cn_peer_addr_c := ''127.0.0.1'', cn_peer_addr_in := (AF_INET, 80, ''127.0.0.1''), cn_pair := pair\<rparr>"

text \<open>The room of a manager lies in its block.\<close>

lemma room_in_block:
  assumes "mgr_room w ma e j"
  shows "\<exists>h. w_pool w (mgr_tail w ma) = Some h \<and> unat (mp_start h) \<le> mgr_next w ma \<and> mgr_next w ma + j * e \<le> unat (mp_end h)"
proof -
  obtain mg i where mg: "w_mgr w ma = Some mg" "j \<le> i" "pool_room mg (mg, w_pool w) i" "unat (pm_one_element_size mg) = e"
    using assms by (auto simp: mgr_room_def split: option.splits)
  then obtain h where h: "w_pool w (pm_tail mg) = Some h" "unat (mp_end h) = unat (mp_start h) + 48 + unat (pm_element_count mg) * e"
      "unat (mp_pos h) = unat (mp_start h) + 40 + (unat (pm_element_count mg) - i) * e" "i \<le> unat (pm_element_count mg)" "pool_at (w_pool w) (pm_tail mg) = Some h"
    by (auto simp: pool_room_def tail_used_def pool_at_def split: if_splits)
  have "(unat (pm_element_count mg) - i) * e + j * e \<le> unat (pm_element_count mg) * e"
    using h(4) mg(2) by (metis add_mult_distrib le_add_diff_inverse2 mult_le_mono1 nat_add_left_cancel_le)
  then show ?thesis using h mg(1) by (intro exI [of _ h]) (simp add: mgr_tail_def mgr_next_def tail_next_def)
qed

lemma init_connection_full:
  assumes ready: "accepting nt szs w" and conn: "conn = word_of_nat (mgr_next w (connection_pool (w_http w)))"
    and pair: "pair = word_of_nat (mgr_next w (connection_pool (w_http w)) + 296)" and net: "connects nt pair"
    and room: "mgr_room w (connection_pool (w_http w)) 296 (Suc (Suc j))" "ev_room w (Suc (Suc k))"
  shows "\<exists>mg pm e1 e2 blk w'. http_init_connection nt fd w = Some (conn, w') \<and>
    w' = w\<lparr>w_conn := (w_conn w)(conn \<mapsto> client_conn nt (w_http w) fd pair e1,
        pair \<mapsto> upstream_conn nt conn (client_conn nt (w_http w) fd pair e1) pair e2), w_pool := pm,
      w_mgr := (w_mgr w)(request_pool conn \<mapsto> mg, request_pool pair \<mapsto> mg),
      w_ev := (w_ev w)(e1 \<mapsto> registered (sy_os (nt_sys nt)) w fd (LV_FDRD OR LV_CONN) cb_http_data_coming conn,
        e2 \<mapsto> registered (sy_os (nt_sys nt)) w (nt_socket nt pair) (LV_FDWR OR LV_CONN OR LV_ONESHOT) cb_proxy_connect_writable pair),
      w_calls := w_calls w @ [add_call w fd (LV_FDRD OR LV_CONN) e1, add_call w (nt_socket nt pair) (LV_FDWR OR LV_CONN OR LV_ONESHOT) e2]\<rparr> \<and>
    conn \<noteq> 0 \<and> pair \<noteq> 0 \<and> pair \<noteq> conn \<and> e1 \<noteq> 0 \<and> e2 \<noteq> 0 \<and> e1 \<noteq> e2 \<and> w_ev w e1 = None \<and> w_ev w e2 = None \<and>
    mgr_room w' (request_pool conn) 552 4 \<and> mgr_tail w' (request_pool conn) = blk \<and> mgr_next w' (request_pool conn) = unat blk + 40 \<and>
    w_pool w blk = None \<and> (unat blk + 2256 \<le> unat conn \<or> unat conn + 592 \<le> unat blk) \<and>
    blk \<noteq> 0 \<and> (\<exists>m. blk = os_aligned_alloc (sy_os (nt_sys nt)) m (sizeof_pool_manager + 4 * sizeof_request)) \<and>
    (\<forall>t. t \<notin> {blk, mgr_tail w (connection_pool (w_http w)), pm_tail (bs_event_pool_manager w)} \<longrightarrow> pm t = w_pool w t) \<and>
    supplies (os_aligned_alloc (sy_os (nt_sys nt))) szs pm \<and>
    mgr_room w' (connection_pool (w_http w)) 296 j \<and> mgr_next w' (connection_pool (w_http w)) = mgr_next w (connection_pool (w_http w)) + 592 \<and> ev_room w' k \<and>
    mgr_tail w' (connection_pool (w_http w)) = mgr_tail w (connection_pool (w_http w)) \<and>
    unat conn = mgr_next w (connection_pool (w_http w)) \<and> unat pair = mgr_next w (connection_pool (w_http w)) + 296"
proof -
  let ?cp = "connection_pool (w_http w)" and ?os = "sy_os (nt_sys nt)" and ?aa = "os_aligned_alloc (sy_os (nt_sys nt))"
    and ?et = "pm_tail (bs_event_pool_manager w)" and ?sz = "sizeof_pool_manager + 4 * sizeof_request" and ?rp = "request_pool conn" and ?fl = "LV_FDRD OR LV_CONN"
  have rd: "mgr_room w ?cp 296 (Suc (Suc j))" "ev_room w (Suc (Suc k))" "mgr_tail w ?cp \<noteq> ?et" "supplies ?aa (?sz # szs) (w_pool w)"
      "mgr_next w ?cp \<le> unat a \<and> unat a < mgr_next w ?cp + 592 \<Longrightarrow> a \<noteq> ?cp \<and> a \<noteq> buf_pool (w_http w)" for a
    using ready room by (simp_all add: accepting_def)
  obtain p1 where a: "conn_alloc nt ?cp w = Some (conn, w\<lparr>w_pool := p1, w_conn := (w_conn w)(conn \<mapsto> nt_junk_conn nt)\<rparr>)"
      "mgr_room (w\<lparr>w_pool := p1\<rparr>) ?cp 296 (Suc j)" "mgr_next (w\<lparr>w_pool := p1\<rparr>) ?cp = mgr_next w ?cp + 296" "unat conn = mgr_next w ?cp" "conn \<noteq> 0"
      "mgr_next w ?cp + 592 < 2 ^ 64" "pool_kept (mgr_tail w ?cp) (w_pool w) p1"
  proof -
    have "mgr_next w ?cp + 592 < 2 ^ 64" using mgr_room_limit [OF rd(1)] by simp
    then show ?thesis using conn_alloc_ok [OF rd(1) conn, of nt] that by blast
  qed
  have up: "unat pair = mgr_next w ?cp + 296" using a(6) unfolding pair by (intro unat_of_nat64) simp
  have rps: "unat ?rp = mgr_next w ?cp + 152" "unat (request_pool pair) = mgr_next w ?cp + 448"
    using a(4,6) up by (simp_all add: request_pool_def unat_word_ariths)
  have ne: "pair \<noteq> conn" "?rp \<noteq> ?cp" "?rp \<noteq> 0" "request_pool pair \<noteq> ?cp" "request_pool pair \<noteq> ?rp"
    using up a(4) rps rd(5) [of ?rp] rd(5) [of "request_pool pair"] by auto
  define c2 where "c2 = (nt_junk_conn nt)\<lparr>cn_fd := fd, cn_request_free_head := 0, cn_buf_pool_manager := buf_pool (w_http w), cn_status := L_CONNECTING_ACCEPTED\<rparr>"
  define w2 where "w2 = w\<lparr>w_pool := p1, w_conn := (w_conn w)(conn \<mapsto> c2)\<rparr>"
  have s2: "conn_set conn (\<lambda>c. c\<lparr>cn_fd := fd, cn_request_free_head := 0, cn_buf_pool_manager := buf_pool (w_http w), cn_status := L_CONNECTING_ACCEPTED\<rparr>)
      (w\<lparr>w_pool := p1, w_conn := (w_conn w)(conn \<mapsto> nt_junk_conn nt)\<rparr>) = Some w2"
    using a(5) by (simp add: conn_set_def conn_at_def w2_def c2_def)
  have like1: "pools_like (w_pool w) p1" using pool_kept_like [OF a(7)] .
  have args: "pool_args ?aa ?rp sizeof_request 4 (w_pool w2)"
    using supplies_args [OF rd(4) like1 ne(3)] by (simp add: w2_def sizeof_request_def)
  define blk where "blk = ?aa p1 ?sz"
  have blk: "blk = ?aa (w_pool w2) ?sz" by (simp add: blk_def w2_def)
  obtain mg p3 where m: "mgr_new (nt_sys nt) ?rp sizeof_request 4 w2 = Some (w2\<lparr>w_mgr := (w_mgr w2)(?rp \<mapsto> mg), w_pool := p3\<rparr>)"
      "mgr_room (w2\<lparr>w_mgr := (w_mgr w2)(?rp \<mapsto> mg), w_pool := p3\<rparr>) ?rp 552 4" "mgr_tail (w2\<lparr>w_mgr := (w_mgr w2)(?rp \<mapsto> mg), w_pool := p3\<rparr>) ?rp = blk"
      "own_block blk sizeof_request 4 mg p3" "\<forall>t. t \<noteq> blk \<longrightarrow> p3 t = p1 t"
      "mgr_next (w2\<lparr>w_mgr := (w_mgr w2)(?rp \<mapsto> mg), w_pool := p3\<rparr>) ?rp = unat blk + 40"
    using mgr_new_ok [OF args blk] by (auto simp: sizeof_request_def w2_def)
  have sup: "fresh_block ?aa p1 ?sz" "blk \<noteq> 0" "block_added blk ?sz p1 m' \<Longrightarrow> supplies ?aa szs m'" for m'
    using rd(4) like1 by (auto simp: blk_def)
  have fresh: "p1 blk = None" "w_pool w blk = None"
    using sup(1,2) pools_like_None [OF like1] by (simp_all add: fresh_block_def blk_def)
  obtain h where h: "w_pool w (mgr_tail w ?cp) = Some h" "unat (mp_start h) \<le> mgr_next w ?cp" "mgr_next w ?cp + 592 \<le> unat (mp_end h)"
    using room_in_block [OF rd(1)] by auto
  then obtain h1 where h1: "p1 (mgr_tail w ?cp) = Some h1" using pools_like_None [OF like1, of "mgr_tail w ?cp"] by auto
  have "mp_start h1 = mp_start h" "mp_end h1 = mp_end h" using pools_like_header [OF like1 h1] h(1) by auto
  then have away: "unat blk + 2256 \<le> unat conn \<or> unat conn + 592 \<le> unat blk"
    using sup(1,2) h1 h(2,3) a(4) unfolding fresh_block_def blk_def by (fastforce simp: sizeof_pool_manager_def sizeof_request_def)
  have sup3: "supplies ?aa szs p3" using m(4,5) by (intro sup(3)) (auto simp: block_added_def own_block_def)
  have live: "blk \<noteq> mgr_tail w ?cp" "blk \<noteq> ?et" using fresh(2) room_tail_live [OF rd(1)] ev_tail_live [OF rd(2)] by auto
  define w3 where "w3 = w2\<lparr>w_mgr := (w_mgr w2)(?rp \<mapsto> mg), w_pool := p3\<rparr>"
  have p3: "p3 ?et = w_pool w ?et" "p3 (mgr_tail w ?cp) = p1 (mgr_tail w ?cp)"
    using m(5) live a(7) rd(3) by (simp_all add: pool_kept_def)
  have ev3: "ev_room w3 (Suc (Suc k))" "slot_of w3 = slot_of w"
    using ev_room_cong [OF rd(2), of w3] p3(1) by (simp_all add: w3_def w2_def)
  define e1 where "e1 = slot_of w3 0"
  obtain p4 w4 where io: "lt_io_add ?os (sy_now (nt_sys nt)) w3 fd ?fl cb_http_data_coming conn NO_TIMEOUT = Some (e1, w4)"
      "e1 \<noteq> 0" "w_ev w3 e1 = None" "w4 = w3\<lparr>w_pool := p4, w_ev := (w_ev w3)(e1 \<mapsto> registered ?os w3 fd ?fl cb_http_data_coming conn),
         w_calls := w_calls w3 @ [add_call w3 fd ?fl e1]\<rparr>" "ev_room w4 (Suc k)" "pool_kept (pm_tail (bs_event_pool_manager w3)) (w_pool w3) p4"
    using io_add_ok [OF ev3(1) _ e1_def, of NO_TIMEOUT ?os "sy_now (nt_sys nt)" fd ?fl cb_http_data_coming conn] by (auto simp: NO_TIMEOUT_def add_call_def)
  define c5 where "c5 = c2\<lparr>cn_ev := e1, cn_peer_addr_c := ''127.0.0.1''\<rparr>"
  define w5 where "w5 = w\<lparr>w_conn := (w_conn w)(conn \<mapsto> c5), w_pool := p4, w_mgr := (w_mgr w)(?rp \<mapsto> mg),
      w_ev := (w_ev w)(e1 \<mapsto> registered ?os w fd ?fl cb_http_data_coming conn), w_calls := w_calls w @ [add_call w fd ?fl e1]\<rparr>"
  have s5: "conn_set conn (\<lambda>c. c\<lparr>cn_ev := e1, cn_peer_addr_c := proxy_get_upstream_addr\<rparr>) w4 = Some w5"
    using a(5) by (simp add: conn_set_def conn_at_def io(4) w5_def w3_def w2_def c5_def proxy_get_upstream_addr_def registered_def add_call_def)
  have p4: "t \<noteq> ?et \<longrightarrow> p4 t = p3 t" "pools_like p3 p4" for t
    using io(6) pool_kept_like [OF io(6)] by (simp_all add: pool_kept_def w3_def w2_def)
  have base5: "w_http w5 = w_http w" "bs_event_pool_manager w5 = bs_event_pool_manager w" by (simp_all add: w5_def)
  have cp5: "mgr_room w5 ?cp = mgr_room (w\<lparr>w_pool := p1\<rparr>) ?cp" "mgr_next w5 ?cp = mgr_next (w\<lparr>w_pool := p1\<rparr>) ?cp" "mgr_tail w5 ?cp = mgr_tail w ?cp"
    using mgr_room_cong [of w5 ?cp "w\<lparr>w_pool := p1\<rparr>"] ne(2) p4(1) p3(2) rd(3) by (simp_all add: w5_def mgr_tail_def)
  have c5: "conn_at w5 conn = Some c5" "ev_at (w_ev w5) (cn_ev c5) \<noteq> None" using a(5) io(2) by (simp_all add: conn_at_def w5_def c5_def)
  have ev5: "ev_room w5 (Suc k)" by (rule ev_room_cong [OF io(5)]) (simp_all add: io(4) w5_def w3_def w2_def registered_def)
  have room5: "mgr_room w5 (connection_pool (w_http w5)) 296 (Suc j)" "mgr_tail w5 (connection_pool (w_http w5)) \<noteq> pm_tail (bs_event_pool_manager w5)"
      "pair = word_of_nat (mgr_next w5 (connection_pool (w_http w5)))"
    unfolding base5 cp5 using a(2,3) rd(3) by (simp_all add: pair)
  obtain p6 w6 where pc: "proxy_connect nt conn w5 = Some (LAGAIN, w6)" "slot_of w5 0 \<noteq> 0" "w_ev w5 (slot_of w5 0) = None" "pair \<noteq> 0"
      "w6 = w5\<lparr>w_conn := (w_conn w5)(conn \<mapsto> c5\<lparr>cn_peer_addr_in := (AF_INET, 80, cn_peer_addr_c c5), cn_pair := pair\<rparr>,
          pair \<mapsto> upstream_conn nt conn c5 pair (slot_of w5 0)), w_pool := p6,
        w_mgr := (w_mgr w5)(request_pool pair := w_mgr w5 ?rp),
        w_ev := (w_ev w5)(slot_of w5 0 \<mapsto> registered ?os w5 (nt_socket nt pair) (LV_FDWR OR LV_CONN OR LV_ONESHOT) cb_proxy_connect_writable pair),
        w_calls := w_calls w5 @ [add_call w5 (nt_socket nt pair) (LV_FDWR OR LV_CONN OR LV_ONESHOT) (slot_of w5 0)]\<rparr>"
      "pools_like (w_pool w5) p6" "\<forall>t. t \<noteq> mgr_tail w5 (connection_pool (w_http w5)) \<longrightarrow> t \<noteq> pm_tail (bs_event_pool_manager w5) \<longrightarrow> p6 t = w_pool w5 t"
      "mgr_room (w5\<lparr>w_pool := p6\<rparr>) (connection_pool (w_http w5)) 296 j" "mgr_next (w5\<lparr>w_pool := p6\<rparr>) (connection_pool (w_http w5)) = mgr_next w5 (connection_pool (w_http w5)) + 296"
      "ev_room w6 k"
    using proxy_connect_ok [OF c5 room5(1) ev5 room5(2,3) ne(1) net refl] by blast
  define e2 where "e2 = slot_of w5 0"
  note pc = pc [folded e2_def]
  have e: "e1 \<noteq> e2" "w_ev w e1 = None" "w_ev w e2 = None"
    using pc(3) io(3) by (auto simp: w5_def w3_def w2_def split: if_splits)
  have w6: "w6 = w\<lparr>w_conn := (w_conn w)(conn \<mapsto> client_conn nt (w_http w) fd pair e1,
        pair \<mapsto> upstream_conn nt conn (client_conn nt (w_http w) fd pair e1) pair e2), w_pool := p6,
      w_mgr := (w_mgr w)(?rp \<mapsto> mg, request_pool pair \<mapsto> mg),
      w_ev := (w_ev w)(e1 \<mapsto> registered ?os w fd ?fl cb_http_data_coming conn,
        e2 \<mapsto> registered ?os w (nt_socket nt pair) (LV_FDWR OR LV_CONN OR LV_ONESHOT) cb_proxy_connect_writable pair),
      w_calls := w_calls w @ [add_call w fd ?fl e1, add_call w (nt_socket nt pair) (LV_FDWR OR LV_CONN OR LV_ONESHOT) e2]\<rparr>"
    unfolding pc(5) by (simp add: w5_def c5_def c2_def client_conn_def upstream_conn_def registered_def add_call_def)
  have init: "http_init_connection nt fd w = Some (conn, w6)"
    using a(1) s2 m(1) io(1) s5 pc(1) unfolding w3_def [symmetric]
    by (simp add: http_init_connection_def rc_defs)
  have p6: "p6 t = w_pool w t" if "t \<notin> {blk, mgr_tail w ?cp, ?et}" for t
    using pc(7) p4(1) m(5) a(7) that unfolding base5 cp5 by (simp add: w5_def pool_kept_def)
  have "supplies ?aa szs p6" using supplies_like [OF supplies_like [OF sup3 p4(2)]] pc(6) by (simp add: w5_def)
  moreover have "p6 blk = p3 blk" using pc(7) p4(1) live unfolding base5 cp5 by (simp add: w5_def)
  then have "mgr_room w6 ?rp 552 4" "mgr_tail w6 ?rp = blk" "mgr_next w6 ?rp = unat blk + 40"
    using mgr_room_cong [of w6 ?rp w3] m(2,3,6) ne(5) unfolding w3_def [symmetric] by (simp_all add: w6 w3_def w2_def)
  moreover have "\<exists>m. blk = ?aa m ?sz" using blk_def by blast
  moreover have "mgr_room w6 ?cp 296 j" "mgr_next w6 ?cp = mgr_next w ?cp + 592" "mgr_tail w6 ?cp = mgr_tail w ?cp"
    using mgr_room_cong [of w6 ?cp "w5\<lparr>w_pool := p6\<rparr>"] pc(8,9) ne(2,4) a(3) unfolding base5 cp5 by (simp_all add: w6 w5_def mgr_tail_def)
  ultimately show ?thesis
    using pc(10) a(4) up init w6 a(5) pc(2,4) ne(1) io(2) e fresh(2) p6 away sup(2) by (intro exI [of _ mg] exI [of _ p6] exI [of _ e1] exI [of _ e2] exI [of _ blk] exI [of _ w6]) simp
qed

lemma init_connection_ok:
  assumes ready: "accepting nt szs w" and conn: "conn = word_of_nat (mgr_next w (connection_pool (w_http w)))"
    and pair: "pair = word_of_nat (mgr_next w (connection_pool (w_http w)) + 296)" and net: "connects nt pair"
  shows "\<exists>mg pm e1 e2 blk w'. http_init_connection nt fd w = Some (conn, w') \<and>
    w' = w\<lparr>w_conn := (w_conn w)(conn \<mapsto> client_conn nt (w_http w) fd pair e1,
        pair \<mapsto> upstream_conn nt conn (client_conn nt (w_http w) fd pair e1) pair e2), w_pool := pm,
      w_mgr := (w_mgr w)(request_pool conn \<mapsto> mg, request_pool pair \<mapsto> mg),
      w_ev := (w_ev w)(e1 \<mapsto> registered (sy_os (nt_sys nt)) w fd (LV_FDRD OR LV_CONN) cb_http_data_coming conn,
        e2 \<mapsto> registered (sy_os (nt_sys nt)) w (nt_socket nt pair) (LV_FDWR OR LV_CONN OR LV_ONESHOT) cb_proxy_connect_writable pair),
      w_calls := w_calls w @ [add_call w fd (LV_FDRD OR LV_CONN) e1, add_call w (nt_socket nt pair) (LV_FDWR OR LV_CONN OR LV_ONESHOT) e2]\<rparr> \<and>
    conn \<noteq> 0 \<and> pair \<noteq> 0 \<and> pair \<noteq> conn \<and> e1 \<noteq> 0 \<and> e2 \<noteq> 0 \<and> e1 \<noteq> e2 \<and> w_ev w e1 = None \<and> w_ev w e2 = None \<and>
    mgr_room w' (request_pool conn) 552 4 \<and> mgr_tail w' (request_pool conn) = blk \<and> mgr_next w' (request_pool conn) = unat blk + 40 \<and>
    w_pool w blk = None \<and> (unat blk + 2256 \<le> unat conn \<or> unat conn + 592 \<le> unat blk) \<and>
    blk \<noteq> 0 \<and> (\<exists>m. blk = os_aligned_alloc (sy_os (nt_sys nt)) m (sizeof_pool_manager + 4 * sizeof_request)) \<and>
    (\<forall>t. t \<notin> {blk, mgr_tail w (connection_pool (w_http w)), pm_tail (bs_event_pool_manager w)} \<longrightarrow> pm t = w_pool w t) \<and>
    supplies (os_aligned_alloc (sy_os (nt_sys nt))) szs pm"
proof -
  obtain k where "ev_room w (Suc (Suc k))" "mgr_room w (connection_pool (w_http w)) 296 (Suc (Suc 0))"
    using ready by (auto simp: accepting_def numeral_2_eq_2)
  from init_connection_full [OF ready conn pair net this(2,1)] show ?thesis by blast
qed

section \<open>Ready to be served\<close>

text \<open>What else the server needs to serve the client: room for a buffer, and memory and sockets that behave (as in \<open>served\<close>).\<close>

definition serving :: "net \<Rightarrow> int \<Rightarrow> 'a web_scheme \<Rightarrow> bool" where
  "serving nt sock w \<longleftrightarrow> mgr_room w (buf_pool (w_http w)) 16432 1 \<and>
     mgr_tail w (buf_pool (w_http w)) \<noteq> mgr_tail w (connection_pool (w_http w)) \<and>
     mgr_tail w (buf_pool (w_http w)) \<noteq> pm_tail (bs_event_pool_manager w) \<and>
     ch_next (sy_junk_chain (nt_sys nt)) = 0 \<and> length (rq_lowcase_header (hr_req (nt_junk_req nt))) = 32 \<and>
     (\<forall>out vs. fst (sy_writev (nt_sys nt) out sock vs) = int (length (concat vs)))"

lemma init_served:
  assumes ready: "accepting nt request_blocks w" "serving nt (nt_socket nt pair) w" and conn: "conn = word_of_nat (mgr_next w (connection_pool (w_http w)))"
    and pair: "pair = word_of_nat (mgr_next w (connection_pool (w_http w)) + 296)" and net: "connects nt pair"
  shows "\<exists>e1 e2 w'. http_init_connection nt fd w = Some (conn, w') \<and>
    served nt w' conn (client_conn nt (w_http w) fd pair e1) (upstream_conn nt conn (client_conn nt (w_http w) fd pair e1) pair e2) \<and>
    w_ev w' = (w_ev w)(e1 \<mapsto> registered (sy_os (nt_sys nt)) w fd (LV_FDRD OR LV_CONN) cb_http_data_coming conn,
        e2 \<mapsto> registered (sy_os (nt_sys nt)) w (nt_socket nt pair) (LV_FDWR OR LV_CONN OR LV_ONESHOT) cb_proxy_connect_writable pair) \<and>
    w_calls w' = w_calls w @ [add_call w fd (LV_FDRD OR LV_CONN) e1, add_call w (nt_socket nt pair) (LV_FDWR OR LV_CONN OR LV_ONESHOT) e2] \<and>
    e1 \<noteq> 0 \<and> e2 \<noteq> 0 \<and> e1 \<noteq> e2 \<and> w_ev w e1 = None \<and> w_ev w e2 = None \<and>
    w_out w' = w_out w \<and> w_in w' = w_in w \<and> w_pending w' = w_pending w \<and> w_listen_fd w' = w_listen_fd w \<and> w_HostHash w' = w_HostHash w"
proof -
  let ?cp = "connection_pool (w_http w)" and ?bp = "buf_pool (w_http w)" and ?rp = "request_pool conn"
  obtain mg pm e1 e2 blk w' where i: "http_init_connection nt fd w = Some (conn, w')"
    "w' = w\<lparr>w_conn := (w_conn w)(conn \<mapsto> client_conn nt (w_http w) fd pair e1,
        pair \<mapsto> upstream_conn nt conn (client_conn nt (w_http w) fd pair e1) pair e2), w_pool := pm,
      w_mgr := (w_mgr w)(?rp \<mapsto> mg, request_pool pair \<mapsto> mg),
      w_ev := (w_ev w)(e1 \<mapsto> registered (sy_os (nt_sys nt)) w fd (LV_FDRD OR LV_CONN) cb_http_data_coming conn,
        e2 \<mapsto> registered (sy_os (nt_sys nt)) w (nt_socket nt pair) (LV_FDWR OR LV_CONN OR LV_ONESHOT) cb_proxy_connect_writable pair),
      w_calls := w_calls w @ [add_call w fd (LV_FDRD OR LV_CONN) e1, add_call w (nt_socket nt pair) (LV_FDWR OR LV_CONN OR LV_ONESHOT) e2]\<rparr>"
    "conn \<noteq> 0" "pair \<noteq> 0" "pair \<noteq> conn" "e1 \<noteq> 0" "e2 \<noteq> 0" "e1 \<noteq> e2" "w_ev w e1 = None" "w_ev w e2 = None"
    "mgr_room w' ?rp 552 4" "mgr_tail w' ?rp = blk" "w_pool w blk = None"
    "\<forall>t. t \<notin> {blk, mgr_tail w ?cp, pm_tail (bs_event_pool_manager w)} \<longrightarrow> pm t = w_pool w t"
    "supplies (os_aligned_alloc (sy_os (nt_sys nt))) request_blocks pm"
    using init_connection_ok [OF ready(1) conn pair net] by blast
  have sv: "mgr_room w ?bp 16432 1" "mgr_tail w ?bp \<noteq> mgr_tail w ?cp" "mgr_tail w ?bp \<noteq> pm_tail (bs_event_pool_manager w)"
    using ready(2) by (simp_all add: serving_def)
  have rd: "\<forall>a. mgr_next w ?cp \<le> unat a \<and> unat a < mgr_next w ?cp + 592 \<longrightarrow> a \<noteq> ?cp \<and> a \<noteq> ?bp" "mgr_room w ?cp 296 (Suc 1)"
    using ready(1) by (simp_all add: accepting_def numeral_2_eq_2)
  have u: "unat conn = mgr_next w ?cp" "mgr_next w ?cp + 592 < 2 ^ 64" using conn_alloc_ok [OF rd(2) conn] by auto
  have up: "unat pair = mgr_next w ?cp + 296" using u(2) unfolding pair by (intro unat_of_nat64) simp
  have "unat ?rp = mgr_next w ?cp + 152" "unat (request_pool pair) = mgr_next w ?cp + 448"
    using u up by (simp_all add: request_pool_def unat_word_ariths)
  then have ne: "?rp \<noteq> ?bp" "request_pool pair \<noteq> ?bp" using rd(1) [rule_format, of ?rp] rd(1) [rule_format, of "request_pool pair"] by auto
  have "mgr_tail w ?bp \<noteq> blk" using i(13) room_tail_live [OF sv(1)] by auto
  then have b: "mgr_room w' ?bp = mgr_room w ?bp" "mgr_tail w' ?bp = mgr_tail w ?bp"
    using mgr_room_cong [of w' ?bp w] ne i(14) sv(2,3) by (simp_all add: i(2))
  have "served nt w' conn (client_conn nt (w_http w) fd pair e1) (upstream_conn nt conn (client_conn nt (w_http w) fd pair e1) pair e2)"
    unfolding served_def
  proof (intro conjI)
    show "mgr_room w' ?rp 552 1" using mgr_room_le [OF i(11)] by simp
    show "mgr_room w' (cn_buf_pool_manager (client_conn nt (w_http w) fd pair e1)) 16432 1"
      "mgr_tail w' (cn_buf_pool_manager (client_conn nt (w_http w) fd pair e1)) \<noteq> mgr_tail w' ?rp"
      using b sv(1) i(12) \<open>mgr_tail w ?bp \<noteq> blk\<close> by (simp_all add: client_conn_def)
    show "supplies (os_aligned_alloc (sy_os (nt_sys nt))) request_blocks (w_pool w')" using i(15) by (simp add: i(2))
    show "ev_at (w_ev w') (cn_ev (client_conn nt (w_http w) fd pair e1)) \<noteq> None" using i(6) by (simp add: i(2) client_conn_def)
  qed (use ready(2) i(3-5) in \<open>simp_all add: serving_def i(2) conn_at_def client_conn_def upstream_conn_def\<close>)
  then show ?thesis using i(1,6-10) by (intro exI [of _ e1] exI [of _ e2] exI [of _ w']) (simp add: i(2))
qed

end
