(* ===== verification/Serving.thy ===== *)
theory Serving
  imports Accepting Callback_Steps
begin

text \<open>
  A client from its connection to its request: \<open>start_accept\<close> takes it (http.c), and the loop of event_lea.c calls \<open>http_data_coming\<close> when
  epoll reports its socket.
\<close>

section \<open>One client\<close>

lemma pending_frame:
  "mgr_room (w\<lparr>w_pending := q\<rparr>) = mgr_room w" "mgr_next (w\<lparr>w_pending := q\<rparr>) = mgr_next w" "mgr_tail (w\<lparr>w_pending := q\<rparr>) = mgr_tail w"
  "ev_room (w\<lparr>w_pending := q\<rparr>) = ev_room w"
  by (simp_all add: fun_eq_iff mgr_tail_def ev_room_def slot_of_def mgr_cong [of "w\<lparr>w_pending := q\<rparr>" w])

lemma accepting_pending: "accepting nt szs (w\<lparr>w_pending := q\<rparr>) = accepting nt szs w" "serving nt s (w\<lparr>w_pending := q\<rparr>) = serving nt s w"
  by (simp_all add: accepting_def serving_def pending_frame)

lemma served_pending: "served nt (w\<lparr>w_pending := q\<rparr>) conn c p = served nt w conn c p"
  by (simp add: served_def pending_frame conn_at_def)

text \<open>One client waits at the listening socket, and nothing else.\<close>

definition one_client :: "net \<Rightarrow> int \<Rightarrow> 'a web_scheme \<Rightarrow> bool" where
  "one_client nt fd w \<longleftrightarrow> w_pending w (w_listen_fd w) = [(fd, 0)] \<and> 0 \<le> fd \<and> 2 \<le> nt_somaxconn nt"

lemma accept_one:
  assumes one: "one_client nt fd w" and ready: "accepting nt request_blocks w" "serving nt (nt_socket nt pair) w"
    and conn: "conn = word_of_nat (mgr_next w (connection_pool (w_http w)))"
    and pair: "pair = word_of_nat (mgr_next w (connection_pool (w_http w)) + 296)" and net: "connects nt pair"
  shows "\<exists>e1 e2 w' c p. start_accept nt w = Some (Ret (- 1) w') \<and> served nt w' conn c p \<and> cn_fd c = fd \<and> cn_status c = L_CONNECTING_ACCEPTED \<and>
    cn_fd p = nt_socket nt pair \<and> cn_ev c = e1 \<and> cn_ev p = e2 \<and>
    w_ev w' = (w_ev w)(e1 \<mapsto> registered (sy_os (nt_sys nt)) w fd (LV_FDRD OR LV_CONN) cb_http_data_coming conn,
        e2 \<mapsto> registered (sy_os (nt_sys nt)) w (nt_socket nt pair) (LV_FDWR OR LV_CONN OR LV_ONESHOT) cb_proxy_connect_writable pair) \<and>
    w_calls w' = w_calls w @ [add_call w fd (LV_FDRD OR LV_CONN) e1, add_call w (nt_socket nt pair) (LV_FDWR OR LV_CONN OR LV_ONESHOT) e2] \<and>
    e1 \<noteq> 0 \<and> e2 \<noteq> 0 \<and> e1 \<noteq> e2 \<and> w_ev w e1 = None \<and> w_ev w e2 = None \<and>
    w_out w' = w_out w \<and> w_in w' = w_in w \<and> w_HostHash w' = w_HostHash w \<and>
    (\<exists>q v q'. http_init_connection nt fd (w\<lparr>w_pending := q\<rparr>) = Some (conn, v) \<and> w' = v\<lparr>w_pending := q'\<rparr>)"
proof -
  let ?w1 = "w\<lparr>w_pending := (w_pending w)(w_listen_fd w := [])\<rparr>"
  have a1: "lt_accept (w_listen_fd w) w = (fd, ?w1)" "fd \<noteq> LAGAIN" "fd \<noteq> LABORT" "fd \<noteq> LERROR"
    using one by (simp_all add: one_client_def lt_accept_def rc_defs)
  obtain e1 e2 w2 where i: "http_init_connection nt fd ?w1 = Some (conn, w2)"
    "served nt w2 conn (client_conn nt (w_http ?w1) fd pair e1) (upstream_conn nt conn (client_conn nt (w_http ?w1) fd pair e1) pair e2)"
    "w_ev w2 = (w_ev ?w1)(e1 \<mapsto> registered (sy_os (nt_sys nt)) ?w1 fd (LV_FDRD OR LV_CONN) cb_http_data_coming conn,
        e2 \<mapsto> registered (sy_os (nt_sys nt)) ?w1 (nt_socket nt pair) (LV_FDWR OR LV_CONN OR LV_ONESHOT) cb_proxy_connect_writable pair)"
    "w_calls w2 = w_calls ?w1 @ [add_call ?w1 fd (LV_FDRD OR LV_CONN) e1, add_call ?w1 (nt_socket nt pair) (LV_FDWR OR LV_CONN OR LV_ONESHOT) e2]"
    "e1 \<noteq> 0" "e2 \<noteq> 0" "e1 \<noteq> e2" "w_ev ?w1 e1 = None" "w_ev ?w1 e2 = None"
    "w_out w2 = w_out ?w1" "w_in w2 = w_in ?w1" "w_pending w2 = w_pending ?w1" "w_listen_fd w2 = w_listen_fd ?w1" "w_HostHash w2 = w_HostHash ?w1"
    using init_served [where w = ?w1 and nt = nt and fd = fd, unfolded accepting_pending pending_frame, OF ready _ _ net] conn pair by auto
  let ?w3 = "w2\<lparr>w_pending := (w_pending w2)(w_listen_fd w2 := [])\<rparr>"
  have a2: "lt_accept (w_listen_fd w2) w2 = (LAGAIN, ?w3)" using i(12,13) by (simp add: lt_accept_def EAGAIN_def)
  obtain k where k: "nt_somaxconn nt = Suc (Suc k)" using one le_Suc_ex [of 2 "nt_somaxconn nt"] by (auto simp: one_client_def)
  have "start_accept nt w = Some (Ret (- 1) ?w3)"
    using a1 a2 i(1) by (simp add: start_accept_def k)
  moreover have "\<exists>q v q'. http_init_connection nt fd (w\<lparr>w_pending := q\<rparr>) = Some (conn, v) \<and> ?w3 = v\<lparr>w_pending := q'\<rparr>"
    using i(1) by blast
  ultimately show ?thesis
    using i(2-11,14)
    by (intro exI [of _ e1] exI [of _ e2] exI [of _ ?w3] exI [of _ "client_conn nt (w_http w) fd pair e1"]
        exI [of _ "upstream_conn nt conn (client_conn nt (w_http w) fd pair e1) pair e2"])
      (simp add: served_pending, simp add: client_conn_def upstream_conn_def registered_def add_call_def)
qed

text \<open>The server is set up: no lagging events, and the listening socket's event is registered for \<open>start_accept\<close>.\<close>

definition listening :: "'a web_scheme \<Rightarrow> bool" where
  "listening w \<longleftrightarrow> quiet w \<and> (\<exists>le. ev_at (w_ev w) (w_listen_ev w) = Some le \<and> ev_callback le = cb_start_accept)"

lemma client_request_ok:
  assumes up: "listening w" "one_client nt fd w" "accepting nt request_blocks w" "serving nt (nt_socket nt pair) w"
    and pair: "pair = word_of_nat (mgr_next w (connection_pool (w_http w)) + 296)" and net: "connects nt pair"
    and ar: "arrives w fd (request_text name t M N fs)" and line: "good_line name t M N" and fs: "good_header w fs"
    and junk: "rq_complex_uri (hr_req (nt_junk_req nt)) = 0" "rq_quoted_uri (hr_req (nt_junk_req nt)) = 0"
  shows "\<exists>e w1 w'. run_calls (dispatch nt) [w_listen_ev w] w = Some w1 \<and> add_call w fd (LV_FDRD OR LV_CONN) e \<in> set (w_calls w1) \<and>
    run_calls (dispatch nt) [w_listen_ev w, e] w = Some w' \<and>
    w_out w' = w_out w @ [(nt_socket nt pair, request_text name t M N (map lower_field fs))]"
proof -
  define conn :: u64 where "conn = word_of_nat (mgr_next w (connection_pool (w_http w)))"
  obtain e1 e2 w1 c p where a: "start_accept nt w = Some (Ret (- 1) w1)" "served nt w1 conn c p" "cn_fd c = fd" "cn_status c = L_CONNECTING_ACCEPTED"
    "cn_fd p = nt_socket nt pair" "cn_ev c = e1" "cn_ev p = e2"
    "w_ev w1 = (w_ev w)(e1 \<mapsto> registered (sy_os (nt_sys nt)) w fd (LV_FDRD OR LV_CONN) cb_http_data_coming conn,
        e2 \<mapsto> registered (sy_os (nt_sys nt)) w (nt_socket nt pair) (LV_FDWR OR LV_CONN OR LV_ONESHOT) cb_proxy_connect_writable pair)"
    "w_calls w1 = w_calls w @ [add_call w fd (LV_FDRD OR LV_CONN) e1, add_call w (nt_socket nt pair) (LV_FDWR OR LV_CONN OR LV_ONESHOT) e2]"
    "e1 \<noteq> 0" "e2 \<noteq> 0" "e1 \<noteq> e2" "w_ev w e1 = None" "w_ev w e2 = None" "w_out w1 = w_out w" "w_in w1 = w_in w" "w_HostHash w1 = w_HostHash w"
    using accept_one [OF up(2-4) conn_def pair net] by (elim exE conjE) (rule that; assumption)
  obtain le where le: "ev_at (w_ev w) (w_listen_ev w) = Some le" "ev_callback le = cb_start_accept" using up(1) by (auto simp: listening_def)
  have first: "run_calls (dispatch nt) [w_listen_ev w] w = Some w1"
    using le a(1) by (simp add: dispatch_def)
  have ev: "ev_at (w_ev w1) e1 = Some (registered (sy_os (nt_sys nt)) w fd (LV_FDRD OR LV_CONN) cb_http_data_coming conn)"
      "ev_at (w_ev w1) (cn_ev p) = Some (registered (sy_os (nt_sys nt)) w (nt_socket nt pair) (LV_FDWR OR LV_CONN OR LV_ONESHOT) cb_proxy_connect_writable pair)"
    using a(7,8,10-12) by simp_all
  have ar1: "arrives w1 (cn_fd c) (request_text name t M N fs)" using ar a(3,16) by (simp add: arrives_def)
  have fs1: "good_header w1 fs" using fs a(17) by (simp add: good_header_def)
  obtain w2 where w2: "http_data_coming nt conn w1 = Some (Some w2)" "w_out w2 = w_out w1 @ [(cn_fd p, request_text name t M N (map lower_field fs))]"
    using client_data_ok [OF a(2,4) ar1 line fs1 junk ev(2)] by blast
  have "dispatch nt cb_http_data_coming e1 conn w1 = Some w2"
    using w2(1) by (simp add: dispatch_def cb_start_accept_def cb_http_data_coming_def)
  then have "run_calls (dispatch nt) [e1] w1 = Some w2" using ev(1) by (simp add: registered_def)
  then have "run_calls (dispatch nt) ([w_listen_ev w] @ [e1]) w = Some w2" unfolding run_calls_append first by simp
  then have "run_calls (dispatch nt) [w_listen_ev w, e1] w = Some w2" by (simp only: append.simps)
  then show ?thesis
    using first w2(2) a(5,9,15) by (intro exI [of _ e1] exI [of _ w1] exI [of _ w2]) simp
qed

text \<open>What epoll has reported ready in the rounds so far, while it failed with nothing but \<open>EINTR\<close>.\<close>

definition reports :: "round list \<Rightarrow> u64 list \<Rightarrow> bool" where
  "reports rounds as \<longleftrightarrow> concat (map round_ptrs rounds) = as \<and> (\<forall>r \<in> set rounds. rd_ready r \<noteq> - 1 \<or> rd_eintr r)"

lemma reported_calls:
  "quiet w \<Longrightarrow> reports rounds as \<Longrightarrow> run_calls (dispatch nt) as w = Some w' \<Longrightarrow> lt_base_loop (dispatch nt) NO_TIMEOUT start rounds w = Some (Waiting w')"
proof -
  assume w: "quiet w" and r: "reports rounds as" and as: "run_calls (dispatch nt) as w = Some w'"
  have "concat (map round_ptrs rounds) = as" "\<forall>r \<in> set rounds. rd_ready r \<noteq> - 1 \<or> rd_eintr r" using r unfolding reports_def by simp_all
  then show "lt_base_loop (dispatch nt) NO_TIMEOUT start rounds w = Some (Waiting w')"
    using loops_in_order [OF dispatch_quiet w, of rounds nt start] as by simp
qed

text \<open>
  A client connects to the listening socket, the connection to the upstream server begins, and the client sends a
  well-formed request without a body, delivered in pieces of any sizes. \<open>start_accept\<close> registers the client's socket with epoll for an event
  \<open>e\<close>, and when the loop of the process has been told of the listening socket and then of \<open>e\<close>, in any rounds of \<open>epoll_wait\<close>,
  exactly the request, its header names in lower case, has been written to the socket of the upstream server, and the loop waits.
\<close>

theorem client_served:
  assumes "listening w" "one_client nt fd w" "accepting nt request_blocks w" "serving nt (nt_socket nt pair) w"
    and "pair = word_of_nat (mgr_next w (connection_pool (w_http w)) + 296)" "connects nt pair"
    and "arrives w fd (request_text name t M N fs)" "good_line name t M N" "good_header w fs"
    and "rq_complex_uri (hr_req (nt_junk_req nt)) = 0" "rq_quoted_uri (hr_req (nt_junk_req nt)) = 0"
  shows "\<exists>e w1 w'. (\<forall>rounds. reports rounds [w_listen_ev w] \<longrightarrow> lt_base_loop (dispatch nt) NO_TIMEOUT start rounds w = Some (Waiting w1)) \<and>
    add_call w fd (LV_FDRD OR LV_CONN) e \<in> set (w_calls w1) \<and>
    (\<forall>rounds. reports rounds [w_listen_ev w, e] \<longrightarrow> lt_base_loop (dispatch nt) NO_TIMEOUT start rounds w = Some (Waiting w')) \<and>
    w_out w' = w_out w @ [(nt_socket nt pair, request_text name t M N (map lower_field fs))]"
proof -
  obtain e w1 w' where r: "run_calls (dispatch nt) [w_listen_ev w] w = Some w1" "add_call w fd (LV_FDRD OR LV_CONN) e \<in> set (w_calls w1)"
    "run_calls (dispatch nt) [w_listen_ev w, e] w = Some w'" "w_out w' = w_out w @ [(nt_socket nt pair, request_text name t M N (map lower_field fs))]"
    using client_request_ok [OF assms] by blast
  have "quiet w" using assms(1) by (simp add: listening_def)
  then show ?thesis
    using r reported_calls by (intro exI [of _ e] exI [of _ w1] exI [of _ w']) blast
qed

text \<open>An allocator that gives the first of the addresses \<open>as\<close> that is not taken.\<close>

fun first_free :: "u64 list \<Rightarrow> aligned_alloc" where
  "first_free [] m sz = 0"
| "first_free (a # as) m sz = (if m a = None then a else first_free as m sz)"

fun spaced :: "nat \<Rightarrow> u64 list \<Rightarrow> u64 list \<Rightarrow> bool" where
  "spaced lo [] szs \<longleftrightarrow> szs = []"
| "spaced lo (a # as) [] \<longleftrightarrow> False"
| "spaced lo (a # as) (sz # szs) \<longleftrightarrow> lo \<le> unat a \<and> 16 dvd unat a \<and> a \<noteq> 0 \<and> 0 < unat sz \<and> unat a + unat sz \<le> 2 ^ 63 \<and>
     spaced (unat a + unat sz) as szs"

lemma spaced_above: "spaced lo as szs \<Longrightarrow> b \<in> set as \<Longrightarrow> lo \<le> unat b"
  by (induction lo as szs rule: spaced.induct) auto

lemma first_free_taken: "\<forall>p \<in> set ps. m p \<noteq> None \<Longrightarrow> first_free (ps @ as) m sz = first_free as m sz"
  by (induction ps) auto

lemma first_free_supplies:
  assumes "spaced lo as szs" "\<forall>p \<in> set ps. m p \<noteq> None" "\<forall>a \<in> set as. m a = None" "\<forall>a h. m a = Some h \<longrightarrow> unat (mp_end h) \<le> lo"
  shows "supplies (first_free (ps @ as)) szs m"
  using assms
proof (induction lo as szs arbitrary: ps m rule: spaced.induct)
  case (3 lo a as sz szs)
  have sp: "lo \<le> unat a" "16 dvd unat a" "a \<noteq> 0" "0 < unat sz" "unat a + unat sz \<le> 2 ^ 63" "spaced (unat a + unat sz) as szs"
    using "3.prems"(1) by simp_all
  have ff: "first_free (ps @ a # as) m1 sz = a" "fresh_block (first_free (ps @ a # as)) m1 sz" if l: "pools_like m m1" for m1
  proof -
    show f: "first_free (ps @ a # as) m1 sz = a"
      using "3.prems"(2,3) pools_like_None [OF l] by (subst first_free_taken) auto
    show "fresh_block (first_free (ps @ a # as)) m1 sz"
      using sp "3.prems"(3,4) pools_like_None [OF l] pools_like_header [OF l] unfolding fresh_block_def f by fastforce
  qed
  have "supplies (first_free ((ps @ [a]) @ as)) szs m2" if l: "pools_like m m1" and b: "block_added a sz m1 m2" for m1 m2
  proof (rule "3.IH")
    show "spaced (unat a + unat sz) as szs" by (rule sp)
    have kept: "m2 b = m1 b" if "b \<noteq> a" for b using b that by (simp add: block_added_def)
    have "m2 p \<noteq> None" if "p \<in> set ps" for p
      using "3.prems"(2,3) pools_like_None [OF l] kept [of p] that by (cases "p = a") auto
    moreover have "m2 a \<noteq> None" using b by (auto simp: block_added_def)
    ultimately show "\<forall>p \<in> set (ps @ [a]). m2 p \<noteq> None" by simp
    have "b \<noteq> a" if "b \<in> set as" for b using spaced_above [OF sp(6) that] sp(4) by auto
    then show "\<forall>b \<in> set as. m2 b = None" using "3.prems"(3) pools_like_None [OF l] kept by auto
    have "unat (a + sz) = unat a + unat sz" using sp(5) by (simp add: unat_word_ariths)
    then have "unat (mp_end h) \<le> unat a + unat sz" if "m2 b = Some h" for b h
      using b "3.prems"(4) pools_like_header [OF l, of b h] sp(1) kept [of b] that by (cases "b = a") (fastforce simp: block_added_def)+
    then show "\<forall>b h. m2 b = Some h \<longrightarrow> unat (mp_end h) \<le> unat a + unat sz" by blast
  qed
  then show ?case using ff sp(3) by simp
qed simp_all

text \<open>A server at 16384 with one client waiting at its socket, and its request in the pieces \<open>ds\<close>.\<close>

definition demo_server :: "string list \<Rightarrow> web" where
  "demo_server ds = bufs.extend (lea.extend (demo_lea\<lparr>w_ev := [512 \<mapsto> demo_event 0 0, 600 \<mapsto> (demo_event 0 0)\<lparr>ev_callback := cb_start_accept\<rparr>],
       w_pool := [4096 \<mapsto> \<lparr>mp_start = 4096, mp_end = 9776, mp_pos = 4136, mp_next = 0, mp_manager = 280\<rparr>,
         1048576 \<mapsto> \<lparr>mp_start = 1048576, mp_end = 2100272, mp_pos = 1048616, mp_next = 0, mp_manager = buf_pool 16384\<rparr>,
         524288 \<mapsto> \<lparr>mp_start = 524288, mp_end = 533808, mp_pos = 524328, mp_next = 0, mp_manager = connection_pool 16384\<rparr>]\<rparr>)
     (bufs.fields [buf_pool 16384 \<mapsto> \<lparr>pm_cur = 1048576, pm_one_element_size = 16432, pm_element_count = 64, pm_head = 1048576,
           pm_tail = 1048576, pm_heterogeneous_next = 0\<rparr>,
         connection_pool 16384 \<mapsto> \<lparr>pm_cur = 524288, pm_one_element_size = 296, pm_element_count = 32, pm_head = 524288,
           pm_tail = 524288, pm_heterogeneous_next = 0\<rparr>]
       (\<lambda>_. NUL) Map.empty Map.empty [] (\<lambda>_. map Data ds) ((\<lambda>_. [])(3 := [(6, 0)]))))
     (web.fields Map.empty Map.empty Map.empty 16384 3 600 (BKDRhash (mem_of 0 ''Host'') 0 5))"

definition demo_server_net :: net where
  "demo_server_net = demo_net\<lparr>nt_connect := \<lambda>_. (- 1, EINPROGRESS),
     nt_sys := (nt_sys demo_net)\<lparr>sy_os := (sy_os (nt_sys demo_net))\<lparr>os_aligned_alloc := first_free [4194304, 8388608, 12582912]\<rparr>\<rparr>\<rparr>"

lemmas demo_server_defs = demo_server_def demo_lea_def lea.defs bufs.defs web.defs

lemma demo_server_pools: "connection_pool 16384 = 16432" "buf_pool 16384 = 16800" "w_http (demo_server ds) = 16384"
  by (simp_all add: connection_pool_def buf_pool_def demo_server_defs)

lemma demo_server_room: "mgr_room (demo_server ds) 16432 296 2" "mgr_room (demo_server ds) 16800 16432 1"
  unfolding mgr_room_def
  by (simp_all add: demo_server_defs demo_server_pools pool_room_def well_sized_def tail_used_def pool_at_def)
    (rule exI [of _ "32::nat"], simp, rule exI [of _ "64::nat"], simp)

lemma demo_server_next: "mgr_next (demo_server ds) 16432 = 524328" "mgr_tail (demo_server ds) 16432 = 524288" "mgr_tail (demo_server ds) 16800 = 1048576"
  by (simp_all add: mgr_next_def mgr_tail_def demo_server_defs demo_server_pools tail_next_def pool_at_def)

lemma demo_server_events: "pm_tail (bs_event_pool_manager (demo_server ds)) = 4096"
  by (simp_all add: demo_server_defs)

lemma demo_server_ev_room: "ev_room (demo_server ds) 64"
proof -
  have "w_ev (demo_server ds) (slot_of (demo_server ds) i) = None" if "i < 64" for i
  proof -
    have s: "slot_of (demo_server ds) i = word_of_nat (4136 + i * 88)"
      by (simp add: slot_of_def tail_next_def pool_at_def demo_server_defs)
    have "unat (slot_of (demo_server ds) i) = 4136 + i * 88" unfolding s using that by (intro unat_of_nat64) simp
    then have "slot_of (demo_server ds) i \<noteq> 512" "slot_of (demo_server ds) i \<noteq> 600" by auto
    then show ?thesis by (simp add: demo_server_defs)
  qed
  then show ?thesis
    unfolding ev_room_def
    by (simp add: demo_server_defs pool_room_def well_sized_def tail_used_def pool_at_def sizeof_event_def ev_at_def demo_event_def)
qed

lemma demo_server_supplies:
  "supplies (first_free [4194304, 8388608, 12582912]) ((sizeof_pool_manager + 4 * sizeof_request) # request_blocks) (w_pool (demo_server ds))"
  by (rule first_free_supplies [where ps = "[]" and lo = 2100272, unfolded append_Nil])
    (auto simp: request_blocks_def sizeof_pool_manager_def sizeof_request_def DEFAULT_HEADER_ELEMENT_COUNT_def sizeof_element_def
      CHAIN_POOL_LENGTH_def sizeof_chain_def demo_server_defs split: if_splits)

lemma demo_server_accepting: "accepting demo_server_net request_blocks (demo_server ds)"
  unfolding accepting_def demo_server_pools demo_server_next demo_server_events
proof (intro conjI)
  have "64 = Suc (Suc 62)" by simp
  then show "\<exists>k. ev_room (demo_server ds) (Suc (Suc k))" using demo_server_ev_room by metis
qed (use demo_server_room(1) demo_server_supplies in \<open>auto simp: demo_server_net_def\<close>)

lemma demo_server_serving: "serving demo_server_net 9 (demo_server ds)"
  unfolding serving_def demo_server_pools demo_server_next demo_server_events
  using demo_server_room(2) by (simp add: demo_server_net_def demo_net_def demo_sys_def demo_req_def blank_request_def)

lemma demo_server_listening: "listening (demo_server ds)" "one_client demo_server_net 6 (demo_server ds)" "w_listen_ev (demo_server ds) = 600"
  by (simp_all add: listening_def one_client_def quiet_lagging lagging_def demo_server_defs ev_at_def demo_event_def demo_server_net_def demo_net_def)

lemma demo_server_net_facts:
  "connects demo_server_net pair" "nt_socket demo_server_net pair = 9"
  "rq_complex_uri (hr_req (nt_junk_req demo_server_net)) = 0" "rq_quoted_uri (hr_req (nt_junk_req demo_server_net)) = 0"
  by (simp_all add: connects_def demo_server_net_def demo_net_def demo_req_def blank_request_def EINPROGRESS_def)

definition demo_round :: "u64 \<Rightarrow> round" where
  "demo_round a = \<lparr>rd_ready = 1, rd_eintr = False, rd_events = [(a, EPOLLIN)], rd_after = \<lparr>tv_sec = 1, tv_nsec = 0\<rparr>\<rparr>"

lemma demo_round_reports: "reports [demo_round a] [a]" "reports [demo_round a, demo_round b] [a, b]"
  by (simp_all add: reports_def demo_round_def round_ptrs_def is_ready_def epoll_defs)

lemma demo_request:
  "request_text ''GET'' ''a'' (CHR ''1'') (CHR ''1'') [(''Host'', ''x'')] = ''GET /a HTTP/1.1'' @ [CR, LF] @ ''Host: x'' @ [CR, LF, CR, LF]"
  "request_text ''GET'' ''a'' (CHR ''1'') (CHR ''1'') (map lower_field [(''Host'', ''x'')]) = ''GET /a HTTP/1.1'' @ [CR, LF] @ ''host: x'' @ [CR, LF, CR, LF]"
  "good_line ''GET'' ''a'' (CHR ''1'') (CHR ''1'')"
  by (simp_all add: request_text_def line_text_def header_text_def field_line_def lower_field_def tolower_def char_of_def
      good_line_def not_method_char_def uri_char_def is_digit_def schar_def crlf_defs)

theorem client_served_witness:
  "\<exists>e w'. lt_base_loop (dispatch demo_server_net) NO_TIMEOUT \<lparr>tv_sec = 0, tv_nsec = 0\<rparr> [demo_round 600, demo_round e]
      (demo_server [''GET /a HT'', ''TP/1.1'' @ [CR, LF] @ ''Ho'', ''st: x'' @ [CR, LF, CR, LF]]) = Some (Waiting w') \<and>
    w_out w' = [(9, ''GET /a HTTP/1.1'' @ [CR, LF] @ ''host: x'' @ [CR, LF, CR, LF])]"
proof -
  let ?ds = "[''GET /a HT'', ''TP/1.1'' @ [CR, LF] @ ''Ho'', ''st: x'' @ [CR, LF, CR, LF]]"
  have ar: "arrives (demo_server ?ds) 6 (request_text ''GET'' ''a'' (CHR ''1'') (CHR ''1'') [(''Host'', ''x'')])"
    unfolding arrives_def demo_request(1) by (intro conjI exI [of _ ?ds] exI [of _ "[]"]) (auto simp: demo_server_defs)
  have fs: "good_header (demo_server ?ds) [(''Host'', ''x'')]"
    using demo_host_hash by (simp add: good_header_def good_field_def demo_host_chars demo_server_defs crlf_defs)
  have out: "w_out (demo_server ?ds) = []" by (simp add: demo_server_defs)
  have pair: "(524624 :: u64) = word_of_nat (mgr_next (demo_server ?ds) (connection_pool (w_http (demo_server ?ds))) + 296)"
    by (simp add: demo_server_pools demo_server_next)
  show ?thesis
    using client_served [OF demo_server_listening(1,2) demo_server_accepting demo_server_serving [folded demo_server_net_facts(2) [of 524624]]
        pair demo_server_net_facts(1) ar demo_request(3) fs demo_server_net_facts(3,4)]
      demo_round_reports(2) unfolding demo_server_listening(3) demo_server_net_facts(2) out demo_request(2) append_Nil by blast
qed

section \<open>What is written can be read\<close>

lemma tolower_other: "tolower c = c" if "c \<notin> set ''ABCDEFGHIJKLMNOPQRSTUVWXYZ''"
proof -
  have l: "map char_of [65..<91 :: nat] = ''ABCDEFGHIJKLMNOPQRSTUVWXYZ''" by (simp add: upt_rec char_of_def bit_Suc_0_iff)
  have "of_char c \<notin> set [65..<91 :: nat]"
  proof
    assume "of_char c \<in> set [65..<91 :: nat]"
    then have "char_of (of_char c :: nat) \<in> set (map char_of [65..<91 :: nat])" unfolding set_map by (rule imageI)
    then show False using that unfolding l by simp
  qed
  then have "\<not> (65 \<le> (of_char c :: nat) \<and> (of_char c :: nat) \<le> 90)"
    unfolding set_upt atLeastLessThan_iff by linarith
  moreover have "int (of_char c) = (of_char c :: int)" by (rule of_nat_of_char)
  ultimately have "\<not> (65 \<le> (of_char c :: int) \<and> (of_char c :: int) \<le> 90)" by linarith
  then show ?thesis unfolding tolower_def by (rule if_not_P)
qed

lemma tolower_letters:
  "list_all (\<lambda>c. lowcase (tolower c) = lowcase c \<and> tolower (tolower c) = tolower c) ''ABCDEFGHIJKLMNOPQRSTUVWXYZ''"
  by (simp add: tolower_def char_of_def lowcase_def lowcase_table_def nth_append)

lemma tolower_lowcase [simp]: "lowcase (tolower c) = lowcase c" "tolower (tolower c) = tolower c"
  using tolower_letters tolower_other [of c] unfolding list_all_iff by metis+

lemma lower_field_again [simp]: "lower_field (lower_field f) = lower_field f" "field_hash (lower_field f) = field_hash f"
  by (simp_all add: lower_field_def field_hash_def comp_def)

lemma good_field_lower: "good_field f \<Longrightarrow> good_field (lower_field f)"
  by (auto simp: good_field_def lower_field_def)

lemma good_header_lower: "good_header w fs \<Longrightarrow> w_HostHash v = w_HostHash w \<Longrightarrow> good_header v (map lower_field fs)"
  by (auto simp: good_header_def good_field_lower)

lemma lower_fields_again: "map lower_field (map lower_field fs) = map lower_field fs"
  by simp

text \<open>
  Claim C6: what the proxy writes upstream for a well-formed request is itself a well-formed request, and a fixed point:
  a second proxy to which it is delivered, in pieces of any sizes, parses it and writes exactly the same bytes again.
\<close>

theorem written_request_roundtrip:
  assumes "served nt w conn c p" "cn_status c = L_CONNECTING_ACCEPTED" "arrives w (cn_fd c) (request_text name t M N fs)"
    and "good_line name t M N" "good_header w fs" "ev_at (w_ev w) (cn_ev p) \<noteq> None"
    and "http_data_coming nt conn w = Some (Some w')" "w_out w' = w_out w @ [(cn_fd p, s)]"
    and "served nt v conn2 c2 p2" "cn_status c2 = L_CONNECTING_ACCEPTED" "arrives v (cn_fd c2) s" "w_HostHash v = w_HostHash w"
    and "ev_at (w_ev v) (cn_ev p2) \<noteq> None"
    and "rq_complex_uri (hr_req (nt_junk_req nt)) = 0" "rq_quoted_uri (hr_req (nt_junk_req nt)) = 0"
  shows "\<exists>v'. http_data_coming nt conn2 v = Some (Some v') \<and> w_out v' = w_out v @ [(cn_fd p2, s)]"
proof -
  obtain e e2 where e: "ev_at (w_ev w) (cn_ev p) = Some e" "ev_at (w_ev v) (cn_ev p2) = Some e2" using assms(6,13) by blast
  have s: "s = request_text name t M N (map lower_field fs)"
    using client_data_ok [OF assms(1-5,14,15) e(1)] assms(7,8) by auto
  show ?thesis
    using client_data_ok [OF assms(9,10) assms(11) [unfolded s] assms(4) good_header_lower [OF assms(5,12)] assms(14,15) e(2)] unfolding s lower_fields_again by blast
qed

lemma demo_pair_junk: "rq_complex_uri (hr_req (nt_junk_req demo_pair_net)) = 0" "rq_quoted_uri (hr_req (nt_junk_req demo_pair_net)) = 0"
  by (simp_all add: demo_pair_net_def demo_net_def demo_req_def blank_request_def)

theorem written_request_roundtrip_witness:
  "\<exists>v'. http_data_coming demo_pair_net 16384 (demo_pair L_CONNECTING_ACCEPTED [''GET /a HTTP/1.1'' @ [CR, LF] @ ''ho'', ''st: x'' @ [CR, LF, CR, LF]]) =
      Some (Some v') \<and> w_out v' = [(7, ''GET /a HTTP/1.1'' @ [CR, LF] @ ''host: x'' @ [CR, LF, CR, LF])]"
proof -
  let ?w = "demo_pair L_CONNECTING_ACCEPTED [''GET /a HTTP/1.1'' @ [CR, LF] @ ''Host: x'' @ [CR, LF, CR, LF]]"
    and ?v = "demo_pair L_CONNECTING_ACCEPTED [''GET /a HTTP/1.1'' @ [CR, LF] @ ''ho'', ''st: x'' @ [CR, LF, CR, LF]]"
  let ?f = "[(''Host'', ''x'')]" and ?c = "(demo_conn 6 600 20480)\<lparr>cn_status := L_CONNECTING_ACCEPTED\<rparr>" and ?p = "demo_conn 7 700 16384"
  have c: "cn_status ?c = L_CONNECTING_ACCEPTED" "cn_fd ?c = 6" "cn_fd ?p = 7" by (simp_all add: demo_conn_def)
  have arw: "arrives ?w (cn_fd ?c) (request_text ''GET'' ''a'' (CHR ''1'') (CHR ''1'') ?f)"
    unfolding demo_request(1) by (rule demo_arrives) simp_all
  have arv: "arrives ?v (cn_fd ?c) (request_text ''GET'' ''a'' (CHR ''1'') (CHR ''1'') (map lower_field ?f))"
    unfolding demo_request(2) by (rule demo_arrives) simp_all
  obtain w' where w: "http_data_coming demo_pair_net 16384 ?w = Some (Some w')"
      "w_out w' = w_out ?w @ [(cn_fd ?p, request_text ''GET'' ''a'' (CHR ''1'') (CHR ''1'') (map lower_field ?f))]"
    using client_data_ok [OF demo_served c(1) arw demo_request(3) demo_pair_header demo_pair_junk demo_pair_event(1)] by blast
  have hh: "w_HostHash ?v = w_HostHash ?w" by (simp add: demo_pair_defs)
  have ev: "ev_at (w_ev (demo_pair k ds)) (cn_ev ?p) \<noteq> None" for k ds using demo_pair_event(1) by simp
  show ?thesis
    using written_request_roundtrip [OF demo_served c(1) arw demo_request(3) demo_pair_header ev w demo_served c(1) arv hh ev demo_pair_junk]
    unfolding demo_pair_event(2) c(3) demo_request(2) append_Nil .
qed

section \<open>What no callback can do\<close>



end
