(* ===== verification/Streaming.thy ===== *)
theory Streaming
  imports Serving
begin

text \<open>
  A response that does not fit one buffer: after its header the upstream connection is reported again and again, and each
  time \<open>proxy_data_coming\<close> (proxy.c) passes on what has come. Each report takes a new buffer, which is never given back.
\<close>

section \<open>One piece after the other\<close>

text \<open>The socket gives the pieces of \<open>ss\<close>, each delivered in parts of any sizes, and after each of them it has no more for now.\<close>

fun feeds :: "rx list \<Rightarrow> string list \<Rightarrow> bool" where
  "feeds q [] \<longleftrightarrow> True"
| "feeds q (s # ss) \<longleftrightarrow> s \<noteq> [] \<and> length s < 16384 \<and>
     (\<exists>dss rest. q = map Data dss @ Err EAGAIN # rest \<and> (\<forall>ds \<in> set dss. ds \<noteq> []) \<and> concat dss = s) \<and> feeds (unread q) ss"

lemma feeds_parts:
  assumes "concat dss = s" "s \<noteq> []" "length s < 16384" "\<forall>ds \<in> set dss. ds \<noteq> []" "feeds rest ss"
  shows "feeds (map Data dss @ Err EAGAIN # rest) (s # ss)"
  using assms unread_data [of "Err EAGAIN # rest" dss] by auto

text \<open>The upstream connection \<open>c\<close> at \<open>conn\<close> has written the header of the response to its client \<open>p\<close>, and \<open>j\<close> more buffers fit in its pool.\<close>

definition streaming :: "net \<Rightarrow> 'a web_scheme \<Rightarrow> u64 \<Rightarrow> connection \<Rightarrow> connection \<Rightarrow> nat \<Rightarrow> bool" where
  "streaming nt w conn c p j \<longleftrightarrow> conn_at w conn = Some c \<and> conn_at w (cn_pair c) = Some p \<and> cn_pair c \<noteq> conn \<and>
     cn_status c = L_HTTP_WROTE_RESPONSE_HEADER \<and> mgr_room w (cn_buf_pool_manager c) 16432 j \<and>
     (\<exists>e. ev_at (w_ev w) (cn_ev c) = Some e \<and> ev_callback e = cb_proxy_data_coming \<and> ev_arg e = conn) \<and>
     (\<forall>out vs. fst (sy_writev (nt_sys nt) out (cn_fd p) vs) = int (length (concat vs)))"

lemma piece_ok:
  assumes st: "streaming nt w conn c p (Suc j)" and q: "feeds (w_in w (cn_fd c)) (s # ss)"
  shows "\<exists>w' a. proxy_data_coming nt conn w = Some (Some w') \<and> w_out w' = w_out w @ [(cn_fd p, s)] \<and>
    streaming nt w' conn (c\<lparr>cn_buf := a\<rparr>) p j \<and> w_in w' = (w_in w)(cn_fd c := unread (w_in w (cn_fd c)))"
proof -
  let ?ma = "cn_buf_pool_manager c"
  have c: "conn_at w conn = Some c" "conn_at w (cn_pair c) = Some p" "cn_pair c \<noteq> conn" "cn_status c = L_HTTP_WROTE_RESPONSE_HEADER"
      "mgr_room w ?ma 16432 (Suc j)" "\<forall>out vs. fst (sy_writev (nt_sys nt) out (cn_fd p) vs) = int (length (concat vs))"
    using st by (simp_all add: streaming_def)
  obtain ec where ec: "ev_at (w_ev w) (cn_ev c) = Some ec" using st by (auto simp: streaming_def)
  obtain dss rest where d: "w_in w (cn_fd c) = map Data dss @ Err EAGAIN # rest" "\<forall>ds \<in> set dss. ds \<noteq> []" "concat dss = s" "s \<noteq> []" "length s < 16384"
    using q by auto
  define a :: u64 where "a = word_of_nat (mgr_next w ?ma)"
  have no: "no_data (Err EAGAIN # rest)" "length (concat dss) < 16384" using d(3,5) by simp_all
  obtain pm w1 w2 where r: "lt_new_buffer_chain (nt_sys nt) ?ma 16384 w = Some (Some (a, w1))" "conn_set conn (cn_buf_update (\<lambda>_. a)) w1 = Some w2"
      "lt_recv (nt_sys nt) (cn_fd c) a w2 = Some (recv_code (int (length s)) (Err EAGAIN # rest), after_recv conn c a s rest pm w)"
      "a \<noteq> 0" "mgr_room (w\<lparr>w_pool := pm\<rparr>) ?ma 16432 j"
    using receive_ok [OF c(1,5) a_def d(1,2) no, of "nt_sys nt"] unfolding d(3) list.sel by blast
  define w3 where "w3 = after_recv conn c a s rest pm w"
  have code: "recv_code (int (length s)) (Err EAGAIN # rest) = int (length s)" using d(4) by simp
  have nz: "conn \<noteq> 0" "cn_pair c \<noteq> 0" using c(1,2) by (auto simp: conn_at_def)
  have c3: "conn_at w3 conn = Some (c\<lparr>cn_buf := a\<rparr>)" "conn_at w3 (cn_pair c) = Some p" "w_ev w3 = w_ev w" "w_out w3 = w_out w"
    using nz c(2,3) by (simp_all add: w3_def after_recv_def conn_at_def)
  have b3: "buf_at w3 a = Some (filled a ?ma s)" using r(4) by (simp add: w3_def after_recv_def buf_at_def)
  have b: "bf_next (filled a ?ma s) = 0" "bf_last (filled a ?ma s) = bf_pos (filled a ?ma s) + int (length s)" "stored (w_mem w3) (bf_pos (filled a ?ma s)) s"
    by (simp_all add: filled_def fresh_buffer_def w3_def after_recv_def poke_stored)
  obtain rc where sb: "send_buffers (nt_sys nt) (cn_fd p) a w3 = Some (Some (rc, w3\<lparr>w_out := w_out w @ [(cn_fd p, s)]\<rparr>))"
    using send_body_ok [OF b3 b(1,2) _ b(3), of "nt_sys nt" "cn_fd p"] c(6) d(4,5) c3(4) by auto
  let ?w' = "w3\<lparr>w_out := w_out w @ [(cn_fd p, s)]\<rparr>"
  have "proxy_data_coming nt conn w = Some (Some ?w')"
    using c(1,4) r(1-3) [folded w3_def] d(4) code c3(1-3) ec sb unfolding proxy_data_coming_def
    by (simp add: DEFAULT_UPSTREAM_BUFFER_SIZE_def rc_defs status_defs)
  moreover have "mgr_room ?w' ?ma 16432 j" using r(5) mgr_room_cong(1) [of ?w' ?ma "w\<lparr>w_pool := pm\<rparr>"] by (simp add: w3_def after_recv_def)
  then have "streaming nt ?w' conn (c\<lparr>cn_buf := a\<rparr>) p j"
    using st c3 nz by (simp add: streaming_def conn_at_def)
  moreover have "w_in ?w' = (w_in w)(cn_fd c := unread (w_in w (cn_fd c)))" by (simp add: w3_def after_recv_def d(1) unread_data)
  ultimately show ?thesis by (intro exI [of _ ?w'] exI [of _ a]) simp
qed

lemma run_calls_one:
  assumes "ev_at (w_ev w) a = Some ev" "dispatch nt (ev_callback ev) a (ev_arg ev) w = Some w'"
  shows "run_calls (dispatch nt) [a] w = Some w'"
  using assms by simp

lemma run_calls_snoc: "run_calls call as w = Some w1 \<Longrightarrow> run_calls call (as @ [a]) w = run_calls call [a] w1"
  by (simp add: run_calls_append)

lemma dispatch_upstream: "dispatch nt cb_proxy_data_coming ev conn w = Option.bind (proxy_data_coming nt conn w) id"
  by (simp add: dispatch_def cb_proxy_data_coming_def cb_proxy_connect_writable_def cb_start_accept_def cb_http_data_coming_def)

lemma pieces_ok:
  assumes "streaming nt w conn c p j" "feeds (w_in w (cn_fd c)) ss" "length ss \<le> j"
  shows "\<exists>w'. run_calls (dispatch nt) (replicate (length ss) (cn_ev c)) w = Some w' \<and> w_out w' = w_out w @ map (Pair (cn_fd p)) ss"
  using assms
proof (induction ss arbitrary: w c j)
  case (Cons s ss)
  obtain k where j: "j = Suc k" "length ss \<le> k" using Cons.prems(3) by (cases j) auto
  obtain w1 a where w1: "proxy_data_coming nt conn w = Some (Some w1)" "w_out w1 = w_out w @ [(cn_fd p, s)]"
      "streaming nt w1 conn (c\<lparr>cn_buf := a\<rparr>) p k" "w_in w1 = (w_in w)(cn_fd c := unread (w_in w (cn_fd c)))"
    using piece_ok [OF Cons.prems(1) [unfolded j(1)] Cons.prems(2)] by blast
  obtain e where e: "ev_at (w_ev w) (cn_ev c) = Some e" "ev_callback e = cb_proxy_data_coming" "ev_arg e = conn"
    using Cons.prems(1) by (auto simp: streaming_def)
  have "feeds (w_in w1 (cn_fd (c\<lparr>cn_buf := a\<rparr>))) ss" using Cons.prems(2) w1(4) by simp
  then obtain w' where "run_calls (dispatch nt) (replicate (length ss) (cn_ev c)) w1 = Some w'" "w_out w' = w_out w1 @ map (Pair (cn_fd p)) ss"
    using Cons.IH [OF w1(3) _ j(2)] by auto
  then show ?case using e w1(1,2) by (simp add: dispatch_upstream)
qed simp

section \<open>A whole response\<close>

lemma response_ok:
  assumes sv: "served nt w conn c p" and st: "cn_status c = L_PROXY_WAITING_RESPONSE"
    and ar: "arrives w (cn_fd c) (response_text (status_text M N x y z txt) fs @ body)" and line: "good_status M N x y z txt"
    and fs: "good_header w fs"
    and junk: "st_code (rq_status (hr_req (nt_junk_req nt))) = 0" "st_count (rq_status (hr_req (nt_junk_req nt))) = 0"
    and room: "mgr_room w (cn_buf_pool_manager c) 16432 (Suc j)"
    and apart: "\<forall>req. req = word_of_nat (mgr_next w (request_pool conn)) \<longrightarrow> cn_buf_pool_manager c \<notin> {header_pool req, chain_pool req}"
    and ev: "ev_at (w_ev w) (cn_ev c) = Some e" "ev_callback e = cb_proxy_data_coming" "ev_arg e = conn"
    and more: "feeds (unread (w_in w (cn_fd c))) ss" "length ss \<le> j"
  shows "\<exists>w'. run_calls (dispatch nt) (replicate (Suc (length ss)) (cn_ev c)) w = Some w' \<and>
    w_out w' = w_out w @ (cn_fd p, response_text (status_text M N x y z txt) (map lower_field fs)) #
      (if body = [] then [] else [(cn_fd p, body)]) @ map (Pair (cn_fd p)) ss"
proof -
  obtain w1 a where w1: "proxy_data_coming nt conn w = Some (Some w1)"
      "w_out w1 = w_out w @ (cn_fd p, response_text (status_text M N x y z txt) (map lower_field fs)) # (if body = [] then [] else [(cn_fd p, body)])"
      "w_conn w1 = (w_conn w)(conn \<mapsto> c\<lparr>cn_buf := a, cn_status := L_HTTP_WROTE_RESPONSE_HEADER\<rparr>)" "w_ev w1 = w_ev w" "response_left conn c j w w1"
    using upstream_data_full [OF sv st ar line fs junk room] by blast
  let ?c = "c\<lparr>cn_buf := a, cn_status := L_HTTP_WROTE_RESPONSE_HEADER\<rparr>"
  have "streaming nt w1 conn ?c p j"
    using sv w1(3,4,5) apart ev by (auto simp: streaming_def served_def conn_at_def response_left_def split: if_splits)
  moreover have "feeds (w_in w1 (cn_fd ?c)) ss" using more(1) w1(5) by (simp add: response_left_def)
  ultimately obtain w' where "run_calls (dispatch nt) (replicate (length ss) (cn_ev c)) w1 = Some w'" "w_out w' = w_out w1 @ map (Pair (cn_fd p)) ss"
    using pieces_ok [of nt w1 conn ?c p j ss] more(2) by auto
  then show ?thesis using ev w1(1,2) by (simp add: dispatch_upstream)
qed

text \<open>
  Claim C5: a response of any length. When epoll reports the upstream connection, waiting for its response, once for the header and once for each
  piece of \<open>ss\<close> that arrives afterwards, each in parts of any sizes, and its pool has a buffer for each report, then every call
  returns and the client is sent the header, its names in lower case, what came with it of the body, and then each piece as it is, in order.
\<close>

theorem response_streamed:
  assumes "served nt w conn c p" "cn_status c = L_PROXY_WAITING_RESPONSE"
    and "arrives w (cn_fd c) (response_text (status_text M N x y z txt) fs @ body)" "good_status M N x y z txt" "good_header w fs"
    and "st_code (rq_status (hr_req (nt_junk_req nt))) = 0" "st_count (rq_status (hr_req (nt_junk_req nt))) = 0"
    and "mgr_room w (cn_buf_pool_manager c) 16432 (Suc j)"
    and "\<forall>req. req = word_of_nat (mgr_next w (request_pool conn)) \<longrightarrow> cn_buf_pool_manager c \<notin> {header_pool req, chain_pool req}"
    and "ev_at (w_ev w) (cn_ev c) = Some e" "ev_callback e = cb_proxy_data_coming" "ev_arg e = conn"
    and "feeds (unread (w_in w (cn_fd c))) ss" "length ss \<le> j"
  shows "\<exists>w'. run_calls (dispatch nt) (replicate (Suc (length ss)) (cn_ev c)) w = Some w' \<and>
    w_out w' = w_out w @ (cn_fd p, response_text (status_text M N x y z txt) (map lower_field fs)) #
      (if body = [] then [] else [(cn_fd p, body)]) @ map (Pair (cn_fd p)) ss"
  using assms by (rule response_ok)

text \<open>The served pair, its connection at 16384 being that to the upstream server: the header and three pieces arrive.\<close>

definition demo_stream :: web where
  "demo_stream = (demo_pair L_PROXY_WAITING_RESPONSE [])\<lparr>
     w_ev := [600 \<mapsto> (demo_event 0 0)\<lparr>ev_callback := cb_proxy_data_coming, ev_arg := 16384\<rparr>],
     w_in := (\<lambda>_. [Data (''HTTP/1.1 200 OK'' @ [CR, LF, CHR ''H'']), Data (''ost: x'' @ [CR, LF, CR, LF] @ ''bo''), Err EAGAIN,
       Data ''dy'', Data '' of'', Err EAGAIN, Data '' the response'', Err EAGAIN])\<rparr>"

lemma demo_stream_served:
  "served demo_pair_net demo_stream 16384 ((demo_conn 6 600 20480)\<lparr>cn_status := L_PROXY_WAITING_RESPONSE\<rparr>) (demo_conn 7 700 16384)"
proof -
  let ?w = "demo_pair L_PROXY_WAITING_RESPONSE []"
  have "mgr_room demo_stream ma = mgr_room ?w ma" for ma
    by (rule mgr_room_cong(1)) (simp_all add: demo_stream_def)
  moreover have "mgr_tail demo_stream = mgr_tail ?w" "conn_at demo_stream = conn_at ?w" "w_pool demo_stream = w_pool ?w"
      "ev_at (w_ev demo_stream) 600 \<noteq> None"
    by (simp_all add: demo_stream_def fun_eq_iff mgr_tail_def conn_at_def ev_at_def)
  moreover have "cn_ev ((demo_conn 6 600 20480)\<lparr>cn_status := L_PROXY_WAITING_RESPONSE\<rparr>) = 600" by (simp add: demo_conn_def)
  ultimately show ?thesis using demo_served [of L_PROXY_WAITING_RESPONSE "[]"] by (simp add: served_def)
qed

lemma demo_stream_room: "mgr_room demo_stream 304 16432 (Suc 2)"
  unfolding mgr_room_def
  by (simp add: demo_stream_def demo_pair_defs pool_room_def well_sized_def tail_used_def pool_at_def) (rule exI [of _ "64::nat"], simp)

theorem response_streamed_witness:
  "\<exists>w'. run_calls (dispatch demo_pair_net) [600, 600, 600] demo_stream = Some w' \<and>
    w_out w' = [(7, ''HTTP/1.1 200 OK'' @ [CR, LF] @ ''host: x'' @ [CR, LF, CR, LF]), (7, ''bo''), (7, ''dy of''), (7, '' the response'')]"
proof -
  let ?c = "(demo_conn 6 600 20480)\<lparr>cn_status := L_PROXY_WAITING_RESPONSE\<rparr>" and ?f = "(''Host'', ''x'')"
    and ?sl = "status_text (CHR ''1'') (CHR ''1'') (CHR ''2'') (CHR ''0'') (CHR ''0'') ''OK''"
  have c: "cn_status ?c = L_PROXY_WAITING_RESPONSE" "cn_fd (demo_conn 7 700 16384) = 7" "cn_ev ?c = 600" "cn_buf_pool_manager ?c = 304"
    by (simp_all add: demo_conn_def)
  have out: "w_out demo_stream = []" by (simp add: demo_stream_def demo_pair_event(2))
  have ar: "arrives demo_stream (cn_fd ?c) (response_text ?sl [?f] @ ''bo'')"
    unfolding arrives_def demo_response(1)
    by (intro conjI exI [of _ "[''HTTP/1.1 200 OK'' @ [CR, LF, CHR ''H''], ''ost: x'' @ [CR, LF, CR, LF] @ ''bo'']"]
        exI [of _ "[Err EAGAIN, Data ''dy'', Data '' of'', Err EAGAIN, Data '' the response'', Err EAGAIN]"])
      (simp_all add: demo_stream_def)
  have fs: "good_header demo_stream [?f]" using demo_pair_header [of L_PROXY_WAITING_RESPONSE "[]"] by (simp add: good_header_def demo_stream_def)
  have junk: "st_code (rq_status (hr_req (nt_junk_req demo_pair_net))) = 0" "st_count (rq_status (hr_req (nt_junk_req demo_pair_net))) = 0"
    by (simp_all add: demo_pair_net_def demo_net_def demo_req_def blank_request_def)
  have "mgr_next demo_stream (request_pool 16384) = 524328"
    by (simp add: mgr_next_def demo_stream_def demo_pair_defs request_pool_def tail_next_def pool_at_def)
  then have apart: "\<forall>req. req = word_of_nat (mgr_next demo_stream (request_pool 16384)) \<longrightarrow> cn_buf_pool_manager ?c \<notin> {header_pool req, chain_pool req}"
    by (simp add: c(4) header_pool_def chain_pool_def)
  define e where "e = (demo_event 0 0)\<lparr>ev_callback := cb_proxy_data_coming, ev_arg := 16384\<rparr>"
  have ev: "ev_at (w_ev demo_stream) (cn_ev ?c) = Some e" "ev_callback e = cb_proxy_data_coming" "ev_arg e = 16384"
    by (simp_all add: c(3) e_def demo_stream_def ev_at_def)
  have more: "feeds (unread (w_in demo_stream (cn_fd ?c))) [''dy of'', '' the response'']"
    using feeds_parts [of "[''dy'', '' of'']" "''dy of''" "[Data '' the response'', Err EAGAIN]" "['' the response'']"]
      feeds_parts [of "['' the response'']" "'' the response''" "[]" "[]"] by (simp add: demo_stream_def)
  show ?thesis
    using response_streamed [OF demo_stream_served c(1) ar demo_response(3) fs junk demo_stream_room [folded c(4)] apart ev more]
    unfolding c(2,3) out demo_response(2) by simp
qed

end
