(* ===== verification/Exchange.thy ===== *)
theory Exchange
  imports Streaming
begin

text \<open>
  A whole exchange: the client is taken, the upstream connection is ready to be written to (\<open>proxy_connect_writable\<close>, proxy.c), the request
  of the client is sent on, and the response of the upstream server is sent back. The two connections of a pair share the pools,
  so the theory follows what each step leaves in them (\<open>paired\<close>).
\<close>

section \<open>A pair of connections\<close>

text \<open>
  The connection \<open>c\<close> of a client at \<open>conn\<close> and its upstream connection \<open>p\<close>, ready to be served in both directions: room for \<open>j\<close> buffers and \<open>k\<close>
  requests in pools that both use, and the managers that lie in the next two requests are not those pools.
\<close>

definition paired :: "net \<Rightarrow> 'a web_scheme \<Rightarrow> u64 \<Rightarrow> connection \<Rightarrow> connection \<Rightarrow> nat \<Rightarrow> nat \<Rightarrow> bool" where
  "paired nt w conn c p j k \<longleftrightarrow> served nt w conn c p \<and> cn_pair p = conn \<and> cn_buf_pool_manager p = cn_buf_pool_manager c \<and>
     cn_request_free_head p = 0 \<and> ev_at (w_ev w) (cn_ev p) \<noteq> None \<and> cn_fd p \<noteq> cn_fd c \<and>
     request_pool (cn_pair c) \<noteq> 0 \<and> w_mgr w (request_pool (cn_pair c)) = w_mgr w (request_pool conn) \<and>
     mgr_room w (cn_buf_pool_manager c) 16432 j \<and> mgr_room w (request_pool conn) 552 k \<and>
     supplies (os_aligned_alloc (sy_os (nt_sys nt))) (header_block # request_blocks) (w_pool w) \<and>
     (\<forall>out vs. fst (sy_writev (nt_sys nt) out (cn_fd c) vs) = int (length (concat vs))) \<and>
     (\<forall>req \<in> {word_of_nat (mgr_next w (request_pool conn)), word_of_nat (mgr_next w (request_pool conn) + 552)}.
        {header_pool req, chain_pool req} \<inter> {cn_buf_pool_manager c, request_pool conn, request_pool (cn_pair c)} = {})"

section \<open>The upstream connection is ready\<close>

lemma connect_writable_paired:
  assumes pr: "paired nt w conn c p (Suc (Suc j)) k" and so: "nt_getsockopt nt (cn_fd p) = (0, 0)"
  shows "\<exists>a w'. proxy_connect_writable nt (cn_pair c) w = Some (Some (0, w')) \<and>
    paired nt w' conn c (p\<lparr>cn_status := L_PROXY_CONNECTED, cn_buf := a\<rparr>) (Suc j) k \<and>
    w_ev w' = w_ev w \<and> w_in w' = w_in w \<and> w_out w' = w_out w \<and> w_HostHash w' = w_HostHash w"
proof -
  let ?pair = "cn_pair c" and ?ma = "cn_buf_pool_manager c" and ?rp = "request_pool conn"
  have sv: "conn_at w conn = Some c" "conn_at w ?pair = Some p" "?pair \<noteq> conn" "mgr_room w ?rp 552 1" "mgr_tail w ?ma \<noteq> mgr_tail w ?rp"
    using pr by (simp_all add: paired_def served_def)
  have ma: "cn_buf_pool_manager p = ?ma" "mgr_room w ?ma 16432 (Suc (Suc j))" using pr by (simp_all add: paired_def)
  have nz: "conn \<noteq> 0" "?pair \<noteq> 0" using sv(1,2) by (auto simp: conn_at_def)
  define w1 where "w1 = w\<lparr>w_conn := (w_conn w)(?pair \<mapsto> p\<lparr>cn_status := L_PROXY_CONNECTED\<rparr>)\<rparr>"
  have s1: "conn_set ?pair (cn_status_update (\<lambda>_. L_PROXY_CONNECTED)) w = Some w1" using sv(2) by (simp add: conn_set_def w1_def)
  have room1: "mgr_room w1 ?ma 16432 (Suc (Suc j))" using ma(2) mgr_room_cong(1) [of w1 ?ma w] by (simp add: w1_def)
  define a :: u64 where "a = word_of_nat (mgr_next w1 ?ma)"
  obtain pm where n: "lt_new_buffer_chain (nt_sys nt) ?ma DEFAULT_UPSTREAM_BUFFER_SIZE w1 =
        Some (Some (a, w1\<lparr>w_pool := pm, w_buf := (w_buf w1)(a \<mapsto> fresh_buffer a ?ma\<lparr>bf_head := 1\<rparr>)\<rparr>))"
      "mgr_room (w1\<lparr>w_pool := pm\<rparr>) ?ma 16432 (Suc j)" "pool_kept (mgr_tail w1 ?ma) (w_pool w1) pm"
    using new_chain_one [OF room1 a_def, of DEFAULT_UPSTREAM_BUFFER_SIZE "nt_sys nt"] by (auto simp: DEFAULT_UPSTREAM_BUFFER_SIZE_def)
  let ?p = "p\<lparr>cn_status := L_PROXY_CONNECTED, cn_buf := a\<rparr>"
  define w' where "w' = w1\<lparr>w_pool := pm, w_buf := (w_buf w1)(a \<mapsto> fresh_buffer a ?ma\<lparr>bf_head := 1\<rparr>), w_conn := (w_conn w)(?pair \<mapsto> ?p)\<rparr>"
  have s2: "conn_set ?pair (cn_buf_update (\<lambda>_. a)) (w1\<lparr>w_pool := pm, w_buf := (w_buf w1)(a \<mapsto> fresh_buffer a ?ma\<lparr>bf_head := 1\<rparr>)\<rparr>) = Some w'"
    using nz(2) by (simp add: conn_set_def conn_at_def w'_def w1_def)
  have pc: "proxy_connect_writable nt ?pair w = Some (Some (0, w'))"
    unfolding proxy_connect_writable_def using sv(2) so s1 ma(1) n(1) s2 by simp
  have kept: "pool_kept (mgr_tail w ?ma) (w_pool w) pm" "pools_like (w_pool w) pm"
    using n(3) pool_kept_like [OF n(3)] by (simp_all add: w1_def mgr_tail_def)
  have rp: "mgr_room w' ?rp = mgr_room w ?rp" "mgr_next w' ?rp = mgr_next w ?rp" "mgr_tail w' = mgr_tail w"
    using mgr_room_cong [of w' ?rp w] kept(1) sv(5) by (simp_all add: w'_def w1_def pool_kept_def fun_eq_iff mgr_tail_def)
  have room': "mgr_room w' ?ma 16432 (Suc j)"
    using n(2) mgr_room_cong(1) [of w' ?ma "w1\<lparr>w_pool := pm\<rparr>"] by (simp add: w'_def)
  have "mgr_room w' ?ma 16432 1" using mgr_room_le [OF room', of 1] by simp
  moreover have sup: "supplies (os_aligned_alloc (sy_os (nt_sys nt))) szs (w_pool w')"
    if "supplies (os_aligned_alloc (sy_os (nt_sys nt))) szs (w_pool w)" for szs
    using supplies_like [OF that kept(2)] by (simp add: w'_def w1_def)
  moreover have fr: "conn_at w' conn = Some c" "conn_at w' ?pair = Some ?p" "w_mgr w' = w_mgr w" "w_ev w' = w_ev w"
    using sv(1,3) nz by (simp_all add: w'_def w1_def conn_at_def)
  ultimately have "served nt w' conn c ?p"
    using pr unfolding paired_def served_def by (simp add: rp del: supplies.simps)
  then have "paired nt w' conn c ?p (Suc j) k"
    using pr room' sup unfolding paired_def by (simp add: rp(1,2) fr(3,4) del: supplies.simps)
  then show ?thesis using pc by (intro exI [of _ a] exI [of _ w']) (simp add: w'_def w1_def)
qed

section \<open>A request and its response\<close>

lemma after_request_served:
  assumes pr: "paired nt w conn c p (Suc (Suc j)) (Suc (Suc k))" and used: "message_used nt conn c (Suc j) (Suc k) w w'"
    and conns: "w_conn w' = (w_conn w)(conn \<mapsto> c\<lparr>cn_buf := a\<rparr>, cn_pair c \<mapsto> p\<lparr>cn_status := s0\<rparr>)"
    and ev: "ev_at (w_ev w') (cn_ev p) \<noteq> None"
  shows "served nt w' (cn_pair c) (p\<lparr>cn_status := s0\<rparr>) (c\<lparr>cn_buf := a\<rparr>)" "mgr_room w' (cn_buf_pool_manager c) 16432 (Suc j)"
    "mgr_next w' (request_pool (cn_pair c)) = mgr_next w (request_pool conn) + 552"
proof -
  let ?pair = "cn_pair c" and ?ma = "cn_buf_pool_manager c" and ?rp = "request_pool conn"
  have sv: "conn_at w conn = Some c" "conn_at w ?pair = Some p" "?pair \<noteq> conn" "mgr_tail w ?ma \<noteq> mgr_tail w ?rp"
      "ch_next (sy_junk_chain (nt_sys nt)) = 0" "length (rq_lowcase_header (hr_req (nt_junk_req nt))) = 32"
    using pr by (simp_all add: paired_def served_def)
  have pd: "cn_pair p = conn" "cn_buf_pool_manager p = ?ma" "cn_request_free_head p = 0" "request_pool ?pair \<noteq> 0"
      "w_mgr w (request_pool ?pair) = w_mgr w ?rp" "supplies (os_aligned_alloc (sy_os (nt_sys nt))) (header_block # request_blocks) (w_pool w)"
      "\<forall>out vs. fst (sy_writev (nt_sys nt) out (cn_fd c) vs) = int (length (concat vs))"
    using pr unfolding paired_def by blast+
  have nz: "conn \<noteq> 0" "?pair \<noteq> 0" using sv(1,2) by (auto simp: conn_at_def)
  define req :: u64 where "req = word_of_nat (mgr_next w ?rp)"
  have ne: "{header_pool req, chain_pool req} \<inter> {?ma, ?rp, request_pool ?pair} = {}" using pr req_def by (simp add: paired_def)
  have mg: "w_mgr w' ?ma = w_mgr w ?ma" "w_mgr w' ?rp = w_mgr w ?rp" "w_mgr w' (request_pool ?pair) = w_mgr w ?rp"
    using used ne pd(5) unfolding message_used_def req_def [symmetric] by auto
  have room: "mgr_room (w\<lparr>w_pool := w_pool w'\<rparr>) ?ma 16432 (Suc j)" "mgr_room (w\<lparr>w_pool := w_pool w'\<rparr>) ?rp 552 (Suc k)"
      "supplies (os_aligned_alloc (sy_os (nt_sys nt))) request_blocks (w_pool w')"
      "mgr_next (w\<lparr>w_pool := w_pool w'\<rparr>) ?rp = mgr_next w ?rp + 552"
    using used pd(6) by (simp_all add: message_used_def pools_used_def del: supplies.simps)
  show rooms: "mgr_room w' ?ma 16432 (Suc j)"
    using room(1) mgr_room_cong(1) [of w' ?ma "w\<lparr>w_pool := w_pool w'\<rparr>"] mg(1) by simp
  have "mgr_next w' (request_pool ?pair) = mgr_next (w\<lparr>w_pool := w_pool w'\<rparr>) ?rp"
    using mg(3) by (simp add: mgr_next_def split: option.split)
  then show "mgr_next w' (request_pool ?pair) = mgr_next w ?rp + 552" using room(4) by simp
  have "mgr_room w' ?ma 16432 1" using mgr_room_le [OF rooms, of 1] by simp
  moreover have "mgr_room w' (request_pool ?pair) 552 1"
    using mgr_room_le [OF room(2), of 1] mg(3) pd(4) by (auto simp: mgr_room_def split: option.splits)
  moreover have "mgr_tail w' ?ma = mgr_tail w ?ma" "mgr_tail w' (request_pool ?pair) = mgr_tail w ?rp"
    using mg by (simp_all add: mgr_tail_def)
  moreover have "conn_at w' ?pair = Some (p\<lparr>cn_status := s0\<rparr>)" "conn_at w' conn = Some (c\<lparr>cn_buf := a\<rparr>)"
    using sv(3) nz by (simp_all add: conn_at_def conns)
  ultimately show "served nt w' ?pair (p\<lparr>cn_status := s0\<rparr>) (c\<lparr>cn_buf := a\<rparr>)"
    using sv(3-6) pd(1-3,7) room(3) ev unfolding served_def by (simp del: supplies.simps)
qed

lemma exchange_ok:
  assumes pr: "paired nt w conn c p (Suc (Suc j)) (Suc (Suc k))" and st: "cn_status c = L_CONNECTING_ACCEPTED"
    and request: "arrives w (cn_fd c) (request_text name t M N fs)" "good_line name t M N" "good_header w fs"
    and response: "arrives w (cn_fd p) (response_text (status_text M' N' x y z txt) gs @ body)" "good_status M' N' x y z txt" "good_header w gs"
    and junk: "rq_complex_uri (hr_req (nt_junk_req nt)) = 0" "rq_quoted_uri (hr_req (nt_junk_req nt)) = 0"
      "st_code (rq_status (hr_req (nt_junk_req nt))) = 0" "st_count (rq_status (hr_req (nt_junk_req nt))) = 0"
    and ev: "ev_at (w_ev w) (cn_ev p) = Some e" and more: "feeds (unread (w_in w (cn_fd p))) ss" "length ss \<le> j"
  shows "\<exists>w2 w3. http_data_coming nt conn w = Some (Some w2) \<and>
    run_calls (dispatch nt) (replicate (Suc (length ss)) (cn_ev p)) w2 = Some w3 \<and>
    w_out w2 = w_out w @ [(cn_fd p, request_text name t M N (map lower_field fs))] \<and>
    w_out w3 = w_out w2 @ (cn_fd c, response_text (status_text M' N' x y z txt) (map lower_field gs)) #
      (if body = [] then [] else [(cn_fd c, body)]) @ map (Pair (cn_fd c)) ss"
proof -
  have sv: "served nt w conn c p" "cn_fd p \<noteq> cn_fd c" "cn_ev p \<noteq> 0" using pr ev by (auto simp: paired_def ev_at_def)
  have room: "mgr_room w (cn_buf_pool_manager c) 16432 (Suc (Suc j))" "mgr_room w (request_pool conn) 552 (Suc (Suc k))"
    using pr by (simp_all add: paired_def)
  obtain w2 a where r: "http_data_coming nt conn w = Some (Some w2)" "w_out w2 = w_out w @ [(cn_fd p, request_text name t M N (map lower_field fs))]"
      "w_conn w2 = (w_conn w)(conn \<mapsto> c\<lparr>cn_buf := a\<rparr>, cn_pair c \<mapsto> p\<lparr>cn_status := L_PROXY_WAITING_RESPONSE\<rparr>)"
      "w_ev w2 = (w_ev w)(cn_ev p \<mapsto> mod_event (LV_FDRD OR LV_CONN) cb_proxy_data_coming (cn_pair c) e)"
      "message_used nt conn c (Suc j) (Suc k) w w2"
    using client_data_full [OF sv(1) st request junk(1,2) ev room] by blast
  let ?p = "p\<lparr>cn_status := L_PROXY_WAITING_RESPONSE\<rparr>"
  have ev2: "ev_at (w_ev w2) (cn_ev p) \<noteq> None" using r(4) sv(3) by (simp add: ev_at_def)
  note after = after_request_served [OF pr r(5,3) ev2]
  have apart: "\<forall>req. req = word_of_nat (mgr_next w2 (request_pool (cn_pair c))) \<longrightarrow> cn_buf_pool_manager ?p \<notin> {header_pool req, chain_pool req}"
    using pr unfolding after(3) paired_def by auto
  have same: "cn_pair p = conn" "cn_buf_pool_manager p = cn_buf_pool_manager c" using pr by (simp_all add: paired_def)
  have hh: "w_HostHash w2 = w_HostHash w"
    using resD [OF http_data_steps [OF advances_refl] r(1)] by (simp add: advances_but_def fixed_part_def)
  have ar2: "arrives w2 (cn_fd ?p) (response_text (status_text M' N' x y z txt) gs @ body)" "good_header w2 gs"
    using response(1,3) r(5) sv(2) hh by (simp_all add: arrives_def good_header_def message_used_def)
  have "cn_status ?p = L_PROXY_WAITING_RESPONSE" by simp
  moreover have "mgr_room w2 (cn_buf_pool_manager ?p) 16432 (Suc j)" using after(2) same(2) by simp
  moreover have "ev_at (w_ev w2) (cn_ev ?p) = Some (mod_event (LV_FDRD OR LV_CONN) cb_proxy_data_coming (cn_pair c) e)"
    using r(4) sv(3) by simp
  moreover have "feeds (unread (w_in w2 (cn_fd ?p))) ss" using more(1) r(5) sv(2) by (simp add: message_used_def)
  ultimately show ?thesis
    using response_ok [OF after(1) _ ar2(1) response(2) ar2(2) junk(3,4) _ apart _ _ _ _ more(2)] r(1,2) by (auto simp: mod_event_def)
qed

section \<open>From the accepted client on\<close>

text \<open>What an exchange needs beyond taking the client: room for two more buffers and blocks, for \<open>n\<close> further pieces of the
  response, and a client socket that takes what is written.\<close>

definition exchanging :: "net \<Rightarrow> int \<Rightarrow> int \<Rightarrow> nat \<Rightarrow> 'a web_scheme \<Rightarrow> bool" where
  "exchanging nt fd up n w \<longleftrightarrow> accepting nt (header_block # request_blocks) w \<and> mgr_room w (buf_pool (w_http w)) 16432 (Suc (Suc (Suc n))) \<and> fd \<noteq> up \<and>
     cn_request_free_head (nt_junk_conn nt) = 0 \<and> nt_getsockopt nt up = (0, 0) \<and>
     (\<forall>out vs. fst (sy_writev (nt_sys nt) out fd vs) = int (length (concat vs))) \<and>
     (\<forall>m blk. blk = os_aligned_alloc (sy_os (nt_sys nt)) m (sizeof_pool_manager + 4 * sizeof_request) \<longrightarrow> blk \<noteq> 0 \<longrightarrow>
        unat (buf_pool (w_http w)) < unat blk \<or> unat blk + 2256 \<le> unat (buf_pool (w_http w)))"

lemma members_in_block:
  assumes "unat blk + 40 + 2208 < 2 ^ 64" "req \<in> {word_of_nat (unat blk + 40), word_of_nat (unat blk + 40 + 552)}" "a \<in> {header_pool req, chain_pool req}"
  shows "unat blk < unat a \<and> unat a < unat blk + 2256"
proof -
  have "unat (word_of_nat (unat blk + 40) :: u64) = unat blk + 40" "unat (word_of_nat (unat blk + 40 + 552) :: u64) = unat blk + 40 + 552"
    by (rule unat_of_nat64; use assms(1) in simp)+
  then have req: "unat req = unat blk + 40 \<or> unat req = unat blk + 40 + 552" using assms(2) by blast
  have "unat (req + 432) = unat req + 432" "unat (req + 480) = unat req + 480" using req assms(1) by (auto simp: unat_word_ariths)
  then show ?thesis using req assms(3) by (auto simp: header_pool_def chain_pool_def)
qed

lemma accept_paired:
  assumes one: "one_client nt fd w" and ready: "accepting nt request_blocks w" "serving nt (nt_socket nt pair) w" "exchanging nt fd (nt_socket nt pair) n w"
    and conn: "conn = word_of_nat (mgr_next w (connection_pool (w_http w)))"
    and pair: "pair = word_of_nat (mgr_next w (connection_pool (w_http w)) + 296)" and net: "connects nt pair"
    and sv: "served nt w' conn c p"
    and fds: "cn_fd c = fd" "cn_fd p = nt_socket nt pair"
    and init: "http_init_connection nt fd (w\<lparr>w_pending := q\<rparr>) = Some (conn, v)" "w' = v\<lparr>w_pending := q'\<rparr>"
    and ev: "ev_at (w_ev w') (cn_ev p) \<noteq> None"
  shows "paired nt w' conn c p (Suc (Suc (Suc n))) 4 \<and> cn_pair c = pair"
proof -
  let ?cp = "connection_pool (w_http w)" and ?bp = "buf_pool (w_http w)" and ?aa = "os_aligned_alloc (sy_os (nt_sys nt))"
  have ex: "accepting nt (header_block # request_blocks) (w\<lparr>w_pending := q\<rparr>)" "mgr_room w ?bp 16432 (Suc (Suc (Suc n)))" "fd \<noteq> nt_socket nt pair"
      "cn_request_free_head (nt_junk_conn nt) = 0" "\<forall>out vs. fst (sy_writev (nt_sys nt) out fd vs) = int (length (concat vs))"
      "\<And>m blk. blk = ?aa m (sizeof_pool_manager + 4 * sizeof_request) \<Longrightarrow> blk \<noteq> 0 \<Longrightarrow> unat ?bp < unat blk \<or> unat blk + 2256 \<le> unat ?bp"
    using ready(3) by (simp_all add: exchanging_def accepting_pending)
  define w0 where "w0 = w\<lparr>w_pending := q\<rparr>"
  have fr: "w_http w0 = w_http w" "mgr_room w0 = mgr_room w" "mgr_next w0 = mgr_next w" "mgr_tail w0 = mgr_tail w" "w_mgr w0 = w_mgr w" "w_pool w0 = w_pool w"
      "bs_event_pool_manager w0 = bs_event_pool_manager w"
    by (simp_all add: w0_def pending_frame)
  have addr: "conn = word_of_nat (mgr_next w0 (connection_pool (w_http w0)))" "pair = word_of_nat (mgr_next w0 (connection_pool (w_http w0)) + 296)"
    using conn pair by (simp_all add: fr)
  note made = init_connection_ok [OF ex(1) [folded w0_def] addr net, of fd, unfolded fr(1,4,6,7)]
  obtain mg pm e1 e2 blk v0 where i: "http_init_connection nt fd w0 = Some (conn, v0)"
    "v0 = w0\<lparr>w_conn := (w_conn w0)(conn \<mapsto> client_conn nt (w_http w) fd pair e1,
        pair \<mapsto> upstream_conn nt conn (client_conn nt (w_http w) fd pair e1) pair e2), w_pool := pm,
      w_mgr := (w_mgr w0)(request_pool conn \<mapsto> mg, request_pool pair \<mapsto> mg),
      w_ev := (w_ev w0)(e1 \<mapsto> registered (sy_os (nt_sys nt)) w0 fd (LV_FDRD OR LV_CONN) cb_http_data_coming conn,
        e2 \<mapsto> registered (sy_os (nt_sys nt)) w0 (nt_socket nt pair) (LV_FDWR OR LV_CONN OR LV_ONESHOT) cb_proxy_connect_writable pair),
      w_calls := w_calls w0 @ [add_call w0 fd (LV_FDRD OR LV_CONN) e1, add_call w0 (nt_socket nt pair) (LV_FDWR OR LV_CONN OR LV_ONESHOT) e2]\<rparr>"
    "conn \<noteq> 0" "pair \<noteq> 0" "pair \<noteq> conn" "mgr_room v0 (request_pool conn) 552 4" "mgr_next v0 (request_pool conn) = unat blk + 40"
    "w_pool w blk = None" "unat blk + 2256 \<le> unat conn \<or> unat conn + 592 \<le> unat blk" "blk \<noteq> 0"
    "\<exists>m. blk = ?aa m (sizeof_pool_manager + 4 * sizeof_request)"
    "\<forall>t. t \<notin> {blk, mgr_tail w ?cp, pm_tail (bs_event_pool_manager w)} \<longrightarrow> pm t = w_pool w t" "supplies ?aa (header_block # request_blocks) pm"
    using made by blast
  have v0: "w_mgr v0 = (w_mgr w0)(request_pool conn \<mapsto> mg, request_pool pair \<mapsto> mg)" "w_pool v0 = pm"
      "w_conn v0 = (w_conn w0)(conn \<mapsto> client_conn nt (w_http w) fd pair e1, pair \<mapsto> upstream_conn nt conn (client_conn nt (w_http w) fd pair e1) pair e2)"
    by (simp_all add: i(2))
  have "v0 = v" using i(1) init(1) by (simp add: w0_def)
  note i = i(3-) [unfolded this] and v = v0 [unfolded this]
  let ?c = "client_conn nt (w_http w) fd pair e1" let ?p = "upstream_conn nt conn ?c pair e2"
  have at: "conn_at w' conn = Some ?c" "conn_at w' pair = Some ?p" using i(1-3) by (simp_all add: conn_at_def init(2) v)
  then have c: "c = ?c" using sv by (simp add: served_def)
  then have p: "p = ?p" using sv at(2) by (simp add: served_def client_conn_def)
  have cp: "cn_pair c = pair" "cn_buf_pool_manager c = ?bp" "cn_request_free_head p = 0" "cn_pair p = conn" "cn_buf_pool_manager p = ?bp"
    using ex(4) by (simp_all add: c p client_conn_def upstream_conn_def)
  have fr': "mgr_room w' = mgr_room v" "mgr_next w' = mgr_next v" "w_mgr w' = w_mgr v" "w_pool w' = w_pool v" by (simp_all add: init(2) pending_frame)
  have ua: "unat conn = mgr_next w ?cp" "mgr_next w ?cp + 592 < 2 ^ 64" 
    using conn_alloc_ok [of w ?cp 1 conn nt] conn ready(1) by (auto simp: accepting_def numeral_2_eq_2)
  have up: "unat pair = mgr_next w ?cp + 296" using ua(2) unfolding pair by (intro unat_of_nat64) simp
  have rps: "unat (request_pool conn) = unat conn + 152" "unat (request_pool pair) = unat conn + 448"
    using ua up by (simp_all add: request_pool_def unat_word_ariths)
  have acc: "a \<noteq> ?bp" if "mgr_next w ?cp \<le> unat a" "unat a < mgr_next w ?cp + 592" for a using ready(1) that by (simp add: accepting_def)
  have ne: "request_pool conn \<noteq> ?bp" "request_pool pair \<noteq> ?bp" "request_pool conn \<noteq> request_pool pair"
    using acc [of "request_pool conn"] acc [of "request_pool pair"] rps ua(1) by auto
  have "mgr_tail w ?bp \<notin> {blk, mgr_tail w ?cp, pm_tail (bs_event_pool_manager w)}"
    using ready(2) room_tail_live [OF ex(2)] i(6) by (auto simp: serving_def)
  then have room: "mgr_room w' ?bp 16432 (Suc (Suc (Suc n)))"
    using ex(2) mgr_room_cong(1) [of v ?bp w] ne i(10) unfolding fr' by (simp add: v fr(5))
  have lim: "unat blk + 40 + 2208 < 2 ^ 64" using mgr_room_limit [OF i(4)] i(5) by simp
  have "a \<notin> {?bp, request_pool conn, request_pool pair}"
    if a: "a \<in> {header_pool req, chain_pool req}" "req \<in> {word_of_nat (mgr_next w' (request_pool conn)), word_of_nat (mgr_next w' (request_pool conn) + 552)}" for a req
  proof -
    have "unat blk < unat a \<and> unat a < unat blk + 2256"
      using members_in_block [OF lim _ a(1)] a(2) i(5) by (simp add: fr')
    moreover have "unat ?bp < unat blk \<or> unat blk + 2256 \<le> unat ?bp" using ex(6) i(8,9) by blast
    ultimately show ?thesis using i(7) rps by auto
  qed
  then have apart: "{header_pool req, chain_pool req} \<inter> {?bp, request_pool conn, request_pool pair} = {}"
    if "req \<in> {word_of_nat (mgr_next w' (request_pool conn)), word_of_nat (mgr_next w' (request_pool conn) + 552)}" for req using that by blast
  have "w_mgr w' (request_pool pair) = w_mgr w' (request_pool conn)" "request_pool pair \<noteq> 0"
    using rps(2) by (simp_all add: fr' v(1), auto)
  moreover have "mgr_room w' (request_pool conn) 552 4" "supplies ?aa (header_block # request_blocks) (w_pool w')"
    using i(4,11) by (simp_all add: fr' v(2) del: supplies.simps)
  ultimately show ?thesis
    unfolding paired_def cp using sv ev room apart ex(3,5) fds cp(1) by (simp del: supplies.simps)
qed

lemma exchange_calls:
  assumes up: "listening w" "one_client nt fd w" "accepting nt request_blocks w" "serving nt (nt_socket nt pair) w" "exchanging nt fd (nt_socket nt pair) n w"
    and pair: "pair = word_of_nat (mgr_next w (connection_pool (w_http w)) + 296)" and net: "connects nt pair"
    and request: "arrives w fd (request_text name t M N fs)" "good_line name t M N" "good_header w fs"
    and response: "arrives w (nt_socket nt pair) (response_text (status_text M' N' x y z txt) gs @ body)" "good_status M' N' x y z txt" "good_header w gs"
    and junk: "rq_complex_uri (hr_req (nt_junk_req nt)) = 0" "rq_quoted_uri (hr_req (nt_junk_req nt)) = 0"
      "st_code (rq_status (hr_req (nt_junk_req nt))) = 0" "st_count (rq_status (hr_req (nt_junk_req nt))) = 0"
    and more: "feeds (unread (w_in w (nt_socket nt pair))) ss" "length ss \<le> n"
  shows "\<exists>e u w1 w2 w3 w4. run_calls (dispatch nt) [w_listen_ev w] w = Some w1 \<and>
    w_calls w1 = w_calls w @ [add_call w fd (LV_FDRD OR LV_CONN) e, add_call w (nt_socket nt pair) (LV_FDWR OR LV_CONN OR LV_ONESHOT) u] \<and>
    run_calls (dispatch nt) [w_listen_ev w, u] w = Some w2 \<and> w_out w2 = w_out w \<and>
    run_calls (dispatch nt) [w_listen_ev w, u, e] w = Some w3 \<and>
    w_out w3 = w_out w @ [(nt_socket nt pair, request_text name t M N (map lower_field fs))] \<and>
    run_calls (dispatch nt) ([w_listen_ev w, u, e] @ replicate (Suc (length ss)) u) w = Some w4 \<and>
    w_out w4 = w_out w3 @ (fd, response_text (status_text M' N' x y z txt) (map lower_field gs)) #
      (if body = [] then [] else [(fd, body)]) @ map (Pair fd) ss"
proof -
  let ?sock = "nt_socket nt pair" and ?os = "sy_os (nt_sys nt)"
  define conn :: u64 where "conn = word_of_nat (mgr_next w (connection_pool (w_http w)))"
  obtain e u w1 c p where a: "start_accept nt w = Some (Ret (- 1) w1)" "served nt w1 conn c p" "cn_fd c = fd" "cn_status c = L_CONNECTING_ACCEPTED"
    "cn_fd p = ?sock" "cn_ev c = e" "cn_ev p = u"
    "w_ev w1 = (w_ev w)(e \<mapsto> registered ?os w fd (LV_FDRD OR LV_CONN) cb_http_data_coming conn,
        u \<mapsto> registered ?os w ?sock (LV_FDWR OR LV_CONN OR LV_ONESHOT) cb_proxy_connect_writable pair)"
    "w_calls w1 = w_calls w @ [add_call w fd (LV_FDRD OR LV_CONN) e, add_call w ?sock (LV_FDWR OR LV_CONN OR LV_ONESHOT) u]"
    "e \<noteq> 0" "u \<noteq> 0" "e \<noteq> u" "w_out w1 = w_out w" "w_in w1 = w_in w" "w_HostHash w1 = w_HostHash w"
    "\<exists>q v q'. http_init_connection nt fd (w\<lparr>w_pending := q\<rparr>) = Some (conn, v) \<and> w1 = v\<lparr>w_pending := q'\<rparr>"
    using accept_one [OF up(2-4) conn_def pair net] by (elim exE conjE) (rule that; (assumption | blast))
  have ev1: "ev_at (w_ev w1) e = Some (registered ?os w fd (LV_FDRD OR LV_CONN) cb_http_data_coming conn)"
      "ev_at (w_ev w1) u = Some (registered ?os w ?sock (LV_FDWR OR LV_CONN OR LV_ONESHOT) cb_proxy_connect_writable pair)"
    using a(8,10-12) by simp_all
  have pr1: "paired nt w1 conn c p (Suc (Suc (Suc n))) (Suc (Suc 2))" and cp: "cn_pair c = pair"
  proof -
    have "ev_at (w_ev w1) (cn_ev p) \<noteq> None" using ev1(2) a(7) by simp
    then have "paired nt w1 conn c p (Suc (Suc (Suc n))) 4 \<and> cn_pair c = pair" using a(16) accept_paired [OF up(2-5) conn_def pair net a(2,3,5)] by blast
    then show "paired nt w1 conn c p (Suc (Suc (Suc n))) (Suc (Suc 2))" "cn_pair c = pair" by (simp_all add: numeral_eq_Suc)
  qed
  obtain le where le: "ev_at (w_ev w) (w_listen_ev w) = Some le" "ev_callback le = cb_start_accept" using up(1) by (auto simp: listening_def)
  have r1: "run_calls (dispatch nt) [w_listen_ev w] w = Some w1"
    by (rule run_calls_one [OF le(1)]) (simp add: le(2) a(1) dispatch_def)
  have so: "nt_getsockopt nt (cn_fd p) = (0, 0)" using up(5) a(5) by (simp add: exchanging_def)
  obtain b w2 where k: "proxy_connect_writable nt pair w1 = Some (Some (0, w2))"
      "paired nt w2 conn c (p\<lparr>cn_status := L_PROXY_CONNECTED, cn_buf := b\<rparr>) (Suc (Suc n)) (Suc (Suc 2))"
      "w_ev w2 = w_ev w1" "w_in w2 = w_in w1" "w_out w2 = w_out w1" "w_HostHash w2 = w_HostHash w1"
    using connect_writable_paired [OF pr1 so] unfolding cp by blast
  let ?p = "p\<lparr>cn_status := L_PROXY_CONNECTED, cn_buf := b\<rparr>"
  have r2: "run_calls (dispatch nt) [u] w1 = Some w2"
    by (rule run_calls_one [OF ev1(2)]) (simp add: registered_def dispatch_def k(1) cb_proxy_connect_writable_def cb_start_accept_def cb_http_data_coming_def)
  have at2: "arrives w2 (cn_fd c) (request_text name t M N fs)" "good_header w2 fs"
      "arrives w2 (cn_fd ?p) (response_text (status_text M' N' x y z txt) gs @ body)" "good_header w2 gs"
      "cn_status c = L_CONNECTING_ACCEPTED" "ev_at (w_ev w2) (cn_ev ?p) = Some (registered ?os w ?sock (LV_FDWR OR LV_CONN OR LV_ONESHOT) cb_proxy_connect_writable pair)"
    using request(1,3) response(1,3) a(3-5,7,14,15) k(3,4,6) ev1(2) by (simp_all add: arrives_def good_header_def)
  have more2: "feeds (unread (w_in w2 (cn_fd ?p))) ss" using more(1) a(5,14) k(4) by simp
  obtain w3 w4 where x: "http_data_coming nt conn w2 = Some (Some w3)" "run_calls (dispatch nt) (replicate (Suc (length ss)) u) w3 = Some w4"
      "w_out w3 = w_out w2 @ [(cn_fd ?p, request_text name t M N (map lower_field fs))]"
      "w_out w4 = w_out w3 @ (cn_fd c, response_text (status_text M' N' x y z txt) (map lower_field gs)) #
        (if body = [] then [] else [(cn_fd c, body)]) @ map (Pair (cn_fd c)) ss"
    using exchange_ok [OF k(2) at2(5,1) request(2) at2(2,3) response(2) at2(4) junk at2(6) more2 more(2)] a(7) by auto
  have ev2: "ev_at (w_ev w2) e = Some (registered ?os w fd (LV_FDRD OR LV_CONN) cb_http_data_coming conn)" using ev1(1) k(3) by simp
  have r3: "run_calls (dispatch nt) [e] w2 = Some w3"
    by (rule run_calls_one [OF ev2]) (simp add: registered_def dispatch_def x(1) cb_start_accept_def cb_http_data_coming_def)
  have s2: "run_calls (dispatch nt) [w_listen_ev w, u] w = Some w2" using run_calls_snoc [OF r1, of u] r2 by (simp only: append.simps)
  have s3: "run_calls (dispatch nt) [w_listen_ev w, u, e] w = Some w3" using run_calls_snoc [OF s2, of e] r3 by (simp only: append.simps)
  have s4: "run_calls (dispatch nt) ([w_listen_ev w, u, e] @ replicate (Suc (length ss)) u) w = Some w4" using s3 x(2) unfolding run_calls_append by simp
  show ?thesis
    using r1 s2 s3 s4 a(3,5,9,13) k(5) x(3,4)
    by (intro exI [of _ e] exI [of _ u] exI [of _ w1] exI [of _ w2] exI [of _ w3] exI [of _ w4]) (simp del: run_calls.simps)
qed

end
