(* ===== verification/Clients.thy ===== *)
theory Clients
  imports Serving
begin

text \<open>
  Many clients at once: \<open>start_accept\<close> (http.c) takes every connection that waits at the listening socket, in order, and passes over those that
  were aborted; afterwards each client is served over its own pair of connections.
\<close>

section \<open>Room for \<open>n\<close> clients\<close>

text \<open>The blocks of \<open>szs\<close> are those that \<open>aligned_alloc\<close> still gives when all have been taken.\<close>

definition crowd :: "net \<Rightarrow> nat \<Rightarrow> u64 list \<Rightarrow> 'a web_scheme \<Rightarrow> bool" where
  "crowd nt n szs w \<longleftrightarrow> mgr_room w (connection_pool (w_http w)) 296 (2 * n) \<and> (\<exists>k. ev_room w (2 * n + k)) \<and>
     mgr_tail w (connection_pool (w_http w)) \<noteq> pm_tail (bs_event_pool_manager w) \<and>
     (\<forall>a. mgr_next w (connection_pool (w_http w)) \<le> unat a \<and> unat a < mgr_next w (connection_pool (w_http w)) + n * 592 \<longrightarrow>
        a \<noteq> connection_pool (w_http w) \<and> a \<noteq> buf_pool (w_http w)) \<and>
     supplies (os_aligned_alloc (sy_os (nt_sys nt))) (replicate n (sizeof_pool_manager + 4 * sizeof_request) @ szs) (w_pool w)"

lemma crowd_pending: "crowd nt n szs (w\<lparr>w_pending := q\<rparr>) = crowd nt n szs w"
  by (simp add: crowd_def pending_frame)

lemma crowd_accepting: "crowd nt (Suc n) szs w \<Longrightarrow> accepting nt (replicate n (sizeof_pool_manager + 4 * sizeof_request) @ szs) w"
  using mgr_room_le [of w "connection_pool (w_http w)" 296 "2 * Suc n" 2] by (auto simp: crowd_def accepting_def simp del: supplies.simps)

text \<open>
  What taking \<open>n\<close> clients leaves alone: connections and managers outside the next \<open>n\<close> pairs, events, the blocks of the other pools, and most
  members.
\<close>

definition grown :: "nat \<Rightarrow> 'a web_scheme \<Rightarrow> 'a web_scheme \<Rightarrow> bool" where
  "grown n w w' \<longleftrightarrow> (let cp = connection_pool (w_http w) in
     (\<forall>x. unat x < mgr_next w cp \<or> mgr_next w cp + n * 592 \<le> unat x \<longrightarrow> w_conn w' x = w_conn w x \<and> w_mgr w' x = w_mgr w x) \<and>
     (\<forall>x. w_ev w x \<noteq> None \<longrightarrow> w_ev w' x = w_ev w x) \<and>
     (\<forall>b. w_pool w b \<noteq> None \<longrightarrow> b \<notin> {mgr_tail w cp, pm_tail (bs_event_pool_manager w)} \<longrightarrow> w_pool w' b = w_pool w b) \<and>
     mgr_next w' cp = mgr_next w cp + n * 592 \<and> mgr_tail w' cp = mgr_tail w cp \<and> bs_event_pool_manager w' = bs_event_pool_manager w \<and>
     w_http w' = w_http w \<and> w_listen_fd w' = w_listen_fd w \<and> w_self w' = w_self w \<and> bs_epfd w' = bs_epfd w \<and>
     w_out w' = w_out w \<and> w_in w' = w_in w \<and> w_HostHash w' = w_HostHash w)"

lemma grown_refl: "grown 0 w w"
  by (simp add: grown_def)

lemma grown_pending: "grown n (w\<lparr>w_pending := q\<rparr>) w' = grown n w w'" "grown n w (w'\<lparr>w_pending := q\<rparr>) = grown n w w'"
  by (simp_all add: grown_def pending_frame Let_def)

lemma grown_trans: "grown k w w1 \<Longrightarrow> grown m w1 w' \<Longrightarrow> grown (k + m) w w'"
  by (simp add: grown_def Let_def algebra_simps)

text \<open>A client that has been taken: its socket, its connection and the upstream one, and their events.\<close>

record taken =
  tk_fd :: int
  tk_conn :: u64
  tk_pair :: u64
  tk_ev :: u64
  tk_up :: u64

definition holds :: "net \<Rightarrow> 'a web_scheme \<Rightarrow> 'a web_scheme \<Rightarrow> taken \<Rightarrow> bool" where
  "holds nt w w' t \<longleftrightarrow> (let c = client_conn nt (w_http w) (tk_fd t) (tk_pair t) (tk_ev t); up = nt_socket nt (tk_pair t); os = sy_os (nt_sys nt) in
     conn_at w' (tk_conn t) = Some c \<and> conn_at w' (tk_pair t) = Some (upstream_conn nt (tk_conn t) c (tk_pair t) (tk_up t)) \<and>
     ev_at (w_ev w') (tk_ev t) = Some (registered os w (tk_fd t) (LV_FDRD OR LV_CONN) cb_http_data_coming (tk_conn t)) \<and>
     ev_at (w_ev w') (tk_up t) = Some (registered os w up (LV_FDWR OR LV_CONN OR LV_ONESHOT) cb_proxy_connect_writable (tk_pair t)) \<and>
     mgr_room w' (request_pool (tk_conn t)) 552 1 \<and> w_pool w (mgr_tail w' (request_pool (tk_conn t))) = None)"

text \<open>Where its connections lie, and that its events are new.\<close>

definition placed :: "nat \<Rightarrow> 'a web_scheme \<Rightarrow> taken \<Rightarrow> bool" where
  "placed n w t \<longleftrightarrow> (let cp = connection_pool (w_http w) in
     mgr_next w cp \<le> unat (tk_conn t) \<and> unat (tk_conn t) + 592 \<le> mgr_next w cp + n * 592 \<and> unat (tk_pair t) = unat (tk_conn t) + 296 \<and>
     w_ev w (tk_ev t) = None \<and> w_ev w (tk_up t) = None \<and> tk_ev t \<noteq> tk_up t)"

definition new_calls :: "net \<Rightarrow> 'a lea_scheme \<Rightarrow> taken \<Rightarrow> ep_call list" where
  "new_calls nt w t = [add_call w (tk_fd t) (LV_FDRD OR LV_CONN) (tk_ev t), add_call w (nt_socket nt (tk_pair t)) (LV_FDWR OR LV_CONN OR LV_ONESHOT) (tk_up t)]"

lemma crowd_step:
  assumes "crowd nt (Suc n) szs w" and net: "\<forall>pair. connects nt pair"
  shows "\<exists>t w'. http_init_connection nt fd w = Some (tk_conn t, w') \<and> crowd nt n szs w' \<and> tk_fd t = fd \<and> holds nt w w' t \<and> placed 1 w t \<and> grown 1 w w' \<and>
    w_calls w' = w_calls w @ new_calls nt w t \<and> w_pending w' = w_pending w"
proof -
  let ?cp = "connection_pool (w_http w)" and ?sz = "sizeof_pool_manager + 4 * sizeof_request" and ?aa = "os_aligned_alloc (sy_os (nt_sys nt))"
  define conn pair :: u64 where "conn = word_of_nat (mgr_next w ?cp)" and "pair = word_of_nat (mgr_next w ?cp + 296)"
  obtain k where k: "ev_room w (Suc (Suc (2 * n + k)))" using assms(1) by (auto simp: crowd_def)
  have cr: "mgr_room w ?cp 296 (Suc (Suc (2 * n)))" "ev_room w (Suc (Suc (2 * n + k)))" "mgr_tail w ?cp \<noteq> pm_tail (bs_event_pool_manager w)"
      "mgr_next w ?cp \<le> unat a \<Longrightarrow> unat a < mgr_next w ?cp + Suc n * 592 \<Longrightarrow> a \<noteq> ?cp \<and> a \<noteq> buf_pool (w_http w)" for a
    using assms(1) k by (simp_all add: crowd_def)
  obtain mg pm e1 e2 blk w' where i: "http_init_connection nt fd w = Some (conn, w')"
    "w' = w\<lparr>w_conn := (w_conn w)(conn \<mapsto> client_conn nt (w_http w) fd pair e1,
        pair \<mapsto> upstream_conn nt conn (client_conn nt (w_http w) fd pair e1) pair e2), w_pool := pm,
      w_mgr := (w_mgr w)(request_pool conn \<mapsto> mg, request_pool pair \<mapsto> mg),
      w_ev := (w_ev w)(e1 \<mapsto> registered (sy_os (nt_sys nt)) w fd (LV_FDRD OR LV_CONN) cb_http_data_coming conn,
        e2 \<mapsto> registered (sy_os (nt_sys nt)) w (nt_socket nt pair) (LV_FDWR OR LV_CONN OR LV_ONESHOT) cb_proxy_connect_writable pair),
      w_calls := w_calls w @ [add_call w fd (LV_FDRD OR LV_CONN) e1, add_call w (nt_socket nt pair) (LV_FDWR OR LV_CONN OR LV_ONESHOT) e2]\<rparr>"
    "conn \<noteq> 0" "pair \<noteq> 0" "pair \<noteq> conn" "e1 \<noteq> 0" "e2 \<noteq> 0" "e1 \<noteq> e2" "w_ev w e1 = None" "w_ev w e2 = None"
    "mgr_room w' (request_pool conn) 552 4" "mgr_tail w' (request_pool conn) = blk" "w_pool w blk = None"
    "\<forall>t. t \<notin> {blk, mgr_tail w ?cp, pm_tail (bs_event_pool_manager w)} \<longrightarrow> pm t = w_pool w t"
    "supplies ?aa (replicate n ?sz @ szs) pm"
    "mgr_room w' ?cp 296 (2 * n)" "mgr_next w' ?cp = mgr_next w ?cp + 592" "ev_room w' (2 * n + k)" "mgr_tail w' ?cp = mgr_tail w ?cp"
    "unat conn = mgr_next w ?cp" "unat pair = mgr_next w ?cp + 296"
    using init_connection_full [OF crowd_accepting [OF assms(1)] conn_def pair_def spec [OF net] cr(1,2), of fd] by (elim exE conjE) (rule that; assumption)
  define t where "t = \<lparr>tk_fd = fd, tk_conn = conn, tk_pair = pair, tk_ev = e1, tk_up = e2\<rparr>"
  have fr: "w_http w' = w_http w" "bs_event_pool_manager w' = bs_event_pool_manager w" "w_pool w' = pm" by (simp_all add: i(2))
  have "a \<noteq> ?cp \<and> a \<noteq> buf_pool (w_http w)" if "mgr_next w' ?cp \<le> unat a" "unat a < mgr_next w' ?cp + n * 592" for a
    using cr(4) [of a] that unfolding i(17) by simp
  then have "crowd nt n szs w'"
    unfolding crowd_def fr i(19) using cr(3) i(15,16,18) by blast
  moreover have "holds nt w w' t"
    using i(3-8,12,13) mgr_room_le [OF i(11), of 1] unfolding holds_def t_def Let_def taken.simps
    by (intro conjI) (simp_all add: i(2) conn_at_def ev_at_def)
  moreover have "placed 1 w t" using i(8-10,20,21) by (simp add: placed_def t_def)
  ultimately have parts: "crowd nt n szs w'" "holds nt w w' t" "placed 1 w t" by blast+
  have "mgr_next w ?cp + 592 < 2 ^ 64" using mgr_room_limit [OF cr(1)] by simp
  then have "unat (request_pool conn) = mgr_next w ?cp + 152" "unat (request_pool pair) = mgr_next w ?cp + 448"
    using i(20,21) by (simp_all add: request_pool_def unat_word_ariths)
  then have "w_conn w' x = w_conn w x \<and> w_mgr w' x = w_mgr w x" if "unat x < mgr_next w ?cp \<or> mgr_next w ?cp + 592 \<le> unat x" for x
    using that i(20,21) by (auto simp: i(2))
  moreover have "w_ev w' x = w_ev w x" if "w_ev w x \<noteq> None" for x using that i(9,10) by (auto simp: i(2))
  moreover have "w_pool w' b = w_pool w b" if "w_pool w b \<noteq> None" "b \<notin> {mgr_tail w ?cp, pm_tail (bs_event_pool_manager w)}" for b
    using that i(13,14) unfolding fr by (metis insert_iff)
  moreover have "bs_event_pool_manager w' = bs_event_pool_manager w \<and> w_http w' = w_http w \<and> w_listen_fd w' = w_listen_fd w \<and> w_self w' = w_self w \<and>
      bs_epfd w' = bs_epfd w \<and> w_out w' = w_out w \<and> w_in w' = w_in w \<and> w_HostHash w' = w_HostHash w" by (simp add: i(2))
  ultimately have "grown 1 w w'" using i(17,19) unfolding grown_def Let_def by simp
  then show ?thesis
    using i(1) parts by (intro exI [of _ t] exI [of _ w']) (simp add: t_def new_calls_def, simp add: i(2))
qed

lemma holds_kept:
  assumes h: "holds nt w w1 t" and p: "placed 1 w t" and g: "grown 1 w w1" "grown m w1 w'"
    and live: "w_pool w (mgr_tail w (connection_pool (w_http w))) \<noteq> None" "w_pool w (pm_tail (bs_event_pool_manager w)) \<noteq> None"
  shows "holds nt w w' t"
proof -
  let ?cp = "connection_pool (w_http w)" and ?rp = "request_pool (tk_conn t)"
  have at: "unat (tk_conn t) + 592 \<le> mgr_next w1 ?cp" "unat (tk_pair t) + 296 \<le> mgr_next w1 ?cp" using p g(1) by (simp_all add: placed_def grown_def Let_def)
  have same: "w_conn w' x = w_conn w1 x \<and> w_mgr w' x = w_mgr w1 x" if "unat x < mgr_next w1 ?cp" for x
    using that g by (simp add: grown_def Let_def)
  have "unat ?rp \<le> unat (tk_conn t) + 152" by (simp add: request_pool_def unat_word_ariths)
  then have m: "w_mgr w' ?rp = w_mgr w1 ?rp" using same [of ?rp] at(1) by simp
  have room: "mgr_room w1 ?rp 552 1" "w_pool w (mgr_tail w1 ?rp) = None" using h by (simp_all add: holds_def Let_def)
  have "mgr_tail w1 ?rp \<notin> {mgr_tail w1 ?cp, pm_tail (bs_event_pool_manager w1)}" using room(2) live g(1) by (auto simp: grown_def Let_def)
  then have "w_pool w' (mgr_tail w1 ?rp) = w_pool w1 (mgr_tail w1 ?rp)" using g room_tail_live [OF room(1)] by (simp add: grown_def Let_def)
  then have "mgr_room w' ?rp = mgr_room w1 ?rp" "mgr_tail w' ?rp = mgr_tail w1 ?rp" using mgr_room_cong [of w' ?rp w1] m by simp_all
  moreover have "w_ev w' x = w_ev w1 x" if "w_ev w1 x \<noteq> None" for x using that g(2) by (simp add: grown_def Let_def)
  ultimately show ?thesis
    using h same [of "tk_conn t"] same [of "tk_pair t"] at by (auto simp: holds_def Let_def conn_at_def ev_at_def split: if_splits)
qed

section \<open>All that wait\<close>

definition apart :: "taken list \<Rightarrow> bool" where
  "apart ts \<longleftrightarrow> distinct (concat (map (\<lambda>t. [tk_conn t, tk_pair t]) ts)) \<and> distinct (concat (map (\<lambda>t. [tk_ev t, tk_up t]) ts))"

definition waiting :: "(int \<times> int) list \<Rightarrow> bool" where
  "waiting rs \<longleftrightarrow> (\<forall>(fd, errno) \<in> set rs. 0 \<le> fd \<or> fd = - 1 \<and> errno = ECONNABORTED)"

lemma apart_Cons:
  assumes "apart ts" "placed 1 w t" "holds nt w w1 t" "grown 1 w w1" "\<forall>t' \<in> set ts. placed n w1 t'"
  shows "apart (t # ts)"
proof -
  let ?cp = "connection_pool (w_http w)"
  have t: "unat (tk_conn t) + 592 \<le> mgr_next w1 ?cp" "unat (tk_pair t) = unat (tk_conn t) + 296" "tk_ev t \<noteq> tk_up t" "w_http w1 = w_http w"
    using assms(2,4) by (simp_all add: placed_def grown_def Let_def)
  have ev: "w_ev w1 (tk_ev t) \<noteq> None" "w_ev w1 (tk_up t) \<noteq> None"
    using assms(3) by (auto simp: holds_def Let_def dest!: ev_at_SomeD)
  have "mgr_next w1 ?cp \<le> unat (tk_conn t')" "mgr_next w1 ?cp \<le> unat (tk_pair t')" "w_ev w1 (tk_ev t') = None" "w_ev w1 (tk_up t') = None" if "t' \<in> set ts" for t'
    using assms(5) that t(4) by (auto simp: placed_def Let_def)
  then have "tk_conn t \<notin> set (concat (map (\<lambda>t. [tk_conn t, tk_pair t]) ts))" "tk_pair t \<notin> set (concat (map (\<lambda>t. [tk_conn t, tk_pair t]) ts))"
      "tk_ev t \<notin> set (concat (map (\<lambda>t. [tk_ev t, tk_up t]) ts))" "tk_up t \<notin> set (concat (map (\<lambda>t. [tk_ev t, tk_up t]) ts))"
    using t(1,2) ev by fastforce+
  moreover have "tk_conn t \<noteq> tk_pair t" using t(2) by auto
  ultimately show ?thesis using assms(1) t(3) by (simp add: apart_def)
qed

lemma accept_all:
  assumes "crowd nt n szs w" and net: "\<forall>pair. connects nt pair"
    and "w_pending w (w_listen_fd w) = rs" "waiting rs" "length (filter (\<lambda>r. 0 \<le> fst r) rs) = n" "length rs < k"
  shows "\<exists>ts w'. accept_loop nt k w = Some (Ret (- 1) w') \<and> map tk_fd ts = map fst (filter (\<lambda>r. 0 \<le> fst r) rs) \<and>
    w_calls w' = w_calls w @ concat (map (new_calls nt w) ts) \<and> w_pending w' (w_listen_fd w) = [] \<and> crowd nt 0 szs w' \<and> grown n w w' \<and>
    (\<forall>t \<in> set ts. holds nt w w' t \<and> placed n w t) \<and> apart ts"
  using assms
proof (induction rs arbitrary: w n k)
  case Nil
  then obtain k' where k: "k = Suc k'" by (cases k) auto
  let ?w = "w\<lparr>w_pending := (w_pending w)(w_listen_fd w := [])\<rparr>"
  have "lt_accept (w_listen_fd w) w = (LAGAIN, ?w)" using Nil.prems(3) by (simp add: lt_accept_def EAGAIN_def)
  then have "accept_loop nt k w = Some (Ret (- 1) ?w)" by (simp add: k)
  then show ?case using Nil.prems(1,5) by (intro exI [of _ "[]"] exI [of _ ?w]) (simp add: grown_refl grown_pending crowd_pending apart_def)
next
  case (Cons r rs)
  obtain fd errno where r: "r = (fd, errno)" by (cases r)
  obtain k' where k: "k = Suc k'" "length rs < k'" using Cons.prems(6) by (cases k) auto
  define w0 where "w0 = w\<lparr>w_pending := (w_pending w)(w_listen_fd w := rs)\<rparr>"
  have pend: "w_pending w0 (w_listen_fd w0) = rs" "waiting rs" using Cons.prems(4) by (simp_all add: w0_def waiting_def)
  have fr: "w_calls w0 = w_calls w" "w_listen_fd w0 = w_listen_fd w" "new_calls nt w0 = new_calls nt w" "holds nt w0 = holds nt w" "placed m w0 = placed m w"
      "grown m w0 = grown m w" for m
    by (simp_all add: w0_def pending_frame fun_eq_iff conn_at_def new_calls_def add_call_def holds_def registered_def placed_def grown_pending Let_def)
  show ?case
  proof (cases "0 \<le> fd")
    case False
    then have a: "lt_accept (w_listen_fd w) w = (LABORT, w0)"
      using Cons.prems(3,4) by (simp add: lt_accept_def r w0_def errno_defs waiting_def)
    have "crowd nt n szs w0" "length (filter (\<lambda>r. 0 \<le> fst r) rs) = n" using Cons.prems(1,5) False by (simp_all add: w0_def crowd_pending r)
    moreover have "accept_loop nt k w = accept_loop nt k' w0" by (simp add: k(1) a rc_defs)
    ultimately show ?thesis using Cons.IH [OF _ net pend _ k(2)] False by (simp add: fr r)
  next
    case True
    then obtain m where n: "n = Suc m" "length (filter (\<lambda>r. 0 \<le> fst r) rs) = m" using Cons.prems(5) by (cases n) (auto simp: r)
    have a: "lt_accept (w_listen_fd w) w = (fd, w0)" "fd \<noteq> LAGAIN" "fd \<noteq> LABORT" "fd \<noteq> LERROR"
      using Cons.prems(3) True by (simp_all add: lt_accept_def r w0_def rc_defs)
    have cw: "crowd nt (Suc m) szs w0" "crowd nt (Suc m) szs w" using Cons.prems(1) by (simp_all add: w0_def crowd_pending n(1))
    obtain t w1 where t: "http_init_connection nt fd w0 = Some (tk_conn t, w1)" "crowd nt m szs w1" "tk_fd t = fd" "holds nt w w1 t" "placed 1 w t" "grown 1 w w1"
      "w_calls w1 = w_calls w @ new_calls nt w t" "w_pending w1 = w_pending w0"
      using crowd_step [OF cw(1) net, of fd] unfolding fr by blast
    have g1: "w_listen_fd w1 = w_listen_fd w" "w_http w1 = w_http w" "w_self w1 = w_self w" "bs_epfd w1 = bs_epfd w"
      "mgr_next w1 (connection_pool (w_http w)) = mgr_next w (connection_pool (w_http w)) + 592" "w_ev w1 x = None \<Longrightarrow> w_ev w x = None" for x
      using t(6) by (auto simp: grown_def Let_def)
    have g2: "w_pool w b = None" if "w_pool w1 b = None" for b
    proof (rule ccontr)
      assume "w_pool w b \<noteq> None"
      moreover have "w_pool w1 (mgr_tail w (connection_pool (w_http w))) \<noteq> None" "w_pool w1 (pm_tail (bs_event_pool_manager w)) \<noteq> None"
        using t(2,6) room_tail_live [of w1 "connection_pool (w_http w)" 296 "2 * m"] ev_tail_live [of w1] by (auto simp: crowd_def grown_def Let_def)
      ultimately show False using that t(6) by (auto simp: grown_def Let_def)
    qed
    have same: "new_calls nt w1 = new_calls nt w" using g1 by (simp add: fun_eq_iff new_calls_def add_call_def)
    have "w_pending w1 (w_listen_fd w1) = rs" using t(8) pend(1) g1(1) fr(2) by simp
    from Cons.IH [OF t(2) net this pend(2) n(2) k(2)]
    obtain ts w' where ts: "accept_loop nt k' w1 = Some (Ret (- 1) w')" "map tk_fd ts = map fst (filter (\<lambda>r. 0 \<le> fst r) rs)"
      "w_calls w' = w_calls w1 @ concat (map (new_calls nt w) ts)" "w_pending w' (w_listen_fd w1) = []" "crowd nt 0 szs w'" "grown m w1 w'"
      "\<forall>t \<in> set ts. holds nt w1 w' t \<and> placed m w1 t" "apart ts"
      unfolding same by blast
    have "holds nt w w' t"
      by (rule holds_kept [OF t(4-6) ts(6)]) (use cw(2) room_tail_live ev_tail_live in \<open>auto simp: crowd_def\<close>)
    moreover have "placed n w t" using t(5) by (auto simp: placed_def Let_def n(1))
    moreover have "holds nt w w' t' \<and> placed n w t'" if "t' \<in> set ts" for t'
      using ts(7) that g1 g2 by (fastforce simp: holds_def placed_def Let_def registered_def n(1))
    moreover have "grown n w w'" using grown_trans [OF t(6) ts(6)] by (simp add: n(1))
    moreover have "apart (t # ts)" using apart_Cons [OF ts(8) t(5,4,6)] ts(7) by blast
    moreover have "accept_loop nt k w = Some (Ret (- 1) w')" using a t(1) ts(1) by (simp add: k(1))
    ultimately show ?thesis
      using ts(2-5) t(3,7) g1(1) True by (intro exI [of _ "t # ts"] exI [of _ w']) (simp add: r)
  qed
qed

section \<open>Each is served\<close>

lemma taken_served:
  assumes "crowd nt n request_blocks w" and g: "grown n w w'" and c0: "crowd nt 0 request_blocks w'" and t: "holds nt w w' t" "placed n w t"
    and sv: "serving nt (nt_socket nt (tk_pair t)) w"
  shows "\<exists>c p. served nt w' (tk_conn t) c p \<and> cn_fd c = tk_fd t \<and> cn_status c = L_CONNECTING_ACCEPTED \<and> cn_fd p = nt_socket nt (tk_pair t) \<and> cn_ev p = tk_up t"
proof -
  let ?bp = "buf_pool (w_http w)" and ?cp = "connection_pool (w_http w)" and ?rp = "request_pool (tk_conn t)"
  define c where "c = client_conn nt (w_http w) (tk_fd t) (tk_pair t) (tk_ev t)"
  define p where "p = upstream_conn nt (tk_conn t) c (tk_pair t) (tk_up t)"
  have h: "conn_at w' (tk_conn t) = Some c" "conn_at w' (tk_pair t) = Some p" "ev_at (w_ev w') (tk_ev t) \<noteq> None"
      "mgr_room w' ?rp 552 1" "w_pool w (mgr_tail w' ?rp) = None" "tk_pair t \<noteq> tk_conn t"
    using t by (auto simp: holds_def placed_def Let_def c_def p_def)
  have b: "mgr_room w ?bp 16432 1" "mgr_tail w ?bp \<noteq> mgr_tail w ?cp" "mgr_tail w ?bp \<noteq> pm_tail (bs_event_pool_manager w)"
    using sv by (simp_all add: serving_def)
  have "\<not> (mgr_next w ?cp \<le> unat ?bp \<and> unat ?bp < mgr_next w ?cp + n * 592)" using assms(1) by (auto simp: crowd_def)
  then have "unat ?bp < mgr_next w ?cp \<or> mgr_next w ?cp + n * 592 \<le> unat ?bp" by linarith
  then have "w_mgr w' ?bp = w_mgr w ?bp" using g unfolding grown_def Let_def by blast
  moreover have "w_pool w' (mgr_tail w ?bp) = w_pool w (mgr_tail w ?bp)" using g b(2,3) room_tail_live [OF b(1)] by (simp add: grown_def Let_def)
  ultimately have room: "mgr_room w' ?bp 16432 1" "mgr_tail w' ?bp = mgr_tail w ?bp" using mgr_room_cong [of w' ?bp w] b(1) by simp_all
  have "mgr_tail w' ?bp \<noteq> mgr_tail w' ?rp" using room(2) room_tail_live [OF b(1)] h(5) by auto
  moreover have "supplies (os_aligned_alloc (sy_os (nt_sys nt))) request_blocks (w_pool w')" using c0 by (simp add: crowd_def)
  ultimately have "served nt w' (tk_conn t) c p"
    using h sv room(1) unfolding served_def serving_def by (simp add: c_def p_def client_conn_def upstream_conn_def del: supplies.simps)
  then show ?thesis by (intro exI [of _ c] exI [of _ p]) (simp add: c_def p_def client_conn_def upstream_conn_def)
qed

lemma clients_ok:
  assumes up: "listening w" "crowd nt n request_blocks w" and net: "\<forall>pair. connects nt pair \<and> serving nt (nt_socket nt pair) w"
    and wait: "w_pending w (w_listen_fd w) = rs" "waiting rs" "fds = map fst (filter (\<lambda>r. 0 \<le> fst r) rs)" "length fds = n" "length rs < nt_somaxconn nt"
    and junk: "rq_complex_uri (hr_req (nt_junk_req nt)) = 0" "rq_quoted_uri (hr_req (nt_junk_req nt)) = 0"
  shows "\<exists>ts w1. run_calls (dispatch nt) [w_listen_ev w] w = Some w1 \<and> map tk_fd ts = fds \<and> apart ts \<and> w_pending w1 (w_listen_fd w) = [] \<and>
    w_calls w1 = w_calls w @ concat (map (new_calls nt w) ts) \<and>
    (\<forall>t \<in> set ts. \<forall>name uri M N fs. arrives w (tk_fd t) (request_text name uri M N fs) \<and> good_line name uri M N \<and> good_header w fs \<longrightarrow>
      (\<exists>w2. run_calls (dispatch nt) [w_listen_ev w, tk_ev t] w = Some w2 \<and>
        w_out w2 = w_out w @ [(nt_socket nt (tk_pair t), request_text name uri M N (map lower_field fs))]))"
proof -
  have net1: "\<forall>pair. connects nt pair" and n: "length (filter (\<lambda>r. 0 \<le> fst r) rs) = n" using net wait(3,4) by simp_all
  obtain ts w1 where a: "accept_loop nt (nt_somaxconn nt) w = Some (Ret (- 1) w1)" "map tk_fd ts = fds" "w_calls w1 = w_calls w @ concat (map (new_calls nt w) ts)"
      "w_pending w1 (w_listen_fd w) = []" "crowd nt 0 request_blocks w1" "grown n w w1" "\<forall>t \<in> set ts. holds nt w w1 t \<and> placed n w t" "apart ts"
    using accept_all [OF up(2) net1 wait(1,2) n wait(5)] unfolding wait(3) by blast
  obtain le where le: "ev_at (w_ev w) (w_listen_ev w) = Some le" "ev_callback le = cb_start_accept" using up(1) by (auto simp: listening_def)
  have first: "run_calls (dispatch nt) [w_listen_ev w] w = Some w1" using le a(1) by (simp add: dispatch_def start_accept_def)
  have same: "w_out w1 = w_out w" "w_in w1 = w_in w" "w_HostHash w1 = w_HostHash w" using a(6) by (simp_all add: grown_def Let_def)
  have "\<exists>w2. run_calls (dispatch nt) [w_listen_ev w, tk_ev t] w = Some w2 \<and>
      w_out w2 = w_out w @ [(nt_socket nt (tk_pair t), request_text name uri M N (map lower_field fs))]"
    if t: "t \<in> set ts" and r: "arrives w (tk_fd t) (request_text name uri M N fs)" "good_line name uri M N" "good_header w fs" for t name uri M N fs
  proof -
    have h: "holds nt w w1 t" "placed n w t" using a(7) t by blast+
    obtain c p where c: "served nt w1 (tk_conn t) c p" "cn_fd c = tk_fd t" "cn_status c = L_CONNECTING_ACCEPTED" "cn_fd p = nt_socket nt (tk_pair t)" "cn_ev p = tk_up t"
      using taken_served [OF up(2) a(6,5) h] net by blast
    have ar: "arrives w1 (cn_fd c) (request_text name uri M N fs)" "good_header w1 fs" using r(1,3) c(2) same by (simp_all add: arrives_def good_header_def)
    obtain e where e: "ev_at (w_ev w1) (cn_ev p) = Some e" using h(1) c(5) by (simp add: holds_def Let_def)
    obtain w2 where w2: "http_data_coming nt (tk_conn t) w1 = Some (Some w2)" "w_out w2 = w_out w1 @ [(cn_fd p, request_text name uri M N (map lower_field fs))]"
      using client_data_ok [OF c(1,3) ar(1) r(2) ar(2) junk e] by blast
    have "run_calls (dispatch nt) [tk_ev t] w1 = Some w2"
      using h(1) w2(1) by (simp add: holds_def Let_def registered_def dispatch_def cb_start_accept_def cb_http_data_coming_def)
    then have "run_calls (dispatch nt) ([w_listen_ev w] @ [tk_ev t]) w = Some w2" unfolding run_calls_append first by simp
    then show ?thesis using w2(2) c(4) same(1) by (intro exI [of _ w2]) (simp only: append.simps)
  qed
  then show ?thesis using first a(2-4,8) by blast
qed

end
