(* ===== verification/Start_Up.thy ===== *)
theory Start_Up
  imports Exchange Clients Worker
begin

text \<open>
  The process from its start: what \<open>lt_base_init\<close> (event_lea.c) and \<open>http_worker_new\<close> (http.c) set up is enough to take a client and
  serve it (main.c).
\<close>

section \<open>The process\<close>

lemma quiet_frame [simp]:
  "quiet (w\<lparr>w_http := h\<rparr>) = quiet w" "quiet (w\<lparr>w_HostHash := x\<rparr>) = quiet w" "quiet (w\<lparr>w_listen_fd := fd\<rparr>) = quiet w"
  "quiet (w\<lparr>w_listen_ev := ev\<rparr>) = quiet w"
  by (simp_all add: quiet_lagging)

lemma mgr_new_quiet: "mgr_new sy ma e n w = Some w' \<Longrightarrow> quiet w \<Longrightarrow> quiet (w' :: 'a web_scheme)"
  using resD [OF mgr_new_steps [OF advances_refl]] advances_quiet by blast

lemma add_listen_quiet: "http_add_listen nt gai ps listen_rv w = Some (rv, w') \<Longrightarrow> quiet w \<Longrightarrow> quiet w'"
proof -
  assume l: "http_add_listen nt gai ps listen_rv w = Some (rv, w')" and w: "quiet w"
  obtain rv1 w1 where g: "get_addrinfo_with_bind gai ps w = (rv1, w1)" by (cases "get_addrinfo_with_bind gai ps w")
  have w1: "quiet w1" using g w by (auto simp: get_addrinfo_with_bind_def split: if_splits prod.splits option.splits)
  have "quiet w2" if "lt_io_add os now w1 fd (LV_CONN OR LV_FDRD) cb arg NO_TIMEOUT = Some (ev, w2)" for os now fd cb arg ev w2
    using resD [OF io_add_steps [OF advances_refl flags_not_lagging(3)] that] advances_quiet [OF _ w1] by simp
  then show "quiet w'"
    using l g w1 by (auto simp: http_add_listen_def split: if_splits Option.bind_splits)
qed

lemma worker_quiet: "http_worker_new nt http gai ps listen_rv sigpipe w = Some (a, w') \<Longrightarrow> quiet w \<Longrightarrow> quiet w'"
proof -
  assume n: "http_worker_new nt http gai ps listen_rv sigpipe w = Some (a, w')" and w: "quiet w"
  show "quiet w'"
  proof (cases "http = 0")
    case True
    then show ?thesis using n w by (simp add: http_worker_new_def)
  next
    case False
    then obtain w1 rv w2 where s: "mgr_new (nt_sys nt) (connection_pool http) sizeof_connection CONNECTION_POOL_LENGTH (w\<lparr>w_http := http\<rparr>) = Some w1"
        "http_add_listen nt gai ps listen_rv (w1\<lparr>w_HostHash := BKDRhash (mem_of 0 ''Host'') 0 5\<rparr>) = Some (rv, w2)"
        "w' = w2 \<or> mgr_new (nt_sys nt) (buf_pool http) 16432 BUFFER_POOL_LENGTH w2 = Some w'"
      using n by (auto simp: http_worker_new_def split: if_splits Option.bind_splits)
    have "quiet w1" using mgr_new_quiet [OF s(1)] w by simp
    then have "quiet w2" using add_listen_quiet [OF s(2)] by simp
    then show ?thesis using s(3) mgr_new_quiet by blast
  qed
qed

lemma base_init_quiet:
  assumes "lt_base_init os mb epfd mh w = Some (base, w')" "base \<noteq> 0" "bs_active_tail w = 0"
    and "\<forall>a e. w_ev w a = Some e \<longrightarrow> \<not> lagging e" "\<not> lagging (os_junk os)"
  shows "quiet w'"
  using assms unfolding quiet_lagging
  by (auto simp: lt_base_init_def Let_def split: if_splits Option.bind_splits dest!: ev_set_SomeD ev_at_SomeD)

lemma child_dispatches:
  assumes "lt_base_init (sy_os (nt_sys nt)) malloc_base epfd malloc_head w = Some (base, w1)" "base \<noteq> 0" "conf \<noteq> 0"
    and "http_worker_new nt malloc_http gai ps listen_rv sigpipe w1 = Some (http, w2)" "http \<noteq> 0"
    and "bs_active_tail w = 0" "\<forall>a e. w_ev w a = Some e \<longrightarrow> ev_flag e AND LV_LAG = 0" "ev_flag (os_junk (sy_os (nt_sys nt))) AND LV_LAG = 0"
    and "\<forall>r \<in> set rounds. rd_ready r \<noteq> - 1 \<or> rd_eintr r"
  shows "child nt conf (malloc_base, epfd, malloc_head) (malloc_http, gai, ps, listen_rv, sigpipe) start rounds w =
    map_option Child_waits (run_calls (dispatch nt) (concat (map round_ptrs rounds)) w2)"
proof -
  have "quiet w2" using assms(6-8) base_init_quiet [OF assms(1,2)] worker_quiet [OF assms(4)] by (simp add: lagging_def)
  then have "lt_base_loop (dispatch nt) NO_TIMEOUT start rounds w2 =
      map_option Waiting (run_calls (dispatch nt) (concat (map round_ptrs rounds)) w2)"
    by (rule loops_in_order [OF dispatch_quiet _ assms(9)])
  then show ?thesis
    using assms(1-5) by (cases "run_calls (dispatch nt) (concat (map round_ptrs rounds)) w2") (simp_all add: child_def)
qed

section \<open>The server is set up\<close>

text \<open>The blocks that the process takes from \<open>aligned_alloc\<close> before it waits, and those for its first client.\<close>

definition worker_blocks :: "u64 list" where
  "worker_blocks = [sizeof_pool_manager + CONNECTION_POOL_LENGTH * sizeof_connection, sizeof_pool_manager + BUFFER_POOL_LENGTH * 16432]"

lemma supplies_first:
  "supplies aa (sz # szs) m \<Longrightarrow> pools_like m m1 \<Longrightarrow> fresh_block aa m1 sz \<and> aa m1 sz \<noteq> 0 \<and> m1 (aa m1 sz) = None \<and> m (aa m1 sz) = None \<and>
    (\<forall>m2. block_added (aa m1 sz) sz m1 m2 \<longrightarrow> supplies aa szs m2)"
  using pools_like_None [of m m1] by (auto simp: fresh_block_def)

lemma worker_ready:
  assumes http: "http \<noteq> 0" "connection_pool http \<noteq> 0" "buf_pool http \<noteq> 0" and ps: "bind_first ps None = (0, Some lfd)"
    and room: "ev_room w (Suc k)" and sup: "supplies (os_aligned_alloc (sy_os (nt_sys nt))) (worker_blocks @ szs) (w_pool w)"
  shows "\<exists>mg1 mg2 pm l w' blk1 blk2. http_worker_new nt http 0 ps 0 0 w = Some (http, w') \<and>
    w' = w\<lparr>w_http := http, w_HostHash := BKDRhash (mem_of 0 ''Host'') 0 5, w_listen_fd := lfd, w_listen_ev := l,
      w_mgr := (w_mgr w)(connection_pool http \<mapsto> mg1, buf_pool http \<mapsto> mg2), w_pool := pm,
      w_ev := (w_ev w)(l \<mapsto> registered (sy_os (nt_sys nt)) w lfd (LV_CONN OR LV_FDRD) cb_start_accept http),
      w_calls := w_calls w @ [add_call w lfd (LV_CONN OR LV_FDRD) l]\<rparr> \<and> l \<noteq> 0 \<and> w_ev w l = None \<and>
    mgr_room w' (connection_pool http) 296 32 \<and> mgr_tail w' (connection_pool http) = blk1 \<and> mgr_next w' (connection_pool http) = unat blk1 + 40 \<and>
    mgr_room w' (buf_pool http) 16432 64 \<and> mgr_tail w' (buf_pool http) = blk2 \<and> ev_room w' k \<and>
    blk1 \<noteq> blk2 \<and> w_pool w blk1 = None \<and> w_pool w blk2 = None \<and>
    blk1 = os_aligned_alloc (sy_os (nt_sys nt)) (w_pool w) (sizeof_pool_manager + CONNECTION_POOL_LENGTH * sizeof_connection) \<and>
    supplies (os_aligned_alloc (sy_os (nt_sys nt))) szs pm"
proof -
  let ?aa = "os_aligned_alloc (sy_os (nt_sys nt))" and ?os = "sy_os (nt_sys nt)" and ?et = "pm_tail (bs_event_pool_manager w)"
    and ?cp = "connection_pool http" and ?bp = "buf_pool http" and ?hh = "BKDRhash (mem_of 0 ''Host'') 0 5 :: 32 word" and ?fl = "LV_CONN OR LV_FDRD"
  let ?c = "sizeof_pool_manager + CONNECTION_POOL_LENGTH * sizeof_connection" and ?b = "sizeof_pool_manager + BUFFER_POOL_LENGTH * 16432"
  have ne: "?cp \<noteq> ?bp" by (simp add: connection_pool_def buf_pool_def)
  have refl: "pools_like m m" for m by (simp add: pools_like_def)
  have sup1: "supplies ?aa (?c # ?b # szs) (w_pool w)" using sup by (simp add: worker_blocks_def)
  define blk1 where "blk1 = ?aa (w_pool w) ?c"
  note b1 = supplies_first [OF sup1 refl, folded blk1_def]
  have args1: "pool_args ?aa ?cp sizeof_connection CONNECTION_POOL_LENGTH (w_pool (w\<lparr>w_http := http\<rparr>))"
    using supplies_args [OF sup1 _ http(2)] refl by (simp add: sizeof_connection_def CONNECTION_POOL_LENGTH_def)
  obtain mg1 p1 where m1: "mgr_new (nt_sys nt) ?cp sizeof_connection CONNECTION_POOL_LENGTH (w\<lparr>w_http := http\<rparr>) =
        Some (w\<lparr>w_http := http, w_mgr := (w_mgr w)(?cp \<mapsto> mg1), w_pool := p1\<rparr>)"
      "mgr_room (w\<lparr>w_http := http, w_mgr := (w_mgr w)(?cp \<mapsto> mg1), w_pool := p1\<rparr>) ?cp 296 32"
      "mgr_next (w\<lparr>w_http := http, w_mgr := (w_mgr w)(?cp \<mapsto> mg1), w_pool := p1\<rparr>) ?cp = unat blk1 + 40"
      "mgr_tail (w\<lparr>w_http := http, w_mgr := (w_mgr w)(?cp \<mapsto> mg1), w_pool := p1\<rparr>) ?cp = blk1"
      "own_block blk1 sizeof_connection CONNECTION_POOL_LENGTH mg1 p1" "\<forall>t. t \<noteq> blk1 \<longrightarrow> p1 t = w_pool w t"
    using mgr_new_ok [OF args1, of blk1] by (auto simp: blk1_def sizeof_connection_def CONNECTION_POOL_LENGTH_def)
  have sup2: "supplies ?aa (?b # szs) p1" using b1 m1(5,6) by (auto simp: block_added_def own_block_def)
  have et: "blk1 \<noteq> ?et" using b1 ev_tail_live [OF room] by auto
  define w3 where "w3 = w\<lparr>w_http := http, w_mgr := (w_mgr w)(?cp \<mapsto> mg1), w_pool := p1, w_HostHash := ?hh, w_listen_fd := lfd\<rparr>"
  have ev3: "ev_room w3 (Suc k)" "slot_of w3 = slot_of w"
    using ev_room_cong [OF room, of w3] m1(6) et by (simp_all add: w3_def)
  define l where "l = slot_of w3 0"
  obtain p4 w4 where io: "lt_io_add ?os (sy_now (nt_sys nt)) w3 lfd ?fl cb_start_accept http NO_TIMEOUT = Some (l, w4)"
      "l \<noteq> 0" "w_ev w3 l = None" "w4 = w3\<lparr>w_pool := p4, w_ev := (w_ev w3)(l \<mapsto> registered ?os w3 lfd ?fl cb_start_accept http),
         w_calls := w_calls w3 @ [add_call w3 lfd ?fl l]\<rparr>" "ev_room w4 k" "pool_kept (pm_tail (bs_event_pool_manager w3)) (w_pool w3) p4"
    using io_add_ok [OF ev3(1) _ l_def, of NO_TIMEOUT ?os "sy_now (nt_sys nt)" lfd ?fl cb_start_accept http] by (auto simp: NO_TIMEOUT_def add_call_def)
  have p4: "t \<noteq> ?et \<longrightarrow> p4 t = p1 t" "pools_like p1 p4" for t
    using io(6) pool_kept_like [OF io(6)] by (simp_all add: pool_kept_def w3_def)
  define blk2 where "blk2 = ?aa p4 ?b"
  note b2 = supplies_first [OF sup2 p4(2), folded blk2_def]
  define w5 where "w5 = w4\<lparr>w_listen_ev := l\<rparr>"
  have args2: "pool_args ?aa ?bp 16432 BUFFER_POOL_LENGTH (w_pool w5)"
    using supplies_args [OF sup2 p4(2) http(3)] by (simp add: BUFFER_POOL_LENGTH_def w5_def io(4))
  obtain mg2 p6 where m2: "mgr_new (nt_sys nt) ?bp 16432 BUFFER_POOL_LENGTH w5 = Some (w5\<lparr>w_mgr := (w_mgr w5)(?bp \<mapsto> mg2), w_pool := p6\<rparr>)"
      "mgr_room (w5\<lparr>w_mgr := (w_mgr w5)(?bp \<mapsto> mg2), w_pool := p6\<rparr>) ?bp 16432 64"
      "mgr_tail (w5\<lparr>w_mgr := (w_mgr w5)(?bp \<mapsto> mg2), w_pool := p6\<rparr>) ?bp = blk2"
      "own_block blk2 16432 BUFFER_POOL_LENGTH mg2 p6" "\<forall>t. t \<noteq> blk2 \<longrightarrow> p6 t = p4 t"
    using mgr_new_ok [OF args2, of blk2] by (auto simp: blk2_def BUFFER_POOL_LENGTH_def w5_def io(4))
  have sup3: "supplies ?aa szs p6" using b2 m2(4,5) by (auto simp: block_added_def own_block_def)
  define w6 where "w6 = w5\<lparr>w_mgr := (w_mgr w5)(?bp \<mapsto> mg2), w_pool := p6\<rparr>"
  have w6: "w6 = w\<lparr>w_http := http, w_HostHash := ?hh, w_listen_fd := lfd, w_listen_ev := l,
      w_mgr := (w_mgr w)(?cp \<mapsto> mg1, ?bp \<mapsto> mg2), w_pool := p6,
      w_ev := (w_ev w)(l \<mapsto> registered ?os w lfd ?fl cb_start_accept http), w_calls := w_calls w @ [add_call w lfd ?fl l]\<rparr>"
    by (simp add: w6_def w5_def io(4) w3_def registered_def add_call_def)
  have blk: "blk1 \<noteq> blk2" using b2 m1(5) by (auto simp: own_block_def)
  have "w_pool w blk2 = None" using b2 m1(6) blk by auto
  moreover have "blk2 \<noteq> ?et" using calculation ev_tail_live [OF room] by auto
  then have kept: "p6 ?et = p4 ?et" "p6 blk1 = p1 blk1" using m2(5) blk p4(1) et by simp_all
  have "ev_room w6 k" using ev_room_cong [OF io(5), of w6] kept(1) by (simp add: w6_def w5_def io(4) w3_def)
  moreover have "mgr_room w6 ?cp 296 32" "mgr_next w6 ?cp = unat blk1 + 40" "mgr_tail w6 ?cp = blk1"
    using mgr_room_cong [of w6 ?cp "w\<lparr>w_http := http, w_mgr := (w_mgr w)(?cp \<mapsto> mg1), w_pool := p1\<rparr>"] m1(2-4) ne kept(2) by (simp_all add: w6 mgr_tail_def)
  moreover have "http_worker_new nt http 0 ps 0 0 w = Some (http, w6)"
    using http(1) ps m1(1) io(1) m2(1) unfolding w3_def w5_def
    by (simp add: http_worker_new_def http_add_listen_def get_addrinfo_with_bind_def w6_def w5_def)
  ultimately show ?thesis
    using m2(2,3) io(2,3) b1 blk sup3 w6 unfolding w6_def [symmetric]
    by (intro exI [of _ mg1] exI [of _ mg2] exI [of _ p6] exI [of _ l] exI [of _ w6] exI [of _ blk1] exI [of _ blk2]) (simp add: w3_def blk1_def)
qed

definition process_blocks :: "u64 list" where
  "process_blocks = (sizeof_pool_manager + EVENT_POOL_LENGTH * sizeof_event) # worker_blocks"

text \<open>No block that \<open>aligned_alloc\<close> gives contains \<open>a\<close>, which is in an object of \<open>malloc\<close>.\<close>

definition outside :: "aligned_alloc \<Rightarrow> u64 \<Rightarrow> bool" where
  "outside aa a \<longleftrightarrow> (\<forall>m. \<forall>sz \<in> set (process_blocks @ [sizeof_pool_manager + 4 * sizeof_request]). aa m sz \<noteq> 0 \<longrightarrow> unat a < unat (aa m sz) \<or> unat (aa m sz) + unat sz \<le> unat a)"

text \<open>
  A process that starts: no event yet, \<open>malloc\<close> gives the base, the head of the free events and the server, \<open>aligned_alloc\<close> gives
  the blocks, and the members that the code reads before it writes them are 0.
\<close>

definition starting :: "net \<Rightarrow> u64 list \<Rightarrow> u64 \<Rightarrow> u64 \<Rightarrow> u64 \<Rightarrow> 'a web_scheme \<Rightarrow> bool" where
  "starting nt szs base head http w \<longleftrightarrow> base \<noteq> 0 \<and> base + 24 \<noteq> 0 \<and> head \<noteq> 0 \<and> http \<noteq> 0 \<and> connection_pool http \<noteq> 0 \<and> buf_pool http \<noteq> 0 \<and>
     outside (os_aligned_alloc (sy_os (nt_sys nt))) head \<and> outside (os_aligned_alloc (sy_os (nt_sys nt))) (connection_pool http) \<and>
     outside (os_aligned_alloc (sy_os (nt_sys nt))) (buf_pool http) \<and>
     w_ev w = Map.empty \<and> bs_active_tail w = 0 \<and> \<not> lagging (os_junk (sy_os (nt_sys nt))) \<and>
     supplies (os_aligned_alloc (sy_os (nt_sys nt))) (process_blocks @ (sizeof_pool_manager + 4 * sizeof_request) # szs) (w_pool w)"

text \<open>The sockets of the upstream server get the descriptor \<open>up\<close>, and sockets and fresh objects behave as in \<open>served\<close>.\<close>

definition upstream_net :: "net \<Rightarrow> int \<Rightarrow> bool" where
  "upstream_net nt up \<longleftrightarrow> (\<forall>pair. nt_socket nt pair = up \<and> connects nt pair) \<and>
     ch_next (sy_junk_chain (nt_sys nt)) = 0 \<and> length (rq_lowcase_header (hr_req (nt_junk_req nt))) = 32 \<and>
     (\<forall>out vs. fst (sy_writev (nt_sys nt) out up vs) = int (length (concat vs)))"

definition takes_all :: "net \<Rightarrow> int \<Rightarrow> bool" where
  "takes_all nt s \<longleftrightarrow> ch_next (sy_junk_chain (nt_sys nt)) = 0 \<and> length (rq_lowcase_header (hr_req (nt_junk_req nt))) = 32 \<and>
     (\<forall>out vs. fst (sy_writev (nt_sys nt) out s vs) = int (length (concat vs)))"

lemma process_set_up:
  assumes start: "starting nt szs base head http w" and net: "takes_all nt up" and os: "epfd \<noteq> - 1" "bind_first ps None = (0, Some lfd)"
  shows "\<exists>w1 w2. lt_base_init (sy_os (nt_sys nt)) base epfd head w = Some (base, w1) \<and> http_worker_new nt http 0 ps 0 0 w1 = Some (http, w2) \<and>
    listening w2 \<and> accepting nt szs w2 \<and> serving nt up w2 \<and> w_http w2 = http \<and> mgr_room w2 (buf_pool http) 16432 64 \<and> w_listen_fd w2 = lfd \<and> bs_epfd w2 = epfd \<and>
    w_calls w2 = w_calls w @ [\<lparr>ec_epfd = epfd, ec_op = EPOLL_CTL_ADD, ec_fd = lfd, ec_events = ep_mask (LV_CONN OR LV_FDRD), ec_ptr = w_listen_ev w2\<rparr>] \<and>
    w_HostHash w2 = BKDRhash (mem_of 0 ''Host'') 0 5 \<and> w_out w2 = w_out w \<and> w_in w2 = w_in w \<and> w_pending w2 = w_pending w \<and>
    mgr_room w2 (connection_pool http) 296 32 \<and> ev_room w2 63 \<and>
    (\<forall>a. mgr_next w2 (connection_pool http) \<le> unat a \<and> unat a < mgr_next w2 (connection_pool http) + 9472 \<longrightarrow> a \<noteq> connection_pool http \<and> a \<noteq> buf_pool http)"
proof -
  let ?aa = "os_aligned_alloc (sy_os (nt_sys nt))" and ?os = "sy_os (nt_sys nt)" and ?cp = "connection_pool http" and ?bp = "buf_pool http"
  let ?e = "sizeof_pool_manager + EVENT_POOL_LENGTH * sizeof_event" and ?c = "sizeof_pool_manager + CONNECTION_POOL_LENGTH * sizeof_connection"
  let ?szs = "(sizeof_pool_manager + 4 * sizeof_request) # szs"
  have nz: "base \<noteq> 0" "base + 24 \<noteq> 0" "head \<noteq> 0" "http \<noteq> 0" "?cp \<noteq> 0" "?bp \<noteq> 0"
    and out: "outside ?aa head" "outside ?aa ?cp" "outside ?aa ?bp"
    and ev: "w_ev w = Map.empty" "bs_active_tail w = 0" "\<not> lagging (os_junk ?os)"
    and sup: "supplies ?aa (?e # worker_blocks @ ?szs) (w_pool w)"
    using start by (simp_all add: starting_def process_blocks_def)
  have refl: "pools_like m m" for m by (simp add: pools_like_def)
  define blk where "blk = ?aa (w_pool w) ?e"
  note b = supplies_first [OF sup refl, folded blk_def]
  have args: "pool_args ?aa (base + 24) sizeof_event EVENT_POOL_LENGTH (w_pool w)"
    using supplies_args [OF sup refl nz(2)] by (simp add: sizeof_event_def EVENT_POOL_LENGTH_def)
  have "unat head < unat blk \<or> unat blk + unat ?e \<le> unat head" using out(1) b unfolding outside_def process_blocks_def blk_def by simp
  then have apart: "\<forall>a. w_ev w a \<noteq> None \<or> a = head \<longrightarrow> unat a < unat blk \<or> unat blk + 48 + 64 * 88 \<le> unat a"
    using ev(1) by (auto simp: sizeof_pool_manager_def EVENT_POOL_LENGTH_def sizeof_event_def)
  obtain mg pm w1 where i: "lt_base_init ?os base epfd head w = Some (base, w1)"
    "w1 = w\<lparr>w_self := base, bs_epfd := epfd, bs_free_ev_head := head, w_ev := (w_ev w)(head \<mapsto> (os_junk ?os)\<lparr>ev_next := 0\<rparr>),
      bs_active_head := 0, bs_event_pool_manager := mg, w_pool := pm, bs_timeheap := min_heap_constructor\<rparr>"
    "ev_room w1 (Suc 63)" "pm_tail mg = blk" "\<forall>t. t \<noteq> blk \<longrightarrow> pm t = w_pool w t" "\<exists>h. pm blk = Some h \<and> mp_start h = blk \<and> mp_end h = blk + ?e"
    using base_init_ok [OF nz(1) os(1) nz(3) args blk_def apart] by auto
  have sup1: "supplies ?aa (worker_blocks @ ?szs) (w_pool w1)"
    using b i(5,6) by (simp add: block_added_def i(2))
  obtain mg1 mg2 pm2 l w2 blk1 blk2 where n: "http_worker_new nt http 0 ps 0 0 w1 = Some (http, w2)"
    "w2 = w1\<lparr>w_http := http, w_HostHash := BKDRhash (mem_of 0 ''Host'') 0 5, w_listen_fd := lfd, w_listen_ev := l,
      w_mgr := (w_mgr w1)(?cp \<mapsto> mg1, ?bp \<mapsto> mg2), w_pool := pm2,
      w_ev := (w_ev w1)(l \<mapsto> registered ?os w1 lfd (LV_CONN OR LV_FDRD) cb_start_accept http),
      w_calls := w_calls w1 @ [add_call w1 lfd (LV_CONN OR LV_FDRD) l]\<rparr>" "l \<noteq> 0"
    "mgr_room w2 ?cp 296 32" "mgr_tail w2 ?cp = blk1" "mgr_next w2 ?cp = unat blk1 + 40"
    "mgr_room w2 ?bp 16432 64" "mgr_tail w2 ?bp = blk2" "ev_room w2 63"
    "blk1 \<noteq> blk2" "w_pool w1 blk1 = None" "w_pool w1 blk2 = None" "blk1 = ?aa (w_pool w1) ?c" "supplies ?aa ?szs pm2"
    using worker_ready [OF nz(4-6) os(2) i(3) sup1] by blast
  have tails: "pm_tail (bs_event_pool_manager w2) = blk" "blk1 \<noteq> blk" "blk2 \<noteq> blk"
    using n(2,11,12) i(2,4) ev_tail_live [OF i(3)] by auto
  have b1: "?aa (w_pool w1) ?c \<noteq> 0"
    using supplies_first [OF sup1 [unfolded worker_blocks_def append_Cons] refl] by simp
  have "quiet w1" using base_init_quiet [OF i(1) nz(1) ev(2) _ ev(3)] ev(1) by simp
  then have "quiet w2" using worker_quiet [OF n(1)] by simp
  then have "listening w2" using n(2,3) by (simp add: listening_def ev_at_def registered_def)
  moreover have "unat ?cp < unat blk1 \<or> unat blk1 + 9520 \<le> unat ?cp" "unat ?bp < unat blk1 \<or> unat blk1 + 9520 \<le> unat ?bp"
    using out(2,3) b1 unfolding outside_def process_blocks_def worker_blocks_def n(13)
    by (simp_all add: sizeof_pool_manager_def CONNECTION_POOL_LENGTH_def sizeof_connection_def)
  then have away: "a \<noteq> ?cp \<and> a \<noteq> ?bp" if "unat blk1 + 40 \<le> unat a" "unat a < unat blk1 + 40 + 9472" for a using that by auto
  have "accepting nt szs w2"
    unfolding accepting_def
  proof (intro conjI)
    have "ev_room w2 (Suc (Suc 61))" using n(9) by simp
    then show "\<exists>k. ev_room w2 (Suc (Suc k))" by blast
    show "\<forall>a. mgr_next w2 (connection_pool (w_http w2)) \<le> unat a \<and> unat a < mgr_next w2 (connection_pool (w_http w2)) + 592 \<longrightarrow>
        a \<noteq> connection_pool (w_http w2) \<and> a \<noteq> buf_pool (w_http w2)"
      using away n(6) by (simp add: n(2))
  qed (use mgr_room_le [OF n(4), of 2] n(5,14) tails in \<open>simp_all add: n(2)\<close>)
  moreover have "serving nt up w2"
    using mgr_room_le [OF n(7), of 1] n(2,5,8,10) tails net by (simp add: serving_def takes_all_def)
  moreover have "\<forall>a. mgr_next w2 ?cp \<le> unat a \<and> unat a < mgr_next w2 ?cp + 9472 \<longrightarrow> a \<noteq> ?cp \<and> a \<noteq> ?bp" using away n(6) by simp
  ultimately show ?thesis
    using i(1) n(1,4,7,9) by (intro exI [of _ w1] exI [of _ w2]) (simp add: n(2) i(2) add_call_def)
qed

lemma process_ready:
  assumes start: "starting nt szs base head http w" and net: "upstream_net nt up" and os: "epfd \<noteq> - 1" "bind_first ps None = (0, Some lfd)"
  shows "\<exists>w1 w2. lt_base_init (sy_os (nt_sys nt)) base epfd head w = Some (base, w1) \<and> http_worker_new nt http 0 ps 0 0 w1 = Some (http, w2) \<and>
    listening w2 \<and> accepting nt szs w2 \<and> serving nt up w2 \<and> w_http w2 = http \<and> mgr_room w2 (buf_pool http) 16432 64 \<and> w_listen_fd w2 = lfd \<and> bs_epfd w2 = epfd \<and>
    w_calls w2 = w_calls w @ [\<lparr>ec_epfd = epfd, ec_op = EPOLL_CTL_ADD, ec_fd = lfd, ec_events = ep_mask (LV_CONN OR LV_FDRD), ec_ptr = w_listen_ev w2\<rparr>] \<and>
    w_HostHash w2 = BKDRhash (mem_of 0 ''Host'') 0 5 \<and> w_out w2 = w_out w \<and> w_in w2 = w_in w \<and> w_pending w2 = w_pending w"
  using process_set_up [OF start _ os] net unfolding takes_all_def upstream_net_def by blast

section \<open>From the start to the first client\<close>

lemma child_waits:
  assumes set_up: "lt_base_init (sy_os (nt_sys nt)) base epfd head w = Some (base, w1)" "base \<noteq> 0" "conf \<noteq> 0"
    "http_worker_new nt http gai ps listen_rv sigpipe w1 = Some (http, w2)" "http \<noteq> 0"
    and run: "quiet w2" "reports rounds as" "run_calls (dispatch nt) as w2 = Some w'"
  shows "child nt conf (base, epfd, head) (http, gai, ps, listen_rv, sigpipe) start rounds w = Some (Child_waits w')"
  using set_up reported_calls [OF run] by (simp add: child_def)


text \<open>
  A process that starts with memory and system calls that succeed registers its listening socket with epoll for
  an event \<open>l\<close>. When epoll reports \<open>l\<close> while a client waits, it registers the client's socket for an event \<open>e\<close>; when epoll
  reports \<open>e\<close>, and the client's well-formed request without a body is delivered in pieces of any sizes, exactly that request,
  its header names in lower case, is written to the socket of the upstream server. After each of these reports, in any rounds of
  \<open>epoll_wait\<close>, the process waits for the next.
\<close>

theorem process_serves_client:
  assumes "starting nt request_blocks base head http w" "upstream_net nt up" "epfd \<noteq> - 1" "bind_first ps None = (0, Some lfd)" "conf \<noteq> 0"
    and "w_pending w lfd = [(fd, 0)]" "0 \<le> fd" "2 \<le> nt_somaxconn nt"
    and "arrives w fd (request_text name t M N fs)" "good_line name t M N" "good_header (w\<lparr>w_HostHash := BKDRhash (mem_of 0 ''Host'') 0 5\<rparr>) fs"
    and "rq_complex_uri (hr_req (nt_junk_req nt)) = 0" "rq_quoted_uri (hr_req (nt_junk_req nt)) = 0"
    and process: "process = (\<lambda>rounds. child nt conf (base, epfd, head) (http, 0, ps, 0, 0) start rounds w)"
  shows "\<exists>l e w0 w1 w'. (\<forall>rounds. reports rounds [] \<longrightarrow> process rounds = Some (Child_waits w0)) \<and>
    (\<forall>rounds. reports rounds [l] \<longrightarrow> process rounds = Some (Child_waits w1)) \<and>
    (\<forall>rounds. reports rounds [l, e] \<longrightarrow> process rounds = Some (Child_waits w')) \<and>
    \<lparr>ec_epfd = epfd, ec_op = EPOLL_CTL_ADD, ec_fd = lfd, ec_events = ep_mask (LV_CONN OR LV_FDRD), ec_ptr = l\<rparr> \<in> set (w_calls w0) \<and>
    \<lparr>ec_epfd = epfd, ec_op = EPOLL_CTL_ADD, ec_fd = fd, ec_events = ep_mask (LV_FDRD OR LV_CONN), ec_ptr = e\<rparr> \<in> set (w_calls w1) \<and>
    w_out w0 = w_out w \<and> w_out w' = w_out w @ [(up, request_text name t M N (map lower_field fs))]"
proof -
  obtain w1 w2 where r: "lt_base_init (sy_os (nt_sys nt)) base epfd head w = Some (base, w1)" "http_worker_new nt http 0 ps 0 0 w1 = Some (http, w2)"
    "listening w2" "accepting nt request_blocks w2" "serving nt up w2" "w_listen_fd w2 = lfd" "bs_epfd w2 = epfd"
    "w_calls w2 = w_calls w @ [\<lparr>ec_epfd = epfd, ec_op = EPOLL_CTL_ADD, ec_fd = lfd, ec_events = ep_mask (LV_CONN OR LV_FDRD), ec_ptr = w_listen_ev w2\<rparr>]"
    "w_HostHash w2 = BKDRhash (mem_of 0 ''Host'') 0 5" "w_out w2 = w_out w" "w_in w2 = w_in w" "w_pending w2 = w_pending w"
    using process_ready [OF assms(1-4)] by blast
  define pair :: u64 where "pair = word_of_nat (mgr_next w2 (connection_pool (w_http w2)) + 296)"
  have net: "nt_socket nt pair = up" "connects nt pair" using assms(2) by (simp_all add: upstream_net_def)
  have client: "one_client nt fd w2" "arrives w2 fd (request_text name t M N fs)" "good_header w2 fs"
    using assms(6-9,11) r(6,9,11,12) by (simp_all add: one_client_def arrives_def good_header_def)
  obtain e w3 w4 where c: "run_calls (dispatch nt) [w_listen_ev w2] w2 = Some w3" "add_call w2 fd (LV_FDRD OR LV_CONN) e \<in> set (w_calls w3)"
    "run_calls (dispatch nt) [w_listen_ev w2, e] w2 = Some w4" "w_out w4 = w_out w2 @ [(up, request_text name t M N (map lower_field fs))]"
    using client_request_ok [OF r(3) client(1) r(4) r(5) [folded net(1)] pair_def net(2) client(2) assms(10) client(3) assms(12,13)] unfolding net(1) by blast
  have nz: "base \<noteq> 0" "http \<noteq> 0" and quiet: "quiet w2" using assms(1) r(3) by (simp_all add: starting_def listening_def)
  have start: "run_calls (dispatch nt) [] w2 = Some w2" by simp
  note waits = child_waits [OF r(1) nz(1) assms(5) r(2) nz(2) quiet]
  show ?thesis
    unfolding process
    using waits start c r(7,8,10)
    by (intro exI [of _ "w_listen_ev w2"] exI [of _ e] exI [of _ w2] exI [of _ w3] exI [of _ w4] conjI allI impI) (simp_all add: add_call_def)
qed


text \<open>
  The sockets of one client at \<open>fd\<close> and of its upstream server at \<open>up\<close>: the connection to the server succeeds, both take what is written, and the
  members of fresh connections and requests that the code reads before it writes them are 0.
\<close>

definition exchange_net :: "net \<Rightarrow> int \<Rightarrow> int \<Rightarrow> bool" where
  "exchange_net nt fd up \<longleftrightarrow> upstream_net nt up \<and> fd \<noteq> up \<and> nt_getsockopt nt up = (0, 0) \<and>
     (\<forall>out vs. fst (sy_writev (nt_sys nt) out fd vs) = int (length (concat vs))) \<and> cn_request_free_head (nt_junk_conn nt) = 0 \<and>
     rq_complex_uri (hr_req (nt_junk_req nt)) = 0 \<and> rq_quoted_uri (hr_req (nt_junk_req nt)) = 0 \<and>
     st_code (rq_status (hr_req (nt_junk_req nt))) = 0 \<and> st_count (rq_status (hr_req (nt_junk_req nt))) = 0"

lemma process_exchanging:
  assumes start: "starting nt request_blocks base head http w" "starting nt (header_block # request_blocks) base head http w"
    and net: "exchange_net nt fd up" and os: "epfd \<noteq> - 1" "bind_first ps None = (0, Some lfd)"
  shows "\<exists>w1 w2. lt_base_init (sy_os (nt_sys nt)) base epfd head w = Some (base, w1) \<and> http_worker_new nt http 0 ps 0 0 w1 = Some (http, w2) \<and>
    listening w2 \<and> accepting nt request_blocks w2 \<and> serving nt up w2 \<and> exchanging nt fd up 61 w2 \<and> w_listen_fd w2 = lfd \<and> bs_epfd w2 = epfd \<and>
    w_calls w2 = w_calls w @ [\<lparr>ec_epfd = epfd, ec_op = EPOLL_CTL_ADD, ec_fd = lfd, ec_events = ep_mask (LV_CONN OR LV_FDRD), ec_ptr = w_listen_ev w2\<rparr>] \<and>
    w_HostHash w2 = BKDRhash (mem_of 0 ''Host'') 0 5 \<and> w_out w2 = w_out w \<and> w_in w2 = w_in w \<and> w_pending w2 = w_pending w"
proof -
  have up: "upstream_net nt up" using net by (simp add: exchange_net_def)
  obtain w1 w2 where r: "lt_base_init (sy_os (nt_sys nt)) base epfd head w = Some (base, w1)" "http_worker_new nt http 0 ps 0 0 w1 = Some (http, w2)"
    "listening w2" "accepting nt request_blocks w2" "serving nt up w2" "w_http w2 = http" "mgr_room w2 (buf_pool http) 16432 64" "w_listen_fd w2 = lfd" "bs_epfd w2 = epfd"
    "w_calls w2 = w_calls w @ [\<lparr>ec_epfd = epfd, ec_op = EPOLL_CTL_ADD, ec_fd = lfd, ec_events = ep_mask (LV_CONN OR LV_FDRD), ec_ptr = w_listen_ev w2\<rparr>]"
    "w_HostHash w2 = BKDRhash (mem_of 0 ''Host'') 0 5" "w_out w2 = w_out w" "w_in w2 = w_in w" "w_pending w2 = w_pending w"
    using process_ready [OF start(1) up os] by blast
  have "accepting nt (header_block # request_blocks) w2"
    using process_ready [OF start(2) up os] r(1,2) by auto
  moreover have "unat (buf_pool http) < unat blk \<or> unat blk + 2256 \<le> unat (buf_pool http)"
    if "blk = os_aligned_alloc (sy_os (nt_sys nt)) m (sizeof_pool_manager + 4 * sizeof_request)" "blk \<noteq> 0" for m blk
    using start(1) that by (simp add: starting_def outside_def sizeof_pool_manager_def sizeof_request_def)
  moreover have "mgr_room w2 (buf_pool http) 16432 (Suc (Suc (Suc 61)))" using r(7) by simp
  ultimately have "exchanging nt fd up 61 w2"
    using net r(6) by (simp add: exchanging_def exchange_net_def)
  then show ?thesis using r by blast
qed


text \<open>A process whose memory is empty: base at 256, head of the free events at 512, server at 16384; one client waits at socket 3, and the
  pieces and pauses \<open>rs\<close> on the socket of the upstream server.\<close>

definition demo_start :: "string list \<Rightarrow> rx list \<Rightarrow> web" where
  "demo_start ds rs = bufs.extend (lea.extend (demo_lea\<lparr>w_ev := Map.empty, w_pool := Map.empty\<rparr>)
     (bufs.fields Map.empty (\<lambda>_. NUL) Map.empty Map.empty [] ((\<lambda>_. map Data ds)(9 := rs)) ((\<lambda>_. [])(3 := [(6, 0)]))))
     (web.fields Map.empty Map.empty Map.empty 0 0 0 0)"

definition demo_blocks :: "u64 list" where
  "demo_blocks = [65536, 131072, 1048576, 4194304, 8388608, 12582912, 16777216]"

definition demo_start_net :: net where
  "demo_start_net = demo_server_net\<lparr>nt_sys := (nt_sys demo_server_net)\<lparr>sy_os := (sy_os (nt_sys demo_server_net))\<lparr>os_aligned_alloc := first_free demo_blocks\<rparr>\<rparr>\<rparr>"

lemmas demo_start_defs = demo_start_def demo_lea_def lea.defs bufs.defs web.defs

lemma first_free_member: "first_free as m sz \<noteq> 0 \<Longrightarrow> first_free as m sz \<in> set as"
  by (induction as) auto

lemma demo_blocks_outside: "unat x < 65536 \<Longrightarrow> outside (first_free demo_blocks) x"
proof -
  assume x: "unat x < 65536"
  have "\<forall>b \<in> set demo_blocks. 65536 \<le> unat b" by (simp add: demo_blocks_def)
  then have "unat x < unat (first_free demo_blocks m sz)" if "first_free demo_blocks m sz \<noteq> 0" for m sz
    using x first_free_member [OF that] by fastforce
  then show ?thesis by (simp add: outside_def)
qed

lemma supplies_prefix: "supplies aa (szs @ szs2) m \<Longrightarrow> supplies aa szs m"
  by (induction aa szs m rule: supplies.induct) auto

lemma demo_blocks_supply:
  assumes "szs \<in> {request_blocks, header_block # request_blocks}"
  shows "supplies (first_free demo_blocks) (process_blocks @ (sizeof_pool_manager + 4 * sizeof_request) # szs) (w_pool (demo_start ds rs))"
proof -
  have "supplies (first_free demo_blocks) (process_blocks @ (sizeof_pool_manager + 4 * sizeof_request) # header_block # b #
      [sizeof_pool_manager + CHAIN_POOL_LENGTH * sizeof_chain]) (w_pool (demo_start ds rs))"
    if "b \<in> {header_block, sizeof_pool_manager + CHAIN_POOL_LENGTH * sizeof_chain}" for b
    unfolding demo_blocks_def
    by (rule first_free_supplies [where ps = "[]" and lo = 0, unfolded append_Nil])
      (use that in \<open>auto simp: process_blocks_def worker_blocks_def header_block_def sizeof_pool_manager_def sizeof_request_def DEFAULT_HEADER_ELEMENT_COUNT_def
        sizeof_element_def CHAIN_POOL_LENGTH_def sizeof_chain_def EVENT_POOL_LENGTH_def sizeof_event_def CONNECTION_POOL_LENGTH_def
        sizeof_connection_def BUFFER_POOL_LENGTH_def demo_start_defs\<close>)
  from this [of header_block] this [of "sizeof_pool_manager + CHAIN_POOL_LENGTH * sizeof_chain"] show ?thesis
    using assms supplies_prefix [of _ "process_blocks @ (sizeof_pool_manager + 4 * sizeof_request) # request_blocks"
        "[sizeof_pool_manager + CHAIN_POOL_LENGTH * sizeof_chain]"]
    by (auto simp: request_blocks_def header_block_def simp del: supplies.simps)
qed

lemma demo_start_ok:
  assumes "szs \<in> {request_blocks, header_block # request_blocks}"
  shows "starting demo_start_net szs 256 512 16384 (demo_start ds rs)"
proof -
  have "os_aligned_alloc (sy_os (nt_sys demo_start_net)) = first_free demo_blocks" "\<not> lagging (os_junk (sy_os (nt_sys demo_start_net)))"
    by (simp_all add: demo_start_net_def demo_server_net_def demo_net_def demo_sys_def demo_os_def lagging_def demo_event_def)
  moreover have "w_ev (demo_start ds rs) = Map.empty" "bs_active_tail (demo_start ds rs) = 0" by (simp_all add: demo_start_defs)
  ultimately show ?thesis
    using demo_blocks_supply [OF assms] demo_blocks_outside unfolding starting_def demo_server_pools(1,2) by simp
qed

lemmas demo_start_one = demo_start_ok [OF insertI1] and demo_start_two = demo_start_ok [OF insertI2, OF singletonI]

lemma demo_start_net_ok:
  "upstream_net demo_start_net 9" "exchange_net demo_start_net 6 9" "nt_somaxconn demo_start_net = 128"
  "rq_complex_uri (hr_req (nt_junk_req demo_start_net)) = 0" "rq_quoted_uri (hr_req (nt_junk_req demo_start_net)) = 0"
  using demo_server_serving [of "[]"] demo_server_net_facts
  by (simp_all add: serving_def upstream_net_def exchange_net_def connects_def demo_start_net_def demo_server_net_def demo_net_def demo_sys_def
      demo_conn_def demo_req_def blank_request_def)

lemma demo_start_header: "good_header ((demo_start ds rs)\<lparr>w_HostHash := BKDRhash (mem_of 0 ''Host'') 0 5\<rparr>) [(''Host'', ''x'')]"
  using demo_host_hash by (simp add: good_header_def good_field_def demo_host_chars crlf_defs)

theorem process_serves_client_witness:
  "\<exists>l e w'. child demo_start_net 64 (256, 5, 512) (16384, 0, [(3, 0)], 0, 0) \<lparr>tv_sec = 0, tv_nsec = 0\<rparr> [demo_round l, demo_round e]
      (demo_start [''GET /a HT'', ''TP/1.1'' @ [CR, LF] @ ''Ho'', ''st: x'' @ [CR, LF, CR, LF]] []) = Some (Child_waits w') \<and>
    w_out w' = [(9, ''GET /a HTTP/1.1'' @ [CR, LF] @ ''host: x'' @ [CR, LF, CR, LF])]"
proof -
  let ?ds = "[''GET /a HT'', ''TP/1.1'' @ [CR, LF] @ ''Ho'', ''st: x'' @ [CR, LF, CR, LF]]"
  have ar: "arrives (demo_start ?ds []) 6 (request_text ''GET'' ''a'' (CHR ''1'') (CHR ''1'') [(''Host'', ''x'')])"
    unfolding arrives_def demo_request(1) by (intro conjI exI [of _ ?ds] exI [of _ "[]"]) (auto simp: demo_start_defs)
  have w: "w_out (demo_start ?ds []) = []" "w_pending (demo_start ?ds []) 3 = [(6, 0)]" by (simp_all add: demo_start_defs)
  have os: "(5 :: int) \<noteq> - 1" "bind_first [(3, 0)] None = (0, Some 3)" "(64 :: u64) \<noteq> 0" "(0 :: int) \<le> 6" "2 \<le> nt_somaxconn demo_start_net"
    by (simp_all add: demo_start_net_ok(3))
  show ?thesis
    using process_serves_client [OF demo_start_one demo_start_net_ok(1) os(1-3) w(2) os(4,5) ar demo_request(3) demo_start_header demo_start_net_ok(4,5) refl]
      demo_round_reports(2) unfolding w(1) demo_request(2) append_Nil by blast
qed



text \<open>The same start with two clients at socket 3 and an aborted connection between them; each upstream connection gets a socket of its own.\<close>

definition demo_crowd :: web where
  "demo_crowd = (demo_start [''GET /a HT'', ''TP/1.1'' @ [CR, LF] @ ''Ho'', ''st: x'' @ [CR, LF, CR, LF]] [])
     \<lparr>w_pending := (\<lambda>_. [])(3 := [(6, 0), (- 1, ECONNABORTED), (8, 0)])\<rparr>"

definition demo_crowd_net :: net where
  "demo_crowd_net = demo_start_net\<lparr>nt_socket := uint\<rparr>"

lemma demo_crowd_start: "starting demo_crowd_net (replicate 1 (sizeof_pool_manager + 4 * sizeof_request) @ request_blocks) 256 512 16384 demo_crowd"
proof -
  let ?sz = "sizeof_pool_manager + 4 * sizeof_request"
  have "supplies (first_free demo_blocks) (process_blocks @ ?sz # ?sz # request_blocks) (w_pool (demo_start [] []))"
    unfolding demo_blocks_def
    by (rule first_free_supplies [where ps = "[]" and lo = 0, unfolded append_Nil])
      (auto simp: process_blocks_def worker_blocks_def request_blocks_def sizeof_pool_manager_def sizeof_request_def DEFAULT_HEADER_ELEMENT_COUNT_def
        sizeof_element_def CHAIN_POOL_LENGTH_def sizeof_chain_def EVENT_POOL_LENGTH_def sizeof_event_def CONNECTION_POOL_LENGTH_def
        sizeof_connection_def BUFFER_POOL_LENGTH_def demo_start_defs)
  moreover have "w_pool demo_crowd = w_pool (demo_start [] [])" "w_ev demo_crowd = w_ev (demo_start [] [])" "bs_active_tail demo_crowd = bs_active_tail (demo_start [] [])"
      "nt_sys demo_crowd_net = nt_sys demo_start_net"
    by (simp_all add: demo_crowd_def demo_start_defs demo_crowd_net_def)
  moreover have "os_aligned_alloc (sy_os (nt_sys demo_start_net)) = first_free demo_blocks" by (simp add: demo_start_net_def)
  ultimately show ?thesis
    using demo_start_one [of "[]" "[]"] unfolding starting_def by (simp del: supplies.simps)
qed


end
