(* ===== verification/Spec2Isabelle.thy ===== *)
theory Spec2Isabelle
  imports Lt_Time Lt_Pool Lt_Event Lea_Heap Event_Loop Parse_Status_Line Parse_Header_Line Parse_Request_Line Http_Host Buffer_Ops
    Http_Request Http_Forward Forward_Request Forward_Response Proxy Worker Incoming Data_Coming Callback_Steps Accepting Serving Streaming Exchange Clients Start_Up
begin

text \<open>
  leactor: an event library (event_lea, lea_heap, lt_pool, buffer_op_lea) and an HTTP reverse proxy built on it (http, proxy, the
  parsers taken from nginx, main).

  The parts and how they interact. \<open>main\<close> calls \<open>child\<close>, which makes an event base, a server with a listening socket,
  and runs the loop. The loop waits for epoll, links the ready events and calls their callbacks. \<open>start_accept\<close> accepts clients;
  for each, \<open>http_init_connection\<close> registers the client and connects to the upstream server. Data of the client is received into
  a chain of buffers, the request line and the header are parsed in place, and a chain of \<open>iovec\<close>s that points into the buffer is
  written to the upstream connection; data of the upstream server takes the same way back. Events, connections, requests, header
  elements, chains and buffers all come from memory pools.

  Theories and code.
  \<^item> \<open>Leactor_Prelude\<close>: C integers (\<open>i32\<close>, \<open>i64\<close>, 64-bit addresses), loads and stores in a list.
  \<^item> \<open>Lt_Time\<close>: deadlines, event_lea.c and the macros of event_lea.h.
  \<^item> \<open>Lt_Pool\<close>: lt_pool.c. A pool memory maps addresses to block headers. The locale \<open>element_pool\<close> is what the clients
    of an allocator rely on; it is interpreted on \<open>lt_alloc\<close>, and the rooms of the other theories (events, buffers, chains, header
    elements) rest on that interpretation.
  \<^item> \<open>Lt_Event\<close>, \<open>Lea_Heap\<close>: \<open>event_t\<close> and the binary heap of lea_heap.c over an array of event pointers; the events keep
    their own slot numbers, and \<open>heap_inv\<close> says that both agree.
  \<^item> \<open>Event_Loop\<close>: \<open>base_t\<close>, registration and the loop of event_lea.c. The state \<open>lea\<close> is extensible, so that the callbacks of the
    proxy run on an extension of it. A loop is run over the list of rounds epoll reports; \<open>Waiting\<close> is a loop still in
    \<open>epoll_wait\<close> when that list ends, and \<open>Hung\<close> one that does not come back from the active list.
  \<^item> \<open>Http_Data\<close>, \<open>Scanner\<close>: the fields of \<open>request_t\<close> the parsers use, and the loop the three parsers share: a locale
    \<open>scanner\<close> whose lemma says that scanning can be interrupted and resumed at any byte.
  \<^item> \<open>Parse_Request_Line\<close>, \<open>Parse_Header_Line\<close>, \<open>Parse_Status_Line\<close>: ngx_http_parse.c, one definition per group of states.
  \<^item> \<open>Http_Host\<close>: http_parse.c, and the lower case copy and the hash of http.c.
  \<^item> \<open>Buffer_Ops\<close>: buffer_op_lea.c. The state \<open>bufs\<close> adds pool managers, the bytes, buffers, chains, what was written and what the
    sockets will deliver.
  \<^item> \<open>Http_Request\<close>: requests and header elements (http.c 104-289, 313-327); the state \<open>web\<close> adds connections, requests and elements.
  \<^item> \<open>Http_Forward\<close>: the chains of a message, sending them, and the functions for a request line and a response line (http.c,
    proxy.c); \<open>Forward_Request\<close> and \<open>Forward_Response\<close> prove what they do with whole messages.
  \<^item> \<open>Proxy\<close>: the event callbacks and the setup of the server; \<open>Worker\<close>: \<open>child\<close> of main.c.
  \<^item> \<open>Incoming\<close>, \<open>Data_Coming\<close>: receiving into a new buffer and making a request, and with them \<open>http_data_coming\<close> and
    \<open>proxy_data_coming\<close> from the socket to the socket.
  \<^item> \<open>Callback_Steps\<close>: what no callback can do, whatever arrives and whatever the system calls return; one lemma per operation.
  \<^item> \<open>Accepting\<close>, \<open>Serving\<close>: \<open>proxy_connect\<close>, \<open>http_init_connection\<close> and \<open>start_accept\<close> for a client, and its request after that.
  \<^item> \<open>Streaming\<close>: a response whose body comes in many reports, by induction over its pieces.
  \<^item> \<open>Clients\<close>: all clients that wait at the listening socket, by induction over them; what taking one leaves alone (\<open>grown\<close>), so that
    each is served afterwards.
  \<^item> \<open>Exchange\<close>, \<open>Start_Up\<close>: the whole exchange of a client and an upstream server over the pools they share, and the process from
    \<open>lt_base_init\<close> and \<open>http_worker_new\<close> on.

  What is undefined in C (a null pointer, an object that is not there, an index outside an array, a block used after it was freed)
  is \<^const>\<open>None\<close>; where a loop may run forever the result has a second option, \<^const>\<open>None\<close> outside for not returning and
  \<open>Some None\<close> for undefined. Return codes are the values the code returns.

  What the groups of lemmas show. For the parsers: a well-formed line is delimited exactly, parsing in pieces is parsing in one call,
  and no call reads or writes outside its input. For the heap: each operation keeps events and slots linked and adds or removes
  exactly one event, and what is pushed is popped. For the pool: the first \<open>element_count\<close> elements are disjoint and inside the
  block. For the loop: registration sets every field, and the callbacks of the ready events are called in order. For buffers: what a
  socket delivers is what the chain holds; what the chains hold is what is written. Composed: a request in the client's buffer
  reaches the upstream connection byte for byte, header names in lower case, and a response header the client; the process, from its
  start, takes a client, connects upstream and proxies its request and the response, whatever the rounds of \<open>epoll_wait\<close> and the
  pieces in which the sockets deliver. No callback registers a lagging event, so the loop of the process is the sequence of the
  callbacks of the events that epoll reports, and no callback takes an object away. The properties of kind error state what the code does where that is not what it means to do.

  The outside. \<open>aligned_alloc\<close>, \<open>realloc\<close>, epoll, the clock and the socket calls are parameters (\<open>os\<close>, \<open>sys\<close>, \<open>net\<close>); what is
  relied on is a hypothesis (\<open>fresh_block\<close>: a block that is not null is aligned, below \<open>2 ^ 63\<close> and apart from all live blocks). What
  memory fresh from the allocator holds is a parameter too (\<open>os_junk\<close>, \<open>sy_junk_buf\<close>, \<open>sy_junk_chain\<close>, \<open>nt_junk_req\<close> and so on).
  Addresses of structures are 64-bit words, addresses of bytes are integers; a structure's members that are managers lie at
  their LP64 offsets.

  Bounds. A message with one to fourteen header fields fits the pool of 32 chains (three for the request line, two for a field);
  names are shorter than 32 and values shorter than \<open>10 ^ 9\<close> bytes, so that lengths fit an \<open>int\<close>. The number of rounds of the loop,
  of header fields and of received pieces is not bounded. Each report of a connection takes a new buffer that is never given back, so the
  theorems about a whole exchange bound the reports of a response by the 64 buffers of the first block, and those about many clients the clients by the 32 connections of the
  first block of connections.

  Not modelled: the socket option calls (\<open>lt_set_reuseaddr\<close>, \<open>lt_set_reuseport\<close>, \<open>lt_set_keepalive\<close>, \<open>lt_set_nodelay\<close>,
  \<open>lt_ignore_sigpipe\<close>), which change nothing the program reads, messages to standard error, members of structures that no code reads
  (such as \<open>peer_addr\<close> of a connection), the functions that only return a constant, and code in comments.
\<close>

end
